(* ===== verification/Prelude.thy ===== *)
theory Prelude
  imports Main "HOL-Library.Sublist"
begin

section \<open>Prelude: Go values, strings and the shared proof library\<close>

text \<open>
  What the component theories share: the types that stand for Go's durations, instants and
  channels, outcomes of calls that may panic, the functions of the Go standard library the
  proxy uses on strings and addresses, a small interface for reachable states and their
  invariants, and an interface for keyed tables (Go maps iterated as association lists).

  Strings are byte strings (\<^typ>\<open>string\<close>), as in Go. Durations and instants are \<^typ>\<open>int\<close>
  nanoseconds; the proxy never gets near the range of Go's 64-bit durations.
\<close>

named_theorems inv_simps \<open>unfolding rules of the components' invariants\<close>
named_theorems go_simps \<open>evaluation rules for the modelled Go library functions\<close>

type_synonym duration = int
type_synonym instant = int
type_synonym byte = char

text \<open>A call either returns or panics; a panic carries the runtime's message.\<close>

datatype 'a outcome = Returns 'a | Panics string

fun returns :: "'a outcome \<Rightarrow> bool" where
  "returns (Returns _) = True"
| "returns (Panics _) = False"

fun bind_outcome :: "'a outcome \<Rightarrow> ('a \<Rightarrow> 'b outcome) \<Rightarrow> 'b outcome" where
  "bind_outcome (Returns x) f = f x"
| "bind_outcome (Panics m) f = Panics m"

lemma bind_outcome_Returns_iff [simp]:
  "bind_outcome r f = Returns y \<longleftrightarrow> (\<exists>x. r = Returns x \<and> f x = Returns y)"
  by (cases r) auto

lemma returns_iff: "returns r \<longleftrightarrow> (\<exists>x. r = Returns x)"
  by (cases r) auto

text \<open>The first element of a list that has a property, as the \<open>for range\<close> loops with an early
  return search for it (\<^const>\<open>List.find\<close>).\<close>

lemma find_Some_split:
  "List.find P xs = Some x \<Longrightarrow> \<exists>us vs. xs = us @ x # vs \<and> P x \<and> (\<forall>u \<in> set us. \<not> P u)"
proof (induction xs)
  case Nil
  then show ?case by simp
next
  case (Cons y ys)
  show ?case
  proof (cases "P y")
    case True
    with Cons.prems show ?thesis by (intro exI [of _ "[]"] exI [of _ ys]) auto
  next
    case False
    with Cons obtain us vs where "ys = us @ x # vs" "P x" "\<forall>u \<in> set us. \<not> P u"
      by auto
    with False show ?thesis by (intro exI [of _ "y # us"] exI [of _ vs]) auto
  qed
qed

lemma find_None_iff_all: "List.find P xs = None \<longleftrightarrow> (\<forall>x \<in> set xs. \<not> P x)"
  by (induction xs) auto

lemma find_Some_prop: "List.find P xs = Some x \<Longrightarrow> x \<in> set xs \<and> P x"
  using find_Some_split by fastforce

lemma find_Some_exists: "x \<in> set xs \<Longrightarrow> P x \<Longrightarrow> \<exists>y. List.find P xs = Some y"
  by (metis find_None_iff_all not_None_eq)

subsection \<open>Strings\<close>

definition HasPrefix :: "string \<Rightarrow> string \<Rightarrow> bool" where
  "HasPrefix s p \<longleftrightarrow> prefix p s"

definition HasSuffix :: "string \<Rightarrow> string \<Rightarrow> bool" where
  "HasSuffix s p \<longleftrightarrow> suffix p s"

definition Contains :: "string \<Rightarrow> string \<Rightarrow> bool" where
  "Contains s p \<longleftrightarrow> sublist p s"

text \<open>\<open>strings.Index\<close> for a single byte, \<open>None\<close> standing for Go's $-1$.\<close>

fun IndexByte :: "string \<Rightarrow> byte \<Rightarrow> nat option" where
  "IndexByte [] c = None"
| "IndexByte (x # xs) c = (if x = c then Some 0 else map_option Suc (IndexByte xs c))"

definition LastIndexByte :: "string \<Rightarrow> byte \<Rightarrow> nat option" where
  "LastIndexByte s c = map_option (\<lambda>i. length s - 1 - i) (IndexByte (rev s) c)"

definition Trim :: "string \<Rightarrow> byte \<Rightarrow> string" where
  "Trim s c = rev (dropWhile (\<lambda>x. x = c) (rev (dropWhile (\<lambda>x. x = c) s)))"

definition TrimPrefix :: "string \<Rightarrow> string \<Rightarrow> string" where
  "TrimPrefix s p = (if HasPrefix s p then drop (length p) s else s)"

fun Join :: "string list \<Rightarrow> string \<Rightarrow> string" where
  "Join [] sep = []"
| "Join [x] sep = x"
| "Join (x # y # ys) sep = x @ sep @ Join (y # ys) sep"

text \<open>\<open>strings.ToLower\<close> on the bytes of the ASCII range; the callers look for ASCII words only,
  and no character outside that range is lowered to a letter of those words.\<close>

definition lower_byte :: "byte \<Rightarrow> byte" where
  "lower_byte c = (let n = of_char c :: nat in if 65 \<le> n \<and> n \<le> 90 then char_of (n + 32) else c)"

definition ToLower :: "string \<Rightarrow> string" where
  "ToLower = map lower_byte"

text \<open>\<open>strings.EqualFold\<close> against an ASCII word: besides the upper-case letters, the Kelvin sign
  (bytes E2 84 AA) folds to \<open>k\<close> and the long s (bytes C5 BF) folds to \<open>s\<close>.\<close>

fun fold_bytes :: "string \<Rightarrow> string" where
  "fold_bytes [] = []"
| "fold_bytes (a # b # c # s) =
     (if of_char a = (226 :: nat) \<and> of_char b = (132 :: nat) \<and> of_char c = (170 :: nat) then CHR ''k'' # fold_bytes s
      else if of_char a = (197 :: nat) \<and> of_char b = (191 :: nat) then CHR ''s'' # fold_bytes (c # s)
      else lower_byte a # fold_bytes (b # c # s))"
| "fold_bytes (a # b # s) =
     (if of_char a = (197 :: nat) \<and> of_char b = (191 :: nat) then CHR ''s'' # fold_bytes s
      else lower_byte a # fold_bytes (b # s))"
| "fold_bytes (a # s) = lower_byte a # fold_bytes s"

definition EqualFold :: "string \<Rightarrow> string \<Rightarrow> bool" where
  "EqualFold s word \<longleftrightarrow> fold_bytes s = word"

lemma IndexByte_None_iff: "IndexByte s c = None \<longleftrightarrow> c \<notin> set s"
  by (induction s) auto

lemma IndexByte_Some_take: "IndexByte s c = Some i \<Longrightarrow> i < length s \<and> s ! i = c \<and> c \<notin> set (take i s)"
proof (induction s arbitrary: i)
  case Nil
  then show ?case by simp
next
  case (Cons x xs)
  then show ?case by (auto split: if_splits)
qed

lemma IndexByte_append_fresh:
  "c \<notin> set s \<Longrightarrow> IndexByte (s @ c # t) c = Some (length s)"
  by (induction s) auto

lemma LastIndexByte_append_fresh:
  assumes "c \<notin> set t"
  shows "LastIndexByte (s @ c # t) c = Some (length s)"
proof -
  have "IndexByte (rev (s @ c # t)) c = Some (length t)"
    using IndexByte_append_fresh [of c "rev t" "rev s"] assms by simp
  then show ?thesis by (simp add: LastIndexByte_def)
qed

lemma Trim_no_edges:
  assumes "Trim s c \<noteq> []"
  shows "hd (Trim s c) \<noteq> c" and "last (Trim s c) \<noteq> c"
proof -
  let ?u = "dropWhile (\<lambda>x. x = c) s"
  let ?v = "dropWhile (\<lambda>x. x = c) (rev ?u)"
  have t: "Trim s c = rev ?v" by (simp add: Trim_def)
  with assms have vne: "?v \<noteq> []" by auto
  have une: "?u \<noteq> []"
  proof
    assume "?u = []"
    with vne show False by (simp only: rev.simps dropWhile.simps)
  qed
  show "last (Trim s c) \<noteq> c"
    using hd_dropWhile [OF vne] by (simp add: t last_rev)
  have "suffix ?v (rev ?u)" by (rule suffix_dropWhile)
  then have "last ?v = last (rev ?u)" using vne une
    by (metis suffix_def last_appendR)
  then have "hd (Trim s c) = hd ?u" using t vne une by (simp add: hd_rev last_rev)
  with hd_dropWhile [OF une] show "hd (Trim s c) \<noteq> c" by simp
qed

subsection \<open>Addresses\<close>

text \<open>\<open>net.SplitHostPort\<close>: host and port, or \<open>None\<close> for its errors.\<close>

definition SplitHostPort :: "string \<Rightarrow> (string \<times> string) option" where
  "SplitHostPort hostport =
     (case LastIndexByte hostport (CHR '':'') of
        None \<Rightarrow> None
      | Some i \<Rightarrow>
          if hostport ! 0 = CHR ''['' then
            (case IndexByte hostport (CHR '']'') of
               None \<Rightarrow> None
             | Some e \<Rightarrow>
                 if e + 1 = length hostport then None
                 else if e + 1 \<noteq> i then None
                 else if CHR ''['' \<in> set (drop 1 hostport) then None
                 else if CHR '']'' \<in> set (drop (e + 1) hostport) then None
                 else Some (drop 1 (take e hostport), drop (i + 1) hostport))
          else if CHR '':'' \<in> set (take i hostport) then None
          else if CHR ''['' \<in> set hostport then None
          else if CHR '']'' \<in> set hostport then None
          else Some (take i hostport, drop (i + 1) hostport))"

lemma SplitHostPort_plain:
  assumes "CHR '':'' \<notin> set h" "CHR '':'' \<notin> set p" "h \<noteq> []"
    and "CHR ''['' \<notin> set (h @ p)" "CHR '']'' \<notin> set (h @ p)"
  shows "SplitHostPort (h @ CHR '':'' # p) = Some (h, p)"
proof -
  have "(h @ CHR '':'' # p) ! 0 \<noteq> CHR ''[''"
    using assms by (cases h) auto
  then show ?thesis
    using assms by (simp add: SplitHostPort_def LastIndexByte_append_fresh)
qed

lemma SplitHostPort_needs_colon: "CHR '':'' \<notin> set s \<Longrightarrow> SplitHostPort s = None"
  using IndexByte_None_iff [of "rev s" "CHR '':''"] by (simp add: SplitHostPort_def LastIndexByte_def)

subsection \<open>Reachable states and invariants\<close>

inductive reach :: "('s \<Rightarrow> bool) \<Rightarrow> ('s \<Rightarrow> 's \<Rightarrow> bool) \<Rightarrow> 's \<Rightarrow> bool"
  for start :: "'s \<Rightarrow> bool" and step :: "'s \<Rightarrow> 's \<Rightarrow> bool" where
  reach_start: "start s \<Longrightarrow> reach start step s"
| reach_step: "reach start step s \<Longrightarrow> step s t \<Longrightarrow> reach start step t"

text \<open>The contract a component's step relation keeps: an invariant that holds at the start and
  that every step preserves. A component interprets it once and gets the invariant of every
  reachable state.\<close>

locale kept_invariant =
  fixes start :: "'s \<Rightarrow> bool" and step :: "'s \<Rightarrow> 's \<Rightarrow> bool" and inv :: "'s \<Rightarrow> bool"
  assumes start_inv: "start s \<Longrightarrow> inv s"
    and step_inv: "inv s \<Longrightarrow> step s t \<Longrightarrow> inv t"
begin

lemma reach_inv: "reach start step s \<Longrightarrow> inv s"
proof (induction rule: reach.induct)
  case (reach_start s)
  then show ?case by (rule start_inv)
next
  case (reach_step s t)
  then show ?case by (blast intro: step_inv)
qed

end

subsection \<open>Go maps as association lists\<close>

text \<open>
  A Go map is an association list with distinct keys; the order of the list is the order in which
  one \<open>range\<close> loop happens to visit the entries. Theorems that must not depend on the order are
  stated for every permutation of the list.
\<close>

definition keys :: "('k \<times> 'v) list \<Rightarrow> 'k list" where
  "keys = map fst"

lemma keys_Nil [simp]: "keys [] = []"
  by (simp add: keys_def)

lemma keys_Cons [simp]: "keys ((k, v) # m) = k # keys m"
  by (simp add: keys_def)

definition wf_map :: "('k \<times> 'v) list \<Rightarrow> bool" where
  "wf_map m \<longleftrightarrow> distinct (keys m)"

fun map_put :: "'k \<Rightarrow> 'v \<Rightarrow> ('k \<times> 'v) list \<Rightarrow> ('k \<times> 'v) list" where
  "map_put k v [] = [(k, v)]"
| "map_put k v ((k', v') # m) = (if k' = k then (k, v) # m else (k', v') # map_put k v m)"

definition map_delete :: "'k \<Rightarrow> ('k \<times> 'v) list \<Rightarrow> ('k \<times> 'v) list" where
  "map_delete k m = filter (\<lambda>e. fst e \<noteq> k) m"

lemma map_of_map_put [simp]: "map_of (map_put k v m) = (map_of m)(k \<mapsto> v)"
  by (induction k v m rule: map_put.induct) (auto simp: fun_upd_twist)

lemma map_of_map_delete [simp]: "map_of (map_delete k m) = (map_of m)(k := None)"
  unfolding map_delete_def by (induction m) auto

lemma set_keys_put [simp]: "set (keys (map_put k v m)) = insert k (set (keys m))"
  by (induction k v m rule: map_put.induct) (auto simp: keys_def)

lemma wf_map_Nil [simp]: "wf_map []"
  by (simp add: wf_map_def keys_def)

lemma wf_map_Cons [simp]: "wf_map ((k, v) # m) \<longleftrightarrow> k \<notin> set (keys m) \<and> wf_map m"
  by (auto simp: wf_map_def keys_def)

lemma wf_map_put [intro]: "wf_map m \<Longrightarrow> wf_map (map_put k v m)"
  by (induction k v m rule: map_put.induct) auto

lemma wf_map_delete [intro]: "wf_map m \<Longrightarrow> wf_map (map_delete k m)"
  unfolding map_delete_def wf_map_def keys_def by (induction m) auto

lemma in_set_map_of_iff: "wf_map m \<Longrightarrow> (k, v) \<in> set m \<longleftrightarrow> map_of m k = Some v"
  by (simp add: wf_map_def keys_def)

lemma set_map_put_iff:
  "wf_map m \<Longrightarrow> (k', v') \<in> set (map_put k v m) \<longleftrightarrow> (if k' = k then v' = v else (k', v') \<in> set m)"
  using in_set_map_of_iff [OF wf_map_put, of m k' v' k v] in_set_map_of_iff [of m k' v'] by auto

lemma map_put_update_same_keys: "k \<in> set (keys m) \<Longrightarrow> keys (map_put k v m) = keys m"
  by (induction k v m rule: map_put.induct) (auto simp: keys_def)

end
