(* ===== verification/Options.thy ===== *)
theory Options
  imports Prelude
begin

section \<open>Requests, errors and options\<close>

text \<open>
  The data that every component reads: the parts of \<open>http.Request\<close> the proxy looks at, the
  sentinel errors of the server package, and the option structs of \<open>service.go\<close> and
  \<open>target.go\<close> with their normalisation (\<open>NormalizeHosts\<close>, \<open>NormalizePathPrefixes\<close> of
  \<open>service_map.go\<close>). A request's cookies are given as \<open>net/http\<close> parses them from the Cookie
  header; header names are in canonical form.
\<close>

datatype go_error =
    ErrorServiceNotFound
  | ErrorTargetFailedToBecomeHealthy duration
  | ErrorHostInUse
  | ErrorNoServerName
  | ErrorUnknownServerName
  | ErrorRolloutTargetNotSet
  | ErrorUnableToLoadErrorPages
  | ErrorAutomaticTLSDoesNotSupportWildcards
  | ErrorUnableToLoadCertificate
  | ErrorInvalidHostPattern string
  | ErrorDraining
  | ErrorNoHealthyTargets
  | ErrMaximumSizeExceeded
  | ErrWriteAfterRead
  | ErrorText string

type_synonym 'a result = "go_error + 'a"

type_synonym Header = "string \<Rightarrow> string list"

text \<open>\<open>Header.Get\<close>: the first value, or the empty string.\<close>

definition Header_Get :: "Header \<Rightarrow> string \<Rightarrow> string" where
  "Header_Get h k = (case h k of [] \<Rightarrow> [] | v # _ \<Rightarrow> v)"

definition Header_Set :: "Header \<Rightarrow> string \<Rightarrow> string \<Rightarrow> Header" where
  "Header_Set h k v = h(k := [v])"

definition Header_Del :: "Header \<Rightarrow> string \<Rightarrow> Header" where
  "Header_Del h k = h(k := [])"

definition Header_Add :: "Header \<Rightarrow> string \<Rightarrow> string \<Rightarrow> Header" where
  "Header_Add h k v = h(k := h k @ [v])"

lemma Header_Get_Add [simp]:
  "Header_Get (Header_Add h k v) k' = (if k' = k \<and> h k = [] then v else Header_Get h k')"
  by (cases "h k'") (auto simp: Header_Get_def Header_Add_def split: list.splits)

lemma Header_Get_Set [simp]: "Header_Get (Header_Set h k v) k' = (if k' = k then v else Header_Get h k')"
  by (simp add: Header_Get_def Header_Set_def)

lemma Header_Get_Del [simp]: "Header_Get (Header_Del h k) k' = (if k' = k then [] else Header_Get h k')"
  by (simp add: Header_Get_def Header_Del_def)

record Request =
  rq_Method :: string
  rq_Host :: string
  rq_Path :: string
  rq_RawQuery :: string
  rq_RemoteAddr :: string
  rq_TLS :: bool
  rq_Header :: Header
  rq_Cookies :: "(string \<times> string) list"
  rq_MatchedPrefix :: "string option"
  rq_RequestURI :: string
  rq_ContentLength :: int
  rq_Proto :: string

text \<open>\<open>rq_RequestURI\<close> is the escaped path and query, \<open>r.URL.RequestURI()\<close>; \<open>rq_MatchedPrefix\<close> is the
  routing context that the router may put into the request's context.\<close>

definition Request_Cookie :: "Request \<Rightarrow> string \<Rightarrow> string option" where
  "Request_Cookie r n = map_of (rq_Cookies r) n"

text \<open>A plain GET request for a host and path, used by the examples.\<close>

definition get_request :: "string \<Rightarrow> string \<Rightarrow> Request" where
  "get_request host path = \<lparr>rq_Method = ''GET'', rq_Host = host, rq_Path = path, rq_RawQuery = [],
     rq_RemoteAddr = ''10.0.0.9:4242'', rq_TLS = False, rq_Header = (\<lambda>_. []), rq_Cookies = [],
     rq_MatchedPrefix = None, rq_RequestURI = path,
     rq_ContentLength = 0, rq_Proto = ''HTTP/1.1''\<rparr>"

definition rootPath :: string where
  "rootPath = ''/''"

record HealthCheckConfig =
  hc_Path :: string
  hc_Interval :: duration
  hc_Timeout :: duration

record TargetOptions =
  to_HealthCheckConfig :: HealthCheckConfig
  to_ResponseTimeout :: duration
  to_BufferRequests :: bool
  to_BufferResponses :: bool
  to_MaxMemoryBufferSize :: int
  to_MaxRequestBodySize :: int
  to_MaxResponseBodySize :: int
  to_LogRequestHeaders :: "string list"
  to_LogResponseHeaders :: "string list"
  to_ForwardHeaders :: bool

definition IsHealthCheckRequest :: "TargetOptions \<Rightarrow> Request \<Rightarrow> bool" where
  "IsHealthCheckRequest opts r \<longleftrightarrow>
     rq_Method r = ''GET'' \<and> rq_Path r = hc_Path (to_HealthCheckConfig opts)"

text \<open>\<open>http.CanonicalHeaderKey\<close>: the first letter and every letter after a hyphen in upper case,
  the rest in lower case; a name with a space or a byte that is not a header token is returned
  unchanged.\<close>

definition upper_byte :: "byte \<Rightarrow> byte" where
  "upper_byte c = (let n = of_char c :: nat in if 97 \<le> n \<and> n \<le> 122 then char_of (n - 32) else c)"

definition is_token_byte :: "byte \<Rightarrow> bool" where
  "is_token_byte c \<longleftrightarrow>
     (let n = of_char c :: nat in 48 \<le> n \<and> n \<le> 57 \<or> 65 \<le> n \<and> n \<le> 90 \<or> 97 \<le> n \<and> n \<le> 122)
     \<or> c \<in> set ''!#$%&*+-.^_`|~'' \<or> c = CHR 0x27"

fun canonical_from :: "bool \<Rightarrow> string \<Rightarrow> string" where
  "canonical_from upper [] = []"
| "canonical_from upper (c # s) =
     (let c' = (if upper then upper_byte c else lower_byte c) in c' # canonical_from (c' = CHR ''-'') s)"

definition CanonicalHeaderKey :: "string \<Rightarrow> string" where
  "CanonicalHeaderKey s = (if list_all is_token_byte s then canonical_from True s else s)"

definition canonicalizeLogHeaders :: "TargetOptions \<Rightarrow> TargetOptions" where
  "canonicalizeLogHeaders opts =
     opts\<lparr>to_LogRequestHeaders := map CanonicalHeaderKey (to_LogRequestHeaders opts),
          to_LogResponseHeaders := map CanonicalHeaderKey (to_LogResponseHeaders opts)\<rparr>"

record ServiceOptions =
  so_Hosts :: "string list"
  so_PathPrefixes :: "string list"
  so_TLSEnabled :: bool
  so_TLSCertificatePath :: string
  so_TLSPrivateKeyPath :: string
  so_TLSRedirect :: bool
  so_ACMEDirectory :: string
  so_ACMECachePath :: string
  so_ErrorPagePath :: string
  so_StripPrefix :: bool
  so_WriterAffinityTimeout :: duration
  so_ReadTargetsAcceptWebsockets :: bool

text \<open>The package's \<open>defaultServiceOptions\<close>; \<open>service_map.go\<close> takes its TLS settings from it.\<close>

definition defaultServiceOptions :: ServiceOptions where
  "defaultServiceOptions = \<lparr>so_Hosts = [], so_PathPrefixes = [], so_TLSEnabled = False,
     so_TLSCertificatePath = [], so_TLSPrivateKeyPath = [], so_TLSRedirect = True,
     so_ACMEDirectory = [], so_ACMECachePath = [], so_ErrorPagePath = [], so_StripPrefix = False,
     so_WriterAffinityTimeout = 0, so_ReadTargetsAcceptWebsockets = False\<rparr>"

definition NormalizeHosts :: "string list \<Rightarrow> string list" where
  "NormalizeHosts hosts = (if length hosts = 0 then [[]] else hosts)"

definition NormalizePathPrefixes :: "string list \<Rightarrow> string list" where
  "NormalizePathPrefixes pathPrefixes =
     (if length pathPrefixes = 0 then [rootPath]
      else map (\<lambda>pathPrefix. ''/'' @ Trim pathPrefix (CHR ''/'')) pathPrefixes)"

definition EnsureTrailingSlash :: "string \<Rightarrow> string" where
  "EnsureTrailingSlash path = (if \<not> HasSuffix path ''/'' then path @ ''/'' else path)"

definition Normalize :: "ServiceOptions \<Rightarrow> ServiceOptions" where
  "Normalize so = so\<lparr>so_Hosts := NormalizeHosts (so_Hosts so),
                     so_PathPrefixes := NormalizePathPrefixes (so_PathPrefixes so)\<rparr>"

text \<open>The form normalisation produces: a leading slash, and no trailing slash except on the root.\<close>

definition normal_prefix :: "string \<Rightarrow> bool" where
  "normal_prefix p \<longleftrightarrow> HasPrefix p ''/'' \<and> (p = rootPath \<or> \<not> HasSuffix p ''/'' \<and> \<not> HasPrefix p ''//'')"

definition normal_options :: "ServiceOptions \<Rightarrow> bool" where
  "normal_options so \<longleftrightarrow> so_Hosts so \<noteq> [] \<and> so_PathPrefixes so \<noteq> []
     \<and> list_all normal_prefix (so_PathPrefixes so)"

lemma HasSuffix_slash: "HasSuffix s ''/'' \<longleftrightarrow> s \<noteq> [] \<and> last s = CHR ''/''"
  by (cases s rule: rev_cases) (auto simp: HasSuffix_def)

lemma HasPrefix_slash: "HasPrefix s ''/'' \<longleftrightarrow> s \<noteq> [] \<and> hd s = CHR ''/''"
  by (cases s) (auto simp: HasPrefix_def)

lemma normal_prefix_root [simp]: "normal_prefix rootPath"
  by (simp add: normal_prefix_def rootPath_def HasPrefix_def)

lemma normal_prefix_length_1: "normal_prefix p \<Longrightarrow> length p = 1 \<longleftrightarrow> p = rootPath"
  by (cases p) (auto simp: normal_prefix_def rootPath_def HasPrefix_def)

lemma normal_prefix_slash_Trim: "normal_prefix (''/'' @ Trim p (CHR ''/''))"
proof (cases "Trim p (CHR ''/'') = []")
  case True
  then show ?thesis by (simp add: normal_prefix_def rootPath_def HasPrefix_def)
next
  case False
  with Trim_no_edges [OF False] show ?thesis
    by (cases "Trim p (CHR ''/'')") (auto simp: normal_prefix_def HasSuffix_slash HasPrefix_def)
qed

lemma Trim_normal_prefix:
  assumes "normal_prefix p"
  shows "''/'' @ Trim p (CHR ''/'') = p"
proof (cases "p = rootPath")
  case True
  then show ?thesis by (simp add: rootPath_def Trim_def)
next
  case False
  from assms obtain q where p: "p = CHR ''/'' # q" by (cases p) (auto simp: normal_prefix_def HasPrefix_def)
  from False p have ne: "q \<noteq> []" by (simp add: rootPath_def)
  with assms False p have "last q \<noteq> CHR ''/''" by (simp add: normal_prefix_def HasSuffix_slash)
  moreover from assms False p ne have "hd q \<noteq> CHR ''/''"
    by (cases q) (auto simp: normal_prefix_def HasPrefix_def)
  moreover note ne
  moreover from calculation have "rev q \<noteq> []" "hd (rev q) \<noteq> CHR ''/''" by (simp_all add: hd_rev)
  ultimately have "dropWhile (\<lambda>x. x = CHR ''/'') q = q" "dropWhile (\<lambda>x. x = CHR ''/'') (rev q) = rev q"
    by (metis dropWhile_eq_self_iff)+
  then show ?thesis by (simp add: Trim_def p)
qed

lemma Normalize_normal: "normal_options (Normalize so)"
  using normal_prefix_slash_Trim
  by (simp add: normal_options_def Normalize_def NormalizeHosts_def NormalizePathPrefixes_def list_all_iff)

lemma Normalize_id: "normal_options so \<Longrightarrow> Normalize so = so"
  by (cases so) (auto simp: normal_options_def Normalize_def NormalizeHosts_def NormalizePathPrefixes_def
      list_all_iff Trim_normal_prefix [simplified] intro!: map_idI)

lemma EnsureTrailingSlash_ends: "EnsureTrailingSlash s = s \<and> HasSuffix s ''/'' \<or> EnsureTrailingSlash s = s @ ''/''"
  by (auto simp: EnsureTrailingSlash_def)

lemma EnsureTrailingSlash_normal:
  "normal_prefix p \<Longrightarrow> EnsureTrailingSlash p = (if p = rootPath then rootPath else p @ ''/'')"
  by (auto simp: EnsureTrailingSlash_def normal_prefix_def rootPath_def HasSuffix_def)

lemma EnsureTrailingSlash_inj_len:
  assumes "normal_prefix p" "normal_prefix q" "length p = length q"
    and "prefix (EnsureTrailingSlash p) x" "prefix (EnsureTrailingSlash q) x"
  shows "p = q"
proof (cases "p = rootPath \<or> q = rootPath")
  case True
  have "length p = 1 \<longleftrightarrow> p = rootPath" "length q = 1 \<longleftrightarrow> q = rootPath"
    using assms normal_prefix_length_1 by blast+
  with True assms(3) show ?thesis by metis
next
  case False
  then have "prefix (p @ ''/'') x" "prefix (q @ ''/'') x"
    using assms by (simp_all add: EnsureTrailingSlash_normal)
  then have "prefix p x" "prefix q x" by (blast dest: append_prefixD)+
  with assms(3) show ?thesis
    by (metis prefix_def append_eq_append_conv)
qed

text \<open>Normalising service options is idempotent and always yields non-empty host and prefix
  lists whose prefixes start with a slash and, except for the root, end without one. So options
  normalised by the command line client are unchanged by the server and by a restore.\<close>

theorem normalize_idempotent:
  "normal_options (Normalize so) \<and> Normalize (Normalize so) = Normalize so"
  by (simp add: Normalize_normal Normalize_id)

end
