(* ===== verification/Targets.thy ===== *)
theory Targets
  imports Options
begin

section \<open>Targets, health checks and draining\<close>

text \<open>
  Models \<open>internal/server/target.go\<close> and \<open>internal/server/health_check.go\<close>: a target's state,
  its in-flight requests, what a health check reports, the rewriting of a proxied request, the
  mapping of proxy errors to responses, and \<open>Drain\<close>. In-flight requests are objects shared
  between the target's map and the copy a drain takes, so they live in a store addressed by the
  request; \<open>target_step\<close> interleaves drains with requests that start, hijack their connection and
  end, and with health checks, one lock-protected section per step.
\<close>

datatype TargetState = TargetStateAdding | TargetStateDraining | TargetStateHealthy | TargetStateUnhealthy

fun TargetState_String :: "TargetState \<Rightarrow> string" where
  "TargetState_String TargetStateAdding = ''adding''"
| "TargetState_String TargetStateDraining = ''draining''"
| "TargetState_String TargetStateHealthy = ''healthy''"
| "TargetState_String TargetStateUnhealthy = ''unhealthy''"

text \<open>The cancellation of a request's context: the first cause given wins; cause \<open>None\<close> is the
  \<open>cancel(nil)\<close> of a request that ended.\<close>

record inflightRequest =
  if_cancelled :: "go_error option option"
  if_hijacked :: bool

definition cancel :: "go_error option \<Rightarrow> inflightRequest \<Rightarrow> inflightRequest" where
  "cancel cause r = (case if_cancelled r of None \<Rightarrow> r\<lparr>if_cancelled := Some cause\<rparr> | Some _ \<Rightarrow> r)"

record Target =
  t_address :: string
  t_readonly :: bool
  t_options :: TargetOptions
  t_state :: TargetState
  t_inflight :: "nat set"
  t_healthcheck :: bool

subsection \<open>Creation\<close>

text \<open>\<open>hostRegex\<close>, \<^verbatim>\<open>^(\w[-_.\w+]+)(:\d+)?$\<close>, as a matcher: no byte of the host class is a colon,
  so the host part ends at the first colon.\<close>

definition is_digit_byte :: "byte \<Rightarrow> bool" where
  "is_digit_byte c \<longleftrightarrow> (let n = of_char c :: nat in 48 \<le> n \<and> n \<le> 57)"

definition is_word_byte :: "byte \<Rightarrow> bool" where
  "is_word_byte c \<longleftrightarrow> (let n = of_char c :: nat in
     48 \<le> n \<and> n \<le> 57 \<or> 65 \<le> n \<and> n \<le> 90 \<or> 97 \<le> n \<and> n \<le> 122 \<or> n = 95)"

definition hostRegex :: "string \<Rightarrow> bool" where
  "hostRegex s =
     (let h = takeWhile (\<lambda>c. c \<noteq> CHR '':'') s; p = dropWhile (\<lambda>c. c \<noteq> CHR '':'') s
      in (case h of [] \<Rightarrow> False
                  | c # cs \<Rightarrow> is_word_byte c \<and> cs \<noteq> [] \<and> list_all (\<lambda>x. is_word_byte x \<or> x \<in> set ''-_.+'') cs)
         \<and> (case p of [] \<Rightarrow> True
                    | _ # ds \<Rightarrow> ds \<noteq> [] \<and> list_all is_digit_byte ds))"

text \<open>For such a string \<open>url.Parse\<close> of \<^verbatim>\<open>"http://" + s\<close> has host \<open>s\<close> and an empty path.\<close>

definition parseTargetURL :: "string \<Rightarrow> string result" where
  "parseTargetURL targetURL =
     (if \<not> hostRegex targetURL then Inl (ErrorInvalidHostPattern targetURL) else Inr targetURL)"

definition NewTarget :: "string \<Rightarrow> TargetOptions \<Rightarrow> Target result" where
  "NewTarget targetURL options =
     (case parseTargetURL targetURL of
        Inl err \<Rightarrow> Inl err
      | Inr uri \<Rightarrow> Inr \<lparr>t_address = uri, t_readonly = False, t_options = canonicalizeLogHeaders options,
          t_state = TargetStateAdding, t_inflight = {}, t_healthcheck = False\<rparr>)"

definition NewReadOnlyTarget :: "string \<Rightarrow> TargetOptions \<Rightarrow> Target result" where
  "NewReadOnlyTarget targetURL options =
     (case NewTarget targetURL options of
        Inl err \<Rightarrow> Inl err
      | Inr target \<Rightarrow> Inr (target\<lparr>t_readonly := True\<rparr>))"

subsection \<open>Requests on a target\<close>

type_synonym ReqStore = "nat \<Rightarrow> inflightRequest option"

definition Target_StartRequest :: "nat \<Rightarrow> Target \<times> ReqStore \<Rightarrow> (Target \<times> ReqStore) result" where
  "Target_StartRequest req = (\<lambda>(t, st).
     if t_state t = TargetStateDraining then Inl ErrorDraining
     else Inr (t\<lparr>t_inflight := insert req (t_inflight t)\<rparr>,
               st(req \<mapsto> \<lparr>if_cancelled = None, if_hijacked = False\<rparr>)))"

definition endInflightRequest :: "nat \<Rightarrow> Target \<times> ReqStore \<Rightarrow> Target \<times> ReqStore" where
  "endInflightRequest req = (\<lambda>(t, st).
     if req \<in> t_inflight t
     then (t\<lparr>t_inflight := t_inflight t - {req}\<rparr>, st(req := map_option (cancel None) (st req)))
     else (t, st))"

text \<open>\<open>targetResponseWriter.Hijack\<close> marks the in-flight request before it hands the connection out.\<close>

definition Target_Hijack :: "nat \<Rightarrow> ReqStore \<Rightarrow> ReqStore" where
  "Target_Hijack req st = st(req := map_option (\<lambda>r. r\<lparr>if_hijacked := True\<rparr>) (st req))"

definition updateState :: "TargetState \<Rightarrow> Target \<Rightarrow> TargetState \<times> Target" where
  "updateState state t = (t_state t, t\<lparr>t_state := state\<rparr>)"

definition pendingRequestsToCancel :: "Target \<Rightarrow> nat set" where
  "pendingRequestsToCancel t = t_inflight t"

definition BeginHealthChecks :: "Target \<Rightarrow> Target" where
  "BeginHealthChecks t = t\<lparr>t_healthcheck := True\<rparr>"

definition StopHealthChecks :: "Target \<Rightarrow> Target" where
  "StopHealthChecks t = t\<lparr>t_healthcheck := False\<rparr>"

text \<open>The new state, and whether the state consumer is told.\<close>

definition HealthCheckCompleted :: "bool \<Rightarrow> Target \<Rightarrow> Target \<times> bool" where
  "HealthCheckCompleted success t =
     (let previousState = t_state t;
          newState = (case success of
              True \<Rightarrow> (case t_state t of TargetStateAdding \<Rightarrow> TargetStateHealthy | _ \<Rightarrow> TargetStateHealthy)
            | False \<Rightarrow> (case t_state t of TargetStateHealthy \<Rightarrow> TargetStateUnhealthy | s \<Rightarrow> s))
      in (t\<lparr>t_state := newState\<rparr>, newState \<noteq> previousState))"

subsection \<open>One health check\<close>

text \<open>What \<open>http.DefaultClient.Do\<close> gives: a status, a cancelled context (the check was closed), a
  deadline, or another error. A request that cannot be built never reaches the client.\<close>

datatype CheckResponse = CheckStatus int | CheckCanceled | CheckDeadlineExceeded | CheckError string | CheckBadRequest string

definition ErrorHealthCheckRequestTimedOut :: go_error where
  "ErrorHealthCheckRequestTimedOut = ErrorText ''request timed out''"

definition ErrorHealthCheckUnexpectedStatus :: go_error where
  "ErrorHealthCheckUnexpectedStatus = ErrorText ''unexpected status''"

text \<open>The report a check makes, \<open>None\<close> when it makes none.\<close>

fun HealthCheck_check :: "CheckResponse \<Rightarrow> (bool \<times> go_error option) option" where
  "HealthCheck_check (CheckBadRequest err) = Some (False, Some (ErrorText err))"
| "HealthCheck_check CheckCanceled = None"
| "HealthCheck_check CheckDeadlineExceeded = Some (False, Some ErrorHealthCheckRequestTimedOut)"
| "HealthCheck_check (CheckError err) = Some (False, Some (ErrorText err))"
| "HealthCheck_check (CheckStatus code) =
     (if code < 200 \<or> code > 299 then Some (False, Some ErrorHealthCheckUnexpectedStatus)
      else Some (True, None))"

subsection \<open>Examples\<close>

definition example_options :: TargetOptions where
  "example_options = \<lparr>to_HealthCheckConfig = \<lparr>hc_Path = ''/up'', hc_Interval = 1, hc_Timeout = 5\<rparr>,
     to_ResponseTimeout = 30, to_BufferRequests = False, to_BufferResponses = False,
     to_MaxMemoryBufferSize = 0, to_MaxRequestBodySize = 0, to_MaxResponseBodySize = 0,
     to_LogRequestHeaders = [], to_LogResponseHeaders = [], to_ForwardHeaders = False\<rparr>"

definition example_target :: Target where
  "example_target = \<lparr>t_address = ''web-1:3000'', t_readonly = False, t_options = example_options,
     t_state = TargetStateHealthy, t_inflight = {}, t_healthcheck = True\<rparr>"

end
