(* ===== verification/Strconv.thy ===== *)
theory Strconv
  imports Prelude
begin

section \<open>Numbers as strings\<close>

text \<open>
  \<open>strconv.ParseInt\<close> and \<open>strconv.FormatInt\<close> of the Go standard library, which the writer cookie, the
  session ids, the error pages and the command line use, and that they are inverse to each other; and
  \<open>strings.Split\<close> with a separator of one byte.
\<close>

text \<open>\<open>strconv.ParseInt(s, 10, 64)\<close> and \<open>strconv.FormatInt\<close>.\<close>

definition digit_value :: "byte \<Rightarrow> int option" where
  "digit_value c = (let n = of_char c :: nat in if 48 \<le> n \<and> n \<le> 57 then Some (int n - 48) else None)"

fun parse_digits :: "int \<Rightarrow> string \<Rightarrow> int option" where
  "parse_digits acc [] = Some acc"
| "parse_digits acc (c # s) =
     (case digit_value c of None \<Rightarrow> None | Some d \<Rightarrow> parse_digits (10 * acc + d) s)"

definition ParseInt :: "string \<Rightarrow> int option" where
  "ParseInt s =
     (let neg = HasPrefix s ''-'';
          digits = (if HasPrefix s ''-'' \<or> HasPrefix s ''+'' then drop 1 s else s)
      in if digits = [] then None
         else (case parse_digits 0 digits of
                 None \<Rightarrow> None
               | Some n \<Rightarrow> (let v = (if neg then - n else n)
                            in if - (2 ^ 63) \<le> v \<and> v < 2 ^ 63 then Some v else None)))"

fun format_nat :: "nat \<Rightarrow> string" where
  "format_nat n =
     (if n < 10 then [char_of (48 + n)] else format_nat (n div 10) @ [char_of (48 + n mod 10)])"

declare format_nat.simps [simp del]

definition FormatInt :: "int \<Rightarrow> string" where
  "FormatInt i = (if i < 0 then ''-'' @ format_nat (nat (- i)) else format_nat (nat i))"

lemma digit_value_char: "d < 10 \<Longrightarrow> digit_value (char_of (48 + d :: nat)) = Some (int d)"
  by (simp add: digit_value_def)

lemma parse_digits_append:
  "parse_digits acc (s @ t) = (case parse_digits acc s of None \<Rightarrow> None | Some a \<Rightarrow> parse_digits a t)"
  by (induction s arbitrary: acc) (auto split: option.splits)

lemma parse_format_nat: "parse_digits 0 (format_nat n) = Some (int n)"
proof (induction n rule: format_nat.induct)
  case (1 n)
  show ?case
  proof (cases "n < 10")
    case True
    then show ?thesis by (simp add: format_nat.simps [of n] digit_value_char)
  next
    case False
    then have "parse_digits 0 (format_nat (n div 10)) = Some (int (n div 10))" by (rule 1)
    with False show ?thesis
      by (simp add: format_nat.simps [of n] parse_digits_append digit_value_char
          flip: of_nat_mod of_nat_div) presburger
  qed
qed

lemma format_nat_ne [simp]: "format_nat n \<noteq> []"
  by (subst format_nat.simps) simp

lemma hd_format_nat: "of_char (hd (format_nat n)) \<in> {48 .. 57 :: nat}"
proof (induction n rule: format_nat.induct)
  case (1 n)
  then show ?case by (subst format_nat.simps) auto
qed

lemma format_nat_unsigned: "\<not> HasPrefix (format_nat n) ''-''" "\<not> HasPrefix (format_nat n) ''+''"
  using hd_format_nat [of n] by (cases "format_nat n"; auto simp: HasPrefix_def)+

lemma ParseInt_FormatInt:
  assumes "- (2 ^ 63) \<le> i" "i < 2 ^ 63"
  shows "ParseInt (FormatInt i) = Some i"
  using assms by (auto simp: ParseInt_def FormatInt_def parse_format_nat format_nat_unsigned Let_def)
     (auto simp: HasPrefix_def parse_format_nat)

lemma format_nat_digits: "c \<in> set (format_nat n) \<Longrightarrow> of_char c \<in> {48 .. 57 :: nat}"
proof (induction n rule: format_nat.induct)
  case (1 n)
  from 1(2) show ?case by (subst (asm) format_nat.simps) (auto split: if_splits dest: 1(1))
qed

lemma minus_not_in_FormatInt: "0 \<le> i \<Longrightarrow> CHR ''-'' \<notin> set (FormatInt i)"
  using format_nat_digits [of "CHR ''-''" "nat i"] by (auto simp: FormatInt_def)

subsection \<open>Splitting\<close>

fun SplitByte :: "byte \<Rightarrow> string \<Rightarrow> string list" where
  "SplitByte c [] = [[]]"
| "SplitByte c (x # s) =
     (if x = c then [] # SplitByte c s
      else (case SplitByte c s of [] \<Rightarrow> [[x]] | p # ps \<Rightarrow> (x # p) # ps))"

lemma SplitByte_ne [simp]: "SplitByte c s \<noteq> []"
  by (cases s) (auto split: list.split)

lemma Join_SplitByte: "Join (SplitByte c s) [c] = s"
proof (induction s)
  case (Cons x s)
  then show ?case by (cases "SplitByte c s"; cases "tl (SplitByte c s)") auto
qed simp

lemma SplitByte_parts: "p \<in> set (SplitByte c s) \<Longrightarrow> c \<notin> set p"
  by (induction s arbitrary: p) (auto split: if_splits list.splits)

lemma SplitByte_free: "c \<notin> set p \<Longrightarrow> SplitByte c p = [p]"
  by (induction p) auto

lemma SplitByte_append: "c \<notin> set p \<Longrightarrow> SplitByte c (p @ c # s) = p # SplitByte c s"
  by (induction p) auto

lemma SplitByte_Join: "ps \<noteq> [] \<Longrightarrow> (\<And>p. p \<in> set ps \<Longrightarrow> c \<notin> set p) \<Longrightarrow> SplitByte c (Join ps [c]) = ps"
proof (induction ps "[c]" rule: Join.induct)
  case (3 x y ys)
  then show ?case by (simp add: SplitByte_append)
qed (simp_all add: SplitByte_free)

text \<open>Splitting is the inverse of joining parts that do not contain the separator.\<close>

lemma SplitByte_iff: "SplitByte c s = ps \<longleftrightarrow> ps \<noteq> [] \<and> (\<forall>p \<in> set ps. c \<notin> set p) \<and> s = Join ps [c]"
  using Join_SplitByte [of c s] SplitByte_parts [of _ c s] SplitByte_Join [of ps c] by auto

end
