(* ===== verification/LoadBalancing.thy ===== *)
theory LoadBalancing
  imports Targets Strconv "HOL-Library.Multiset"
begin

section \<open>The load balancer\<close>

text \<open>
  Models \<open>internal/server/load_balancer.go\<close>: the target list of a deployment, the pools of
  healthy writers and readers with their round-robin positions, the choice of a target for a
  request, and the writer-affinity cookie. The code's pools hold pointers into the list \<open>all\<close>; the
  model's pools hold positions in it, so that a change of a target is seen through both.
\<close>

subsection \<open>Target lists\<close>

type_synonym TargetList = "Target list"

fun collect_targets :: "(string \<Rightarrow> Target result) \<Rightarrow> string list \<Rightarrow> TargetList result" where
  "collect_targets new [] = Inr []"
| "collect_targets new (name # names) =
     (case new name of
        Inl err \<Rightarrow> Inl err
      | Inr target \<Rightarrow> (case collect_targets new names of Inl err \<Rightarrow> Inl err | Inr ts \<Rightarrow> Inr (target # ts)))"

definition NewTargetList :: "string list \<Rightarrow> string list \<Rightarrow> TargetOptions \<Rightarrow> TargetList result" where
  "NewTargetList targetURLs readerURLs options =
     (case collect_targets (\<lambda>name. NewTarget name options) targetURLs of
        Inl err \<Rightarrow> Inl err
      | Inr ts \<Rightarrow>
          (case collect_targets (\<lambda>name. NewReadOnlyTarget name options) readerURLs of
             Inl err \<Rightarrow> Inl err
           | Inr rs \<Rightarrow> Inr (ts @ rs)))"

definition TargetList_Names :: "TargetList \<Rightarrow> string list" where
  "TargetList_Names ts = map t_address ts"

definition HasReaders :: "TargetList \<Rightarrow> bool" where
  "HasReaders ts = list_ex t_readonly ts"

definition TargetList_BeginHealthChecks :: "TargetList \<Rightarrow> TargetList" where
  "TargetList_BeginHealthChecks ts = map BeginHealthChecks ts"

definition TargetList_StopHealthChecks :: "TargetList \<Rightarrow> TargetList" where
  "TargetList_StopHealthChecks ts = map StopHealthChecks ts"

definition targetsMatchingReadonly :: "bool \<Rightarrow> TargetList \<Rightarrow> TargetList" where
  "targetsMatchingReadonly readonly ts = filter (\<lambda>t. t_readonly t = readonly) ts"

subsection \<open>The balancer\<close>

record LoadBalancer =
  lb_all :: TargetList
  lb_writers :: "nat list"
  lb_readers :: "nat list"
  lb_writerAffinityTimeout :: duration
  lb_readTargetsAcceptWebsockets :: bool
  lb_writerIndex :: nat
  lb_readerIndex :: nat
  lb_multiTarget :: bool
  lb_hasReaders :: bool
  lb_healthy :: bool

text \<open>\<open>lb_healthy\<close> says that \<open>markHealthy\<close> was called, which cancels \<open>waitForHealthyContext\<close> for good.\<close>

definition NewLoadBalancer :: "TargetList \<Rightarrow> duration \<Rightarrow> bool \<Rightarrow> LoadBalancer" where
  "NewLoadBalancer targets writerAffinityTimeout readTargetsAcceptWebsockets =
     \<lparr>lb_all = TargetList_BeginHealthChecks targets, lb_writers = [], lb_readers = [],
      lb_writerAffinityTimeout = writerAffinityTimeout,
      lb_readTargetsAcceptWebsockets = readTargetsAcceptWebsockets,
      lb_writerIndex = 0, lb_readerIndex = 0,
      lb_multiTarget = (length targets > 1), lb_hasReaders = HasReaders targets, lb_healthy = False\<rparr>"

definition WriteTargets :: "LoadBalancer \<Rightarrow> TargetList" where
  "WriteTargets lb = targetsMatchingReadonly False (lb_all lb)"

definition ReadTargets :: "LoadBalancer \<Rightarrow> TargetList" where
  "ReadTargets lb = targetsMatchingReadonly True (lb_all lb)"

text \<open>\<open>WaitUntilHealthy\<close>: given whether the context was cancelled before the timeout passed.\<close>

definition WaitUntilHealthy :: "duration \<Rightarrow> bool \<Rightarrow> unit result" where
  "WaitUntilHealthy timeout becameHealthy =
     (if becameHealthy then Inr () else Inl (ErrorTargetFailedToBecomeHealthy timeout))"

definition healthy_positions :: "bool \<Rightarrow> TargetList \<Rightarrow> nat list" where
  "healthy_positions readonly all =
     filter (\<lambda>i. t_state (all ! i) = TargetStateHealthy \<and> t_readonly (all ! i) = readonly) [0..<length all]"

definition updateHealthyTargets :: "LoadBalancer \<Rightarrow> LoadBalancer" where
  "updateHealthyTargets lb =
     (let writers = healthy_positions False (lb_all lb);
          readers = healthy_positions True (lb_all lb);
          healthyCount = length (filter (\<lambda>t. t_state t = TargetStateHealthy) (lb_all lb));
          lb1 = lb\<lparr>lb_writers := writers, lb_readers := readers\<rparr>;
          lb2 = (if \<not> lb_multiTarget lb1 \<and> length writers = 1
                 then lb1\<lparr>lb_all := TargetList_StopHealthChecks (lb_all lb1)\<rparr> else lb1)
      in if healthyCount = length (lb_all lb2) then lb2\<lparr>lb_healthy := True\<rparr> else lb2)"

definition TargetStateChanged :: "LoadBalancer \<Rightarrow> LoadBalancer" where
  "TargetStateChanged lb = updateHealthyTargets lb"

definition MarkAllHealthy :: "LoadBalancer \<Rightarrow> LoadBalancer" where
  "MarkAllHealthy lb =
     updateHealthyTargets (lb\<lparr>lb_all := map (\<lambda>t. snd (updateState TargetStateHealthy t)) (lb_all lb)\<rparr>)"

definition Dispose :: "LoadBalancer \<Rightarrow> LoadBalancer" where
  "Dispose lb = lb\<lparr>lb_all := TargetList_StopHealthChecks (lb_all lb)\<rparr>"

subsection \<open>Choosing a target\<close>

definition isWebSocketRequest :: "Request \<Rightarrow> bool" where
  "isWebSocketRequest req \<longleftrightarrow> rq_Method req = ''GET''
     \<and> EqualFold (Header_Get (rq_Header req) ''Upgrade'') ''websocket''
     \<and> Contains (ToLower (Header_Get (rq_Header req) ''Connection'')) ''upgrade''"

definition isReadRequest :: "LoadBalancer \<Rightarrow> Request \<Rightarrow> bool" where
  "isReadRequest lb req \<longleftrightarrow> (rq_Method req = ''GET'' \<or> rq_Method req = ''HEAD'')
     \<and> (lb_readTargetsAcceptWebsockets lb \<or> \<not> isWebSocketRequest req)"

definition LoadBalancerWriteCookieName :: string where
  "LoadBalancerWriteCookieName = ''kamal-writer''"

definition UnixMilli :: "instant \<Rightarrow> int" where
  "UnixMilli t = t div 1000000"

definition hasWriteCookie :: "instant \<Rightarrow> Request \<Rightarrow> bool" where
  "hasWriteCookie now r =
     (case Request_Cookie r LoadBalancerWriteCookieName of
        None \<Rightarrow> False
      | Some value \<Rightarrow> (case ParseInt value of None \<Rightarrow> False | Some expires \<Rightarrow> UnixMilli now < expires))"

definition nextTarget :: "bool \<Rightarrow> LoadBalancer \<Rightarrow> nat option \<times> LoadBalancer" where
  "nextTarget reader lb =
     (if reader \<and> length (lb_readers lb) > 0 then
        (let k = (lb_readerIndex lb + 1) mod length (lb_readers lb)
         in (Some (lb_readers lb ! k), lb\<lparr>lb_readerIndex := k\<rparr>))
      else if length (lb_writers lb) > 0 then
        (let k = (lb_writerIndex lb + 1) mod length (lb_writers lb)
         in (Some (lb_writers lb ! k), lb\<lparr>lb_writerIndex := k\<rparr>))
      else (None, lb))"

definition claimTarget ::
  "instant \<Rightarrow> nat \<Rightarrow> Request \<Rightarrow> LoadBalancer \<times> ReqStore \<Rightarrow> (nat \<times> bool) result \<times> LoadBalancer \<times> ReqStore" where
  "claimTarget now rid req = (\<lambda>(lb, st).
     let readRequest = isReadRequest lb req;
         treatAsReadRequest = readRequest \<and> \<not> hasWriteCookie now req
     in case nextTarget treatAsReadRequest lb of
          (None, lb1) \<Rightarrow> (Inl ErrorNoHealthyTargets, lb1, st)
        | (Some i, lb1) \<Rightarrow>
            (case Target_StartRequest rid (lb_all lb1 ! i, st) of
               Inl err \<Rightarrow> (Inl err, lb1, st)
             | Inr (t, st') \<Rightarrow> (Inr (i, readRequest), lb1\<lparr>lb_all := (lb_all lb1)[i := t]\<rparr>, st')))"

definition LoadBalancerTargetHeader :: string where
  "LoadBalancerTargetHeader = ''X-Kamal-Target''"

definition setTargetHeader :: "Request \<Rightarrow> Target \<Rightarrow> Request" where
  "setTargetHeader req target =
     (let prior = rq_Header req LoadBalancerTargetHeader;
          address = (if to_ForwardHeaders (t_options target) \<and> length prior > 0
                     then Join prior '', '' @ '', '' @ t_address target else t_address target)
      in req\<lparr>rq_Header := Header_Set (rq_Header req) LoadBalancerTargetHeader address\<rparr>)"

text \<open>What \<open>StartRequest\<close> decides: an error response and no continuation, or the target, the request
  to send it and the affinity timeout of the response writer, if it is wrapped.\<close>

datatype StartDecision = StartFailed int | StartProxy nat Request "duration option"

definition LoadBalancer_StartRequest ::
  "instant \<Rightarrow> nat \<Rightarrow> Request \<Rightarrow> LoadBalancer \<times> ReqStore \<Rightarrow> StartDecision \<times> LoadBalancer \<times> ReqStore" where
  "LoadBalancer_StartRequest now rid r s =
     (case claimTarget now rid r s of
        (Inl err, s') \<Rightarrow> (StartFailed 503, s')
      | (Inr (i, readRequest), lb, st) \<Rightarrow>
          (StartProxy i (setTargetHeader r (lb_all lb ! i))
             (if lb_writerAffinityTimeout lb > 0 \<and> lb_hasReaders lb \<and> \<not> readRequest
              then Some (lb_writerAffinityTimeout lb) else None), lb, st))"

subsection \<open>The writer-affinity cookie\<close>

record Cookie =
  ck_Name :: string
  ck_Value :: string
  ck_Path :: string
  ck_HttpOnly :: bool
  ck_Expires :: instant

text \<open>What a client sees of a response: the headers and cookies as they stand when the status line is
  sent, the status lines sent, and the body.\<close>

record ResponseWriter =
  rw_Header :: Header
  rw_SetCookies :: "Cookie list"
  rw_status :: "int list"
  rw_body :: "byte list"
  rw_flushed :: nat

record loadBalancerResponseWriter =
  lw_inner :: ResponseWriter
  lw_headerWritten :: bool
  lw_writerAffinityTimeout :: duration

definition newLoadBalancerReponseWriter :: "ResponseWriter \<Rightarrow> duration \<Rightarrow> loadBalancerResponseWriter" where
  "newLoadBalancerReponseWriter w timeout =
     \<lparr>lw_inner = w, lw_headerWritten = False, lw_writerAffinityTimeout = timeout\<rparr>"

definition setWriterAffinityCookie :: "instant \<Rightarrow> duration \<Rightarrow> ResponseWriter \<Rightarrow> ResponseWriter" where
  "setWriterAffinityCookie now timeout w =
     (let w1 = (if Header_Get (rw_Header w) ''X-Writer-Affinity'' \<noteq> ''false'' then
                  (let expires = now + timeout
                   in w\<lparr>rw_SetCookies := rw_SetCookies w @
                        [\<lparr>ck_Name = LoadBalancerWriteCookieName, ck_Value = FormatInt (UnixMilli expires),
                          ck_Path = ''/'', ck_HttpOnly = True, ck_Expires = expires + 1000000000\<rparr>]\<rparr>)
                else w)
      in w1\<lparr>rw_Header := Header_Del (rw_Header w1) ''X-Writer-Affinity''\<rparr>)"

definition lbWriteHeader :: "instant \<Rightarrow> int \<Rightarrow> loadBalancerResponseWriter \<Rightarrow> loadBalancerResponseWriter" where
  "lbWriteHeader now statusCode w =
     (let inner = setWriterAffinityCookie now (lw_writerAffinityTimeout w) (lw_inner w)
      in w\<lparr>lw_inner := inner\<lparr>rw_status := rw_status inner @ [statusCode]\<rparr>, lw_headerWritten := True\<rparr>)"

definition lbWrite :: "instant \<Rightarrow> byte list \<Rightarrow> loadBalancerResponseWriter \<Rightarrow> loadBalancerResponseWriter" where
  "lbWrite now b w =
     (let w1 = (if \<not> lw_headerWritten w then lbWriteHeader now 200 w else w)
      in w1\<lparr>lw_inner := (lw_inner w1)\<lparr>rw_body := rw_body (lw_inner w1) @ b\<rparr>\<rparr>)"

text \<open>\<open>Flush\<close> of the server's own writer sends the status and what there is of the body; \<open>rw_flushed\<close> says how much of
  the body the client has for sure. The load balancer's writer passes it on.\<close>

definition rw_Flush :: "ResponseWriter \<Rightarrow> ResponseWriter" where
  "rw_Flush w = w\<lparr>rw_status := (if rw_status w = [] then [200] else rw_status w), rw_flushed := length (rw_body w)\<rparr>"

definition lbFlush :: "loadBalancerResponseWriter \<Rightarrow> loadBalancerResponseWriter" where
  "lbFlush w = w\<lparr>lw_inner := rw_Flush (lw_inner w)\<rparr>"

subsection \<open>Round robin\<close>

primrec picks :: "('s \<Rightarrow> 'a \<times> 's) \<Rightarrow> nat \<Rightarrow> 's \<Rightarrow> 'a list" where
  "picks pick 0 s = []"
| "picks pick (Suc n) s = fst (pick s) # picks pick n (snd (pick s))"

lemma mset_rotate: "mset (rotate n xs) = mset xs"
  unfolding rotate_drop_take mset_append by (metis add.commute append_take_drop_id mset_append)

text \<open>The contract of a rotating choice: from a non-empty pool it takes the entry after the position
  it last used and remembers that position, and the pool stays.\<close>

locale rotation =
  fixes pool :: "'s \<Rightarrow> 'a list" and pos :: "'s \<Rightarrow> nat" and pick :: "'s \<Rightarrow> 'a option \<times> 's"
  assumes pick_some: "pool s \<noteq> [] \<Longrightarrow> fst (pick s) = Some (pool s ! (Suc (pos s) mod length (pool s)))"
    and pick_pos: "pool s \<noteq> [] \<Longrightarrow> pos (snd (pick s)) = Suc (pos s) mod length (pool s)"
    and pick_pool: "pool (snd (pick s)) = pool s"
begin

lemma picks_nth:
  "pool s \<noteq> [] \<Longrightarrow> picks pick n s = map (\<lambda>k. Some (pool s ! ((pos s + 1 + k) mod length (pool s)))) [0..<n]"
proof (induction n arbitrary: s)
  case 0
  then show ?case by simp
next
  case (Suc n)
  let ?l = "length (pool s)"
  have "picks pick n (snd (pick s)) =
      map (\<lambda>k. Some (pool s ! ((Suc (pos s) mod ?l + 1 + k) mod ?l))) [0..<n]"
    using Suc.IH [of "snd (pick s)"] Suc.prems by (simp add: pick_pool pick_pos)
  also have "\<dots> = map (\<lambda>k. Some (pool s ! ((pos s + 1 + k) mod ?l))) (map Suc [0..<n])"
    unfolding map_map comp_def by (intro map_cong refl arg_cong [where f = "\<lambda>k. Some (pool s ! k)"]) (metis add.assoc add_Suc_right mod_add_left_eq plus_1_eq_Suc Suc_eq_plus1)
  also have "map Suc [0..<n] = [1..<Suc n]" by (simp add: map_Suc_upt)
  finally show ?case using Suc.prems by (simp add: pick_some upt_conv_Cons del: upt_Suc)
qed

lemma picks_each_once:
  assumes "pool s \<noteq> []"
  shows "mset (picks pick (length (pool s)) s) = mset (map Some (pool s))"
proof -
  have "picks pick (length (pool s)) s = map Some (rotate (pos s + 1) (pool s))"
    unfolding picks_nth [OF assms] by (rule nth_equalityI) (simp_all add: nth_rotate del: rotate_Suc)
  then show ?thesis by (simp only: mset_map mset_rotate)
qed

end

interpretation writing: rotation lb_writers lb_writerIndex "nextTarget False"
  by unfold_locales (auto simp: nextTarget_def Let_def)

text \<open>The reader's choice rotates over the readers while there are any, and over the writers otherwise.\<close>

interpretation reading: rotation "\<lambda>lb. if lb_readers lb = [] then lb_writers lb else lb_readers lb"
  "\<lambda>lb. if lb_readers lb = [] then lb_writerIndex lb else lb_readerIndex lb" "nextTarget True"
  by unfold_locales (auto simp: nextTarget_def Let_def)

text \<open>C19: round robin is fair: over as many consecutive choices as the pool has targets, each healthy
  writer is chosen exactly once, and so is each healthy reader for reads; without a healthy reader
  the reads rotate over the writers.\<close>

theorem round_robin_fair:
  "(lb_writers lb \<noteq> [] \<longrightarrow>
      mset (picks (nextTarget False) (length (lb_writers lb)) lb) = mset (map Some (lb_writers lb)))
   \<and> (lb_readers lb \<noteq> [] \<longrightarrow>
      mset (picks (nextTarget True) (length (lb_readers lb)) lb) = mset (map Some (lb_readers lb)))
   \<and> (lb_readers lb = [] \<and> lb_writers lb \<noteq> [] \<longrightarrow>
      mset (picks (nextTarget True) (length (lb_writers lb)) lb) = mset (map Some (lb_writers lb)))"
  using writing.picks_each_once [of lb] reading.picks_each_once [of lb] by auto

subsection \<open>The pools\<close>

lemma set_healthy_positions:
  "i \<in> set (healthy_positions ro ts) \<longleftrightarrow>
     i < length ts \<and> t_state (ts ! i) = TargetStateHealthy \<and> t_readonly (ts ! i) = ro"
  by (auto simp: healthy_positions_def)

lemma distinct_healthy_positions [simp]: "distinct (healthy_positions ro ts)"
  by (simp add: healthy_positions_def)

lemma filter_length_all: "length (filter P xs) = length xs \<longleftrightarrow> (\<forall>x \<in> set xs. P x)"
  by (metis filter_id_conv length_filter_less less_irrefl)

lemma stop_length [simp]: "length (TargetList_StopHealthChecks ts) = length ts"
  by (simp add: TargetList_StopHealthChecks_def)

lemma stop_nth:
  "i < length ts \<Longrightarrow> TargetList_StopHealthChecks ts ! i = (ts ! i)\<lparr>t_healthcheck := False\<rparr>"
  by (simp add: TargetList_StopHealthChecks_def StopHealthChecks_def)

lemma update_fields:
  "lb_writers (updateHealthyTargets lb) = healthy_positions False (lb_all lb)"
  "lb_readers (updateHealthyTargets lb) = healthy_positions True (lb_all lb)"
  "lb_healthy (updateHealthyTargets lb) \<longleftrightarrow>
     lb_healthy lb \<or> (\<forall>t \<in> set (lb_all lb). t_state t = TargetStateHealthy)"
  "lb_all (updateHealthyTargets lb) =
     (if \<not> lb_multiTarget lb \<and> length (healthy_positions False (lb_all lb)) = 1
      then TargetList_StopHealthChecks (lb_all lb) else lb_all lb)"
  "lb_multiTarget (updateHealthyTargets lb) = lb_multiTarget lb"
  "lb_hasReaders (updateHealthyTargets lb) = lb_hasReaders lb"
  by (auto simp: updateHealthyTargets_def Let_def filter_length_all)

text \<open>A refresh puts into the pools exactly the targets that are healthy at that moment, the
  writable ones into the writers and the read-only ones into the readers, each once; the waiters
  for health are released at the first refresh that finds every target healthy and at no other;
  the health checks go on unless the only target has just been found healthy.\<close>

theorem refresh_pools:
  "set (lb_writers (updateHealthyTargets lb)) =
     {i. i < length (lb_all lb) \<and> t_state (lb_all lb ! i) = TargetStateHealthy \<and> \<not> t_readonly (lb_all lb ! i)}
   \<and> set (lb_readers (updateHealthyTargets lb)) =
     {i. i < length (lb_all lb) \<and> t_state (lb_all lb ! i) = TargetStateHealthy \<and> t_readonly (lb_all lb ! i)}
   \<and> distinct (lb_writers (updateHealthyTargets lb) @ lb_readers (updateHealthyTargets lb))
   \<and> (lb_healthy (updateHealthyTargets lb) \<longleftrightarrow>
        lb_healthy lb \<or> (\<forall>t \<in> set (lb_all lb). t_state t = TargetStateHealthy))
   \<and> (lb_all (updateHealthyTargets lb) = lb_all lb \<or>
        \<not> lb_multiTarget lb \<and> length (lb_writers (updateHealthyTargets lb)) = 1)"
  by (auto simp: update_fields set_healthy_positions)

subsection \<open>The balancer at work\<close>

text \<open>
  A balancer in use: health checks change a target's state and then notify the balancer, drains
  change it without notifying, requests claim a target and end, the balancer is restored
  or disposed of.
\<close>

inductive lb_step :: "LoadBalancer \<times> ReqStore \<Rightarrow> LoadBalancer \<times> ReqStore \<Rightarrow> bool" where
  lb_health: "lb_step (lb, st)
     (lb\<lparr>lb_all := (lb_all lb)[i := fst (HealthCheckCompleted ok (lb_all lb ! i))]\<rparr>, st)"
| lb_state: "lb_step (lb, st) (lb\<lparr>lb_all := (lb_all lb)[i := snd (updateState s (lb_all lb ! i))]\<rparr>, st)"
| lb_notify: "lb_step (lb, st) (TargetStateChanged lb, st)"
| lb_mark: "lb_step (lb, st) (MarkAllHealthy lb, st)"
| lb_dispose: "lb_step (lb, st) (Dispose lb, st)"
| lb_claim: "claimTarget now rid r (lb, st) = (res, lb', st') \<Longrightarrow> lb_step (lb, st) (lb', st')"
| lb_end: "endInflightRequest rid (lb_all lb ! i, st) = (t, st') \<Longrightarrow>
     lb_step (lb, st) (lb\<lparr>lb_all := (lb_all lb)[i := t]\<rparr>, st')"

definition lb_start :: "LoadBalancer \<times> ReqStore \<Rightarrow> bool" where
  "lb_start s \<longleftrightarrow> (\<exists>targets timeout ws. s = (NewLoadBalancer targets timeout ws, Map.empty))"

definition lb_inv :: "LoadBalancer \<Rightarrow> bool" where
  "lb_inv lb \<longleftrightarrow>
     (\<forall>i \<in> set (lb_writers lb). i < length (lb_all lb) \<and> \<not> t_readonly (lb_all lb ! i))
     \<and> (\<forall>i \<in> set (lb_readers lb). i < length (lb_all lb) \<and> t_readonly (lb_all lb ! i))
     \<and> lb_hasReaders lb = HasReaders (lb_all lb)"

lemma HasReaders_iff: "HasReaders ts \<longleftrightarrow> (\<exists>i < length ts. t_readonly (ts ! i))"
  by (simp add: HasReaders_def list_ex_length)

text \<open>A change of the targets that keeps their number and their kind keeps the invariant.\<close>

definition same_kinds :: "TargetList \<Rightarrow> TargetList \<Rightarrow> bool" where
  "same_kinds ts ts' \<longleftrightarrow> map t_readonly ts' = map t_readonly ts"

lemma same_kinds_update [simp]: "t_readonly t = t_readonly (ts ! i) \<Longrightarrow> same_kinds ts (ts[i := t])"
  by (cases "i < length ts") (simp_all add: same_kinds_def map_update list_update_same_conv list_update_beyond)

lemma same_kinds_map [simp]: "(\<And>t. t_readonly (f t) = t_readonly t) \<Longrightarrow> same_kinds ts (map f ts)"
  by (simp add: same_kinds_def)

lemma same_kinds_refl [simp]: "same_kinds ts ts"
  by (simp add: same_kinds_def)

lemma same_kindsD:
  "same_kinds ts ts' \<Longrightarrow> length ts' = length ts \<and> HasReaders ts' = HasReaders ts
     \<and> (\<forall>i < length ts. t_readonly (ts' ! i) = t_readonly (ts ! i))"
  unfolding same_kinds_def HasReaders_iff by (metis length_map nth_map)

lemma lb_inv_targets: "lb_inv lb \<Longrightarrow> same_kinds (lb_all lb) ts \<Longrightarrow> lb_inv (lb\<lparr>lb_all := ts\<rparr>)"
  by (drule same_kindsD) (auto simp: lb_inv_def)

lemma lb_inv_refresh:
  assumes "lb_inv lb"
  shows "lb_inv (updateHealthyTargets lb)"
proof -
  have k: "same_kinds (lb_all lb) (TargetList_StopHealthChecks (lb_all lb))"
    unfolding TargetList_StopHealthChecks_def by (rule same_kinds_map) (simp add: StopHealthChecks_def)
  from same_kindsD [OF k] assms show ?thesis
    by (auto simp: lb_inv_def update_fields set_healthy_positions)
qed

lemma nextTarget_kept:
  "nextTarget rd lb = (o', lb') \<Longrightarrow> lb_all lb' = lb_all lb \<and> lb_writers lb' = lb_writers lb
     \<and> lb_readers lb' = lb_readers lb \<and> lb_hasReaders lb' = lb_hasReaders lb"
  by (auto simp: nextTarget_def Let_def split: if_splits)

lemma nextTarget_Some:
  "nextTarget rd lb = (Some i, lb') \<Longrightarrow>
     if rd \<and> lb_readers lb \<noteq> [] then i \<in> set (lb_readers lb) else i \<in> set (lb_writers lb)"
  by (auto simp: nextTarget_def Let_def split: if_splits)

lemma StartRequest_kept:
  "Target_StartRequest rid (t, st) = Inr (t', st') \<Longrightarrow> t_readonly t' = t_readonly t"
  by (auto simp: Target_StartRequest_def split: if_splits)

lemma endInflightRequest_kept: "endInflightRequest rid (t, st) = (t', st') \<Longrightarrow> t_readonly t' = t_readonly t"
  by (auto simp: endInflightRequest_def split: if_splits)

lemma lb_inv_claim:
  assumes "lb_inv lb" "claimTarget now rid r (lb, st) = (res, lb', st')"
  shows "lb_inv lb'"
proof -
  obtain o' lb1 where n: "nextTarget (isReadRequest lb r \<and> \<not> hasWriteCookie now r) lb = (o', lb1)"
    by fastforce
  with assms(1) nextTarget_kept [OF n] have inv1: "lb_inv lb1" by (simp add: lb_inv_def)
  show ?thesis
  proof (cases "\<exists>i t st1. o' = Some i \<and> Target_StartRequest rid (lb_all lb1 ! i, st) = Inr (t, st1)")
    case True
    with assms(2) n obtain i t st1 where l: "lb' = lb1\<lparr>lb_all := (lb_all lb1)[i := t]\<rparr>"
      and "Target_StartRequest rid (lb_all lb1 ! i, st) = Inr (t, st1)"
      by (auto simp: claimTarget_def Let_def)
    then have "t_readonly t = t_readonly (lb_all lb1 ! i)" by (blast dest: StartRequest_kept)
    with inv1 l show ?thesis by (simp add: lb_inv_targets)
  next
    case False
    with assms(2) n have "lb' = lb1"
      by (auto simp: claimTarget_def Let_def split: option.splits sum.splits)
    with inv1 show ?thesis by simp
  qed
qed

lemma lb_step_inv: "lb_step s s' \<Longrightarrow> lb_inv (fst s) \<Longrightarrow> lb_inv (fst s')"
proof (induction rule: lb_step.induct)
  case (lb_claim now rid r lb st res lb' st')
  then show ?case using lb_inv_claim by simp
next
  case (lb_mark lb st)
  then show ?case
    by (simp add: MarkAllHealthy_def updateState_def lb_inv_refresh lb_inv_targets)
qed (auto simp: TargetStateChanged_def Dispose_def TargetList_StopHealthChecks_def StopHealthChecks_def
      HealthCheckCompleted_def updateState_def Let_def
      intro!: lb_inv_refresh lb_inv_targets dest: endInflightRequest_kept)

lemma HasReaders_Begin [simp]: "HasReaders (map BeginHealthChecks ts) = HasReaders ts"
  by (induction ts) (simp_all add: HasReaders_def BeginHealthChecks_def)

lemma lb_start_inv: "lb_start s \<Longrightarrow> lb_inv (fst s)"
  by (auto simp: lb_start_def NewLoadBalancer_def lb_inv_def TargetList_BeginHealthChecks_def)

interpretation balancing: kept_invariant lb_start lb_step "\<lambda>s. lb_inv (fst s)"
  by unfold_locales (auto intro: lb_start_inv lb_step_inv)

lemma claim_target_kind:
  assumes "lb_inv lb" "claimTarget now rid r (lb, st) = (Inr (i, rd), lb', st')"
  shows "i < length (lb_all lb) \<and> rd = isReadRequest lb r
    \<and> t_readonly (lb_all lb ! i) =
        (isReadRequest lb r \<and> \<not> hasWriteCookie now r \<and> lb_readers lb \<noteq> [])
    \<and> (\<exists>t. Target_StartRequest rid (lb_all lb ! i, st) = Inr (t, st')
         \<and> lb_all lb' = (lb_all lb)[i := t])"
proof -
  from assms(2) obtain lb1 t where
      n: "nextTarget (isReadRequest lb r \<and> \<not> hasWriteCookie now r) lb = (Some i, lb1)"
    and t: "Target_StartRequest rid (lb_all lb1 ! i, st) = Inr (t, st')"
    and l: "lb' = lb1\<lparr>lb_all := (lb_all lb1)[i := t]\<rparr>" "rd = isReadRequest lb r"
    by (auto simp: claimTarget_def Let_def split: option.splits sum.splits prod.splits)
  from assms(1) nextTarget_Some [OF n]
  have "i < length (lb_all lb) \<and> t_readonly (lb_all lb ! i) =
      (isReadRequest lb r \<and> \<not> hasWriteCookie now r \<and> lb_readers lb \<noteq> [])"
    by (auto simp: lb_inv_def split: if_splits)
  with t l nextTarget_kept [OF n] show ?thesis by auto
qed

text \<open>C7: in every reachable state of a balancer, a request that is given a target is given one of its
  list that is not draining, and is in flight on it afterwards; the target is read-only exactly
  when the request is a read without a current write cookie and the readers' pool is not empty, so
  no write ever reaches a read-only target.\<close>

theorem claim_routes:
  assumes "reach lb_start lb_step (lb, st)"
    and "claimTarget now rid r (lb, st) = (Inr (i, rd), lb', st')"
  shows "i < length (lb_all lb) \<and> t_state (lb_all lb ! i) \<noteq> TargetStateDraining
    \<and> rid \<in> t_inflight (lb_all lb' ! i)
    \<and> t_readonly (lb_all lb ! i) =
        (isReadRequest lb r \<and> \<not> hasWriteCookie now r \<and> lb_readers lb \<noteq> [])"
proof -
  from assms(1) have "lb_inv lb" using balancing.reach_inv by fastforce
  from claim_target_kind [OF this assms(2)] show ?thesis
    by (auto simp: Target_StartRequest_def split: if_splits)
qed

text \<open>Writer affinity: the cookie that a write's response carries, sent back with a later request,
  keeps that request off the read-only targets for exactly the affinity timeout (in milliseconds),
  whatever its method.\<close>

theorem affinity_cookie:
  assumes "Header_Get (rw_Header w) ''X-Writer-Affinity'' \<noteq> ''false''"
    and "0 \<le> UnixMilli (now + timeout)" "UnixMilli (now + timeout) < 2 ^ 63"
    and "Request_Cookie r LoadBalancerWriteCookieName =
           Some (ck_Value (last (rw_SetCookies (setWriterAffinityCookie now timeout w))))"
    and "reach lb_start lb_step (lb, st)"
    and "claimTarget later rid r (lb, st) = (Inr (i, rd), lb', st')"
  shows "hasWriteCookie later r = (UnixMilli later < UnixMilli (now + timeout))
    \<and> (UnixMilli later < UnixMilli (now + timeout) \<longrightarrow> \<not> t_readonly (lb_all lb ! i))"
proof -
  have "ParseInt (FormatInt (UnixMilli (now + timeout))) = Some (UnixMilli (now + timeout))"
    using assms(2,3) by (intro ParseInt_FormatInt) auto
  with assms(1,4) have "hasWriteCookie later r = (UnixMilli later < UnixMilli (now + timeout))"
    by (simp add: hasWriteCookie_def setWriterAffinityCookie_def Let_def)
  moreover from assms(5) have "lb_inv lb" using balancing.reach_inv by fastforce
  ultimately show ?thesis using claim_target_kind [OF _ assms(6)] by simp
qed

subsection \<open>Examples\<close>

definition example_reader :: Target where
  "example_reader = example_target\<lparr>t_address := ''replica-1'', t_readonly := True\<rparr>"

definition ex_new_lb :: LoadBalancer where
  "ex_new_lb = NewLoadBalancer [example_target, example_reader] 3000000000 False"

definition ex_lb :: LoadBalancer where
  "ex_lb = updateHealthyTargets ex_new_lb"

lemma ex_lb_eval:
  "lb_all ex_lb = [example_target, example_reader]" "lb_writers ex_lb = [0]" "lb_readers ex_lb = [1]"
  "lb_writerIndex ex_lb = 0" "lb_readerIndex ex_lb = 0" "lb_readTargetsAcceptWebsockets ex_lb = False"
  by (simp_all add: ex_lb_def ex_new_lb_def NewLoadBalancer_def updateHealthyTargets_def
      healthy_positions_def TargetList_BeginHealthChecks_def BeginHealthChecks_def
      example_target_def example_reader_def)

lemma ex_lb_reach: "reach lb_start lb_step (ex_lb, Map.empty)"
proof (rule reach.reach_step)
  show "reach lb_start lb_step (ex_new_lb, Map.empty)"
    by (rule reach.reach_start) (auto simp: lb_start_def ex_new_lb_def)
  show "lb_step (ex_new_lb, Map.empty) (ex_lb, Map.empty)"
    using lb_step.lb_notify [of ex_new_lb] by (simp add: ex_lb_def TargetStateChanged_def)
qed

definition ex_started :: "Target \<Rightarrow> nat \<Rightarrow> Target" where
  "ex_started t rid = t\<lparr>t_inflight := insert rid (t_inflight t)\<rparr>"

definition ex_write_cookie_request :: Request where
  "ex_write_cookie_request = (get_request ''app'' ''/'')\<lparr>rq_Cookies := [(''kamal-writer'', ''5000'')]\<rparr>"

lemma ex_claims:
  "claimTarget 0 7 (get_request ''app'' ''/'') (ex_lb, Map.empty) =
     (Inr (1, True), ex_lb\<lparr>lb_readerIndex := 0, lb_all := [example_target, ex_started example_reader 7]\<rparr>,
      [7 \<mapsto> \<lparr>if_cancelled = None, if_hijacked = False\<rparr>])"
  "claimTarget 0 7 ex_write_cookie_request (ex_lb, Map.empty) =
     (Inr (0, True), ex_lb\<lparr>lb_writerIndex := 0, lb_all := [ex_started example_target 7, example_reader]\<rparr>,
      [7 \<mapsto> \<lparr>if_cancelled = None, if_hijacked = False\<rparr>])"
  by (simp_all add: claimTarget_def nextTarget_def ex_lb_eval isReadRequest_def isWebSocketRequest_def
      get_request_def hasWriteCookie_def Request_Cookie_def ex_write_cookie_request_def ex_started_def
      LoadBalancerWriteCookieName_def ParseInt_def HasPrefix_def digit_value_def UnixMilli_def
      Header_Get_def EqualFold_def Target_StartRequest_def example_target_def example_reader_def Let_def)

theorem round_robin_fair_witness:
  "mset (picks (nextTarget True) 1 ex_lb) = {#Some 1#} \<and> mset (picks (nextTarget False) 1 ex_lb) = {#Some 0#}"
  using round_robin_fair [of ex_lb] by (simp add: ex_lb_eval)

theorem refresh_pools_witness: "lb_healthy ex_lb \<and> set (lb_readers ex_lb) = {1}"
  using refresh_pools [of ex_new_lb]
  by (simp add: ex_lb_def [symmetric] ex_lb_eval) (simp add: ex_new_lb_def NewLoadBalancer_def
      TargetList_BeginHealthChecks_def BeginHealthChecks_def example_target_def example_reader_def)

theorem claim_routes_witness: "t_readonly (lb_all ex_lb ! 1)"
  using claim_routes [OF ex_lb_reach ex_claims(1)]
  by (simp add: ex_lb_eval isReadRequest_def isWebSocketRequest_def hasWriteCookie_def get_request_def
      Request_Cookie_def Header_Get_def EqualFold_def)

definition ex_response :: ResponseWriter where
  "ex_response = \<lparr>rw_Header = (\<lambda>_. []), rw_SetCookies = [], rw_status = [], rw_body = [], rw_flushed = 0\<rparr>"

theorem affinity_cookie_witness: "hasWriteCookie 0 ex_write_cookie_request \<and> \<not> t_readonly (lb_all ex_lb ! 0)"
proof -
  have c: "Request_Cookie ex_write_cookie_request LoadBalancerWriteCookieName =
      Some (ck_Value (last (rw_SetCookies (setWriterAffinityCookie 0 5000000000 ex_response))))"
    by (simp add: ex_write_cookie_request_def Request_Cookie_def LoadBalancerWriteCookieName_def
        setWriterAffinityCookie_def ex_response_def Header_Get_def FormatInt_def UnixMilli_def format_nat.simps char_of_def bit_0)
  show ?thesis
    using affinity_cookie [OF _ _ _ c ex_lb_reach ex_claims(2)]
    by (simp add: ex_response_def Header_Get_def UnixMilli_def)
qed

end
