(* ===== verification/Draining.thy ===== *)
theory Draining
  imports Targets
begin

section \<open>Draining a target\<close>

text \<open>
  \<open>Target.Drain\<close> of \<open>internal/server/target.go\<close> as the sequence of its lock-protected sections,
  interleaved with everything else that touches the target. A drain is a thread that moves through
  the phases below; the other events are requests that start, hijack and end, health checks that
  complete, further drains, and the passing of time.
\<close>

datatype DrainPhase =
    DrainMarked TargetState duration
  | DrainSnapshot TargetState "nat set" instant
  | DrainWaiting TargetState "nat set" instant
  | DrainRestoring TargetState "nat set"
  | DrainReturned "nat set"

record TargetSys =
  ds_target :: Target
  ds_reqs :: ReqStore
  ds_drains :: "nat \<Rightarrow> DrainPhase option"
  ds_clock :: instant

definition request_done :: "ReqStore \<Rightarrow> nat \<Rightarrow> bool" where
  "request_done st r \<longleftrightarrow> (case st r of None \<Rightarrow> False | Some i \<Rightarrow> if_cancelled i \<noteq> None)"

text \<open>The two loops that cancel requests of the copied map: the hijacked ones, and all.\<close>

definition cancel_requests :: "(inflightRequest \<Rightarrow> bool) \<Rightarrow> nat set \<Rightarrow> ReqStore \<Rightarrow> ReqStore" where
  "cancel_requests which toCancel st = (\<lambda>r.
     if r \<in> toCancel
     then map_option (\<lambda>i. if which i then cancel (Some ErrorDraining) i else i) (st r)
     else st r)"

definition drain_begin :: "nat \<Rightarrow> duration \<Rightarrow> TargetSys \<Rightarrow> TargetSys" where
  "drain_begin d timeout s =
     (let (originalState, t) = updateState TargetStateDraining (ds_target s)
      in s\<lparr>ds_target := t,
           ds_drains := (ds_drains s)(d \<mapsto>
             (if originalState = TargetStateDraining then DrainReturned {}
              else DrainMarked originalState timeout))\<rparr>)"

text \<open>One step of a drain in progress; \<open>None\<close> while it waits for requests or its deadline.\<close>

fun drain_next :: "TargetSys \<Rightarrow> DrainPhase \<Rightarrow> (Target \<times> ReqStore \<times> DrainPhase) option" where
  "drain_next s (DrainMarked orig timeout) =
     Some (ds_target s, ds_reqs s,
           DrainSnapshot orig (pendingRequestsToCancel (ds_target s)) (ds_clock s + timeout))"
| "drain_next s (DrainSnapshot orig toCancel deadline) =
     Some (ds_target s, cancel_requests if_hijacked toCancel (ds_reqs s),
           DrainWaiting orig toCancel deadline)"
| "drain_next s (DrainWaiting orig toCancel deadline) =
     (if (\<forall>r \<in> toCancel. request_done (ds_reqs s) r) \<or> deadline \<le> ds_clock s
      then Some (ds_target s, cancel_requests (\<lambda>_. True) toCancel (ds_reqs s),
                 DrainRestoring orig toCancel)
      else None)"
| "drain_next s (DrainRestoring orig toCancel) =
     Some (snd (updateState orig (ds_target s)), ds_reqs s, DrainReturned toCancel)"
| "drain_next s (DrainReturned toCancel) = None"

datatype target_event =
    EvDrain nat duration | EvDrainStep nat | EvStart nat | EvHijack nat | EvEnd nat
  | EvHealth bool | EvTick instant

inductive target_step :: "TargetSys \<Rightarrow> target_event \<Rightarrow> TargetSys \<Rightarrow> bool" where
  step_drain: "ds_drains s d = None \<Longrightarrow> target_step s (EvDrain d timeout) (drain_begin d timeout s)"
| step_drain_next: "ds_drains s d = Some ph \<Longrightarrow> drain_next s ph = Some (t, st, ph') \<Longrightarrow>
     target_step s (EvDrainStep d)
       (s\<lparr>ds_target := t, ds_reqs := st, ds_drains := (ds_drains s)(d \<mapsto> ph')\<rparr>)"
| step_start: "ds_reqs s r = None \<Longrightarrow> Target_StartRequest r (ds_target s, ds_reqs s) = Inr (t, st) \<Longrightarrow>
     target_step s (EvStart r) (s\<lparr>ds_target := t, ds_reqs := st\<rparr>)"
| step_refused: "ds_reqs s r = None \<Longrightarrow> Target_StartRequest r (ds_target s, ds_reqs s) = Inl err \<Longrightarrow>
     target_step s (EvStart r) s"
| step_hijack: "r \<in> t_inflight (ds_target s) \<Longrightarrow>
     target_step s (EvHijack r) (s\<lparr>ds_reqs := Target_Hijack r (ds_reqs s)\<rparr>)"
| step_end: "endInflightRequest r (ds_target s, ds_reqs s) = (t, st) \<Longrightarrow>
     target_step s (EvEnd r) (s\<lparr>ds_target := t, ds_reqs := st\<rparr>)"
| step_health: "target_step s (EvHealth ok) (s\<lparr>ds_target := fst (HealthCheckCompleted ok (ds_target s))\<rparr>)"
| step_tick: "ds_clock s \<le> now \<Longrightarrow> target_step s (EvTick now) (s\<lparr>ds_clock := now\<rparr>)"

inductive_cases target_stepE: "target_step s e s'"

definition target_start :: "TargetSys \<Rightarrow> bool" where
  "target_start s \<longleftrightarrow> t_inflight (ds_target s) = {} \<and> t_state (ds_target s) \<noteq> TargetStateDraining
     \<and> ds_reqs s = Map.empty \<and> ds_drains s = Map.empty"

abbreviation any_step :: "TargetSys \<Rightarrow> TargetSys \<Rightarrow> bool" where
  "any_step s s' \<equiv> \<exists>e. target_step s e s'"

text \<open>Steps in which no health check succeeds; a deployment stops the health checks of the targets
  it replaces before it drains them.\<close>

abbreviation unchecked_step :: "TargetSys \<Rightarrow> TargetSys \<Rightarrow> bool" where
  "unchecked_step s s' \<equiv> \<exists>e. e \<noteq> EvHealth True \<and> target_step s e s'"

subsection \<open>What a finished drain has done\<close>

fun phase_requests :: "DrainPhase \<Rightarrow> nat set" where
  "phase_requests (DrainMarked _ _) = {}"
| "phase_requests (DrainSnapshot _ toCancel _) = toCancel"
| "phase_requests (DrainWaiting _ toCancel _) = toCancel"
| "phase_requests (DrainRestoring _ toCancel) = toCancel"
| "phase_requests (DrainReturned toCancel) = toCancel"

fun phase_cancelled :: "DrainPhase \<Rightarrow> bool" where
  "phase_cancelled (DrainRestoring _ _) = True"
| "phase_cancelled (DrainReturned _) = True"
| "phase_cancelled _ = False"

fun in_progress :: "DrainPhase \<Rightarrow> bool" where
  "in_progress (DrainReturned _) = False"
| "in_progress _ = True"

definition known :: "TargetSys \<Rightarrow> nat set \<Rightarrow> bool" where
  "known s R \<longleftrightarrow> R \<subseteq> dom (ds_reqs s)"

definition drain_inv :: "TargetSys \<Rightarrow> bool" where
  "drain_inv s \<longleftrightarrow> known s (t_inflight (ds_target s))
     \<and> (\<forall>d ph. ds_drains s d = Some ph \<longrightarrow> known s (phase_requests ph)
          \<and> (phase_cancelled ph \<longrightarrow> (\<forall>r \<in> phase_requests ph. request_done (ds_reqs s) r)))"

text \<open>A step of the store keeps every request and every cancellation it had.\<close>

definition store_le :: "ReqStore \<Rightarrow> ReqStore \<Rightarrow> bool" where
  "store_le st st' \<longleftrightarrow> dom st \<subseteq> dom st' \<and> (\<forall>r. request_done st r \<longrightarrow> request_done st' r)"

lemma store_le_refl [simp]: "store_le st st"
  by (simp add: store_le_def)

lemma store_le_cancel [simp]: "store_le st (cancel_requests which R st)"
  by (auto simp: store_le_def cancel_requests_def request_done_def cancel_def
      split: option.splits if_splits)

lemma store_le_update: "(\<And>i. if_cancelled i \<noteq> None \<Longrightarrow> if_cancelled (f i) \<noteq> None) \<Longrightarrow>
    store_le st (st(r := map_option f (st r)))"
  by (auto simp: store_le_def request_done_def split: option.splits)

lemma store_le_hijack [simp]: "store_le st (Target_Hijack r st)"
  unfolding Target_Hijack_def by (rule store_le_update) simp

lemma store_le_end: "endInflightRequest r (t, st) = (t', st') \<Longrightarrow> store_le st st'"
  by (auto simp: endInflightRequest_def cancel_def split: if_splits option.splits intro!: store_le_update)

lemma store_le_start: "Target_StartRequest r (t, st) = Inr (t', st') \<Longrightarrow> st r = None \<Longrightarrow> store_le st st'"
  by (auto simp: Target_StartRequest_def store_le_def request_done_def split: if_splits option.splits)

lemma cancel_requests_done:
  "R \<subseteq> dom st \<Longrightarrow> r \<in> R \<Longrightarrow> request_done (cancel_requests (\<lambda>_. True) R st) r"
  by (auto simp: cancel_requests_def request_done_def cancel_def split: option.splits)

lemma drain_inv_store:
  assumes "drain_inv s" "store_le (ds_reqs s) (ds_reqs s')"
    and "t_inflight (ds_target s') \<subseteq> dom (ds_reqs s')" and "ds_drains s' = ds_drains s"
  shows "drain_inv s'"
proof -
  from assms(2) have d: "dom (ds_reqs s) \<subseteq> dom (ds_reqs s')"
    and m: "\<And>r. request_done (ds_reqs s) r \<Longrightarrow> request_done (ds_reqs s') r" by (simp_all add: store_le_def)
  have "phase_requests ph \<subseteq> dom (ds_reqs s')
      \<and> (phase_cancelled ph \<longrightarrow> (\<forall>r \<in> phase_requests ph. request_done (ds_reqs s') r))"
    if "ds_drains s k = Some ph" for k ph
    using assms(1) that d m unfolding drain_inv_def known_def by blast
  with assms(3,4) show ?thesis by (simp add: drain_inv_def known_def)
qed

lemma drain_next_inv:
  assumes inv: "drain_inv s" and ph: "ds_drains s d = Some ph" and "drain_next s ph = Some (t, st, ph')"
  shows "t_inflight t = t_inflight (ds_target s)" and "store_le (ds_reqs s) st"
    and "phase_requests ph' \<subseteq> dom st"
    and "phase_cancelled ph' \<Longrightarrow> \<forall>r \<in> phase_requests ph'. request_done st r"
proof -
  from inv ph have k: "phase_requests ph \<subseteq> dom (ds_reqs s)"
      "phase_cancelled ph \<Longrightarrow> \<forall>r \<in> phase_requests ph. request_done (ds_reqs s) r"
      "t_inflight (ds_target s) \<subseteq> dom (ds_reqs s)"
    by (auto simp: drain_inv_def known_def)
  show "t_inflight t = t_inflight (ds_target s)" "store_le (ds_reqs s) st"
    using assms(3) by (cases ph; auto simp: updateState_def split: if_splits)+
  then have "dom (ds_reqs s) \<subseteq> dom st" by (simp add: store_le_def)
  moreover have "phase_requests ph' \<subseteq> dom (ds_reqs s)"
    using assms(3) k(1,3) by (cases ph) (auto simp: pendingRequestsToCancel_def split: if_splits)
  ultimately show "phase_requests ph' \<subseteq> dom st" by blast
  show "\<forall>r \<in> phase_requests ph'. request_done st r" if "phase_cancelled ph'"
    using assms(3) k that by (cases ph) (auto split: if_splits intro: cancel_requests_done)
qed

lemma HealthCheckCompleted_inflight [simp]: "t_inflight (fst (HealthCheckCompleted ok t)) = t_inflight t"
  by (simp add: HealthCheckCompleted_def Let_def)

lemma target_step_inv:
  assumes inv: "drain_inv s" and "target_step s e s'"
  shows "drain_inv s'"
  using assms(2)
proof (cases rule: target_step.cases)
  case (step_drain d timeout)
  then show ?thesis using inv
    by (auto simp: drain_inv_def known_def drain_begin_def updateState_def Let_def)
next
  case (step_drain_next d ph t st ph')
  note n = drain_next_inv [OF inv step_drain_next(3,4)]
  have "t_inflight t \<subseteq> dom (ds_reqs s)" using inv n(1) by (simp add: drain_inv_def known_def)
  moreover have "dom (ds_reqs s) \<subseteq> dom st" using n(2) by (simp add: store_le_def)
  ultimately have "t_inflight t \<subseteq> dom st" by blast
  then have "drain_inv (s\<lparr>ds_target := t, ds_reqs := st\<rparr>)"
    using n(2) by (intro drain_inv_store [OF inv]) simp_all
  with n(3,4) show ?thesis unfolding step_drain_next(2) by (auto simp: drain_inv_def known_def)
next
  case (step_start r t st)
  have "t_inflight t \<subseteq> dom st" using step_start inv
    by (auto simp: Target_StartRequest_def drain_inv_def known_def split: if_splits)
  with store_le_start [OF step_start(4,3)] show ?thesis
    unfolding step_start(2) by (intro drain_inv_store [OF inv]) auto
next
  case (step_end r t st)
  have "t_inflight t \<subseteq> dom st" using step_end inv
    by (auto simp: endInflightRequest_def drain_inv_def known_def split: if_splits)
  with store_le_end [OF step_end(3)] show ?thesis
    unfolding step_end(2) by (intro drain_inv_store [OF inv]) auto
next
  case (step_hijack r)
  have "t_inflight (ds_target s) \<subseteq> dom (Target_Hijack r (ds_reqs s))"
    using inv by (auto simp: Target_Hijack_def drain_inv_def known_def)
  then show ?thesis unfolding step_hijack(2) by (intro drain_inv_store [OF inv]) simp_all
next
  case (step_health ok)
  show ?thesis unfolding step_health(2)
    by (rule drain_inv_store [OF inv]) (use inv in \<open>simp_all add: drain_inv_def known_def\<close>)
next
  case (step_tick now)
  show ?thesis unfolding step_tick(2)
    by (rule drain_inv_store [OF inv]) (use inv in \<open>simp_all add: drain_inv_def known_def\<close>)
next
  case (step_refused r err)
  with inv show ?thesis by simp
qed

lemma target_start_inv: "target_start s \<Longrightarrow> drain_inv s"
  by (simp add: target_start_def drain_inv_def known_def)

interpretation draining: kept_invariant target_start any_step drain_inv
  by unfold_locales (auto intro: target_start_inv target_step_inv)

text \<open>C8: when \<open>Drain\<close> returns, every request that was in flight when it took its copy of the
  in-flight map has ended or has had its context cancelled, whatever else happened meanwhile.\<close>

theorem drain_finishes_snapshot:
  assumes "reach target_start any_step s"
    and "ds_drains s d = Some (DrainReturned toCancel)" and "r \<in> toCancel"
  shows "request_done (ds_reqs s) r"
proof -
  from assms(1) have "drain_inv s" by (rule draining.reach_inv)
  with assms(2,3) show ?thesis by (force simp: drain_inv_def)
qed

subsection \<open>Drains without successful health checks\<close>

definition closed_inv :: "TargetSys \<Rightarrow> bool" where
  "closed_inv s \<longleftrightarrow>
     (\<forall>d ph. ds_drains s d = Some ph \<and> in_progress ph \<longrightarrow>
        t_state (ds_target s) = TargetStateDraining
        \<and> ((\<exists>orig timeout. ph = DrainMarked orig timeout) \<or> t_inflight (ds_target s) \<subseteq> phase_requests ph)
        \<and> (\<forall>d' ph'. ds_drains s d' = Some ph' \<and> in_progress ph' \<longrightarrow> d' = d))"

lemma closed_invD:
  "closed_inv s \<Longrightarrow> ds_drains s d = Some ph \<Longrightarrow> in_progress ph \<Longrightarrow>
     t_state (ds_target s) = TargetStateDraining
     \<and> ((\<exists>orig timeout. ph = DrainMarked orig timeout) \<or> t_inflight (ds_target s) \<subseteq> phase_requests ph)
     \<and> (\<forall>d' ph'. ds_drains s d' = Some ph' \<and> in_progress ph' \<longrightarrow> d' = d)"
  unfolding closed_inv_def by blast

lemma closed_inv_frame:
  assumes "closed_inv s" "ds_drains s' = ds_drains s"
    and "t_state (ds_target s) = TargetStateDraining \<Longrightarrow>
      t_state (ds_target s') = TargetStateDraining \<and> t_inflight (ds_target s') \<subseteq> t_inflight (ds_target s)"
  shows "closed_inv s'"
  unfolding closed_inv_def
proof (intro allI impI)
  fix d ph assume "ds_drains s' d = Some ph \<and> in_progress ph"
  with assms(2) have "ds_drains s d = Some ph" "in_progress ph" by simp_all
  from closed_invD [OF assms(1) this] assms(2,3)
  show "t_state (ds_target s') = TargetStateDraining
        \<and> ((\<exists>orig timeout. ph = DrainMarked orig timeout) \<or> t_inflight (ds_target s') \<subseteq> phase_requests ph)
        \<and> (\<forall>d' ph'. ds_drains s' d' = Some ph' \<and> in_progress ph' \<longrightarrow> d' = d)"
    by (metis subset_trans)
qed

lemma drain_next_closed:
  assumes "closed_inv s" "ds_drains s d = Some ph" "drain_next s ph = Some (t, st, ph')"
  shows "closed_inv (s\<lparr>ds_target := t, ds_reqs := st, ds_drains := (ds_drains s)(d \<mapsto> ph')\<rparr>)"
proof -
  from assms(3) have "in_progress ph" by (cases ph) auto
  note c = closed_invD [OF assms(1,2) this]
  from assms(3) c have "in_progress ph' \<Longrightarrow> t_state t = TargetStateDraining \<and> t_inflight t \<subseteq> phase_requests ph'"
    by (cases ph) (auto simp: pendingRequestsToCancel_def split: if_splits)
  with c show ?thesis unfolding closed_inv_def by auto
qed

lemma unchecked_step_inv:
  assumes inv: "closed_inv s" and "e \<noteq> EvHealth True" and "target_step s e s'"
  shows "closed_inv s'"
  using assms(3)
proof (cases rule: target_step.cases)
  case (step_drain d timeout)
  show ?thesis
  proof (cases "t_state (ds_target s) = TargetStateDraining")
    case True
    with inv show ?thesis unfolding step_drain(2)
      by (auto simp: drain_begin_def updateState_def closed_inv_def)
  next
    case False
    with inv have "\<And>d ph. ds_drains s d = Some ph \<Longrightarrow> \<not> in_progress ph" by (blast dest: closed_invD)
    with False show ?thesis unfolding step_drain(2)
      by (auto simp: drain_begin_def updateState_def closed_inv_def)
  qed
next
  case (step_drain_next d ph t st ph')
  from drain_next_closed [OF inv step_drain_next(3,4)] show ?thesis unfolding step_drain_next(2) .
next
  case (step_start r t st)
  then show ?thesis unfolding step_start(2)
    by (intro closed_inv_frame [OF inv]) (simp_all add: Target_StartRequest_def)
next
  case (step_end r t st)
  then show ?thesis unfolding step_end(2)
    by (intro closed_inv_frame [OF inv]) (auto simp: endInflightRequest_def split: if_splits)
next
  case (step_health ok)
  with assms(2) have "\<not> ok" by simp
  then show ?thesis unfolding step_health(2)
    by (intro closed_inv_frame [OF inv]) (simp_all add: HealthCheckCompleted_def Let_def)
next
  case (step_refused r err)
  with inv show ?thesis by simp
qed (auto intro: closed_inv_frame [OF inv])

lemma target_start_closed: "target_start s \<Longrightarrow> closed_inv s"
  by (simp add: target_start_def closed_inv_def)

interpretation closing: kept_invariant target_start unchecked_step "\<lambda>s. drain_inv s \<and> closed_inv s"
  by unfold_locales
     (auto intro: target_start_inv target_step_inv target_start_closed unchecked_step_inv)

text \<open>C9: with the health checks of the target stopped, as a deployment does before it drains the
  targets it replaces, a drain leaves nothing behind: at the point where it is about to restore the
  state and return, every request still in flight on the target is one whose context is done, and
  until then the target accepts no request.\<close>

theorem drain_leaves_nothing:
  assumes "reach target_start unchecked_step s"
    and "ds_drains s d = Some (DrainRestoring orig toCancel)"
  shows "(\<forall>r \<in> t_inflight (ds_target s). request_done (ds_reqs s) r)
     \<and> Target_StartRequest q (ds_target s, ds_reqs s) = Inl ErrorDraining"
proof -
  from assms(1) have "drain_inv s" and c: "closed_inv s" using closing.reach_inv by blast+
  with assms(2) have "\<forall>r \<in> toCancel. request_done (ds_reqs s) r" by (force simp: drain_inv_def)
  moreover from closed_invD [OF c assms(2)]
  have "t_inflight (ds_target s) \<subseteq> toCancel" "t_state (ds_target s) = TargetStateDraining" by auto
  ultimately show ?thesis by (auto simp: Target_StartRequest_def)
qed

subsection \<open>A drain ends by its deadline\<close>

text \<open>The drain's own steps and the clock, with no help from any request.\<close>

abbreviation own_step :: "nat \<Rightarrow> TargetSys \<Rightarrow> TargetSys \<Rightarrow> bool" where
  "own_step d s s' \<equiv> target_step s (EvDrainStep d) s' \<or> (\<exists>now. target_step s (EvTick now) s')"

definition can_return_by :: "nat \<Rightarrow> instant \<Rightarrow> TargetSys \<Rightarrow> bool" where
  "can_return_by d b s \<longleftrightarrow> (\<exists>s' toCancel. (own_step d)\<^sup>*\<^sup>* s s'
     \<and> ds_drains s' d = Some (DrainReturned toCancel) \<and> ds_clock s' \<le> b)"

fun finish_by :: "TargetSys \<Rightarrow> DrainPhase \<Rightarrow> instant" where
  "finish_by s (DrainMarked _ timeout) = ds_clock s + timeout"
| "finish_by s (DrainSnapshot _ _ deadline) = deadline"
| "finish_by s (DrainWaiting _ _ deadline) = deadline"
| "finish_by s _ = ds_clock s"

lemma can_return_own_step:
  assumes "own_step d s s'" "can_return_by d b s'"
  shows "can_return_by d b s"
proof -
  from assms(2) obtain s'' toCancel where r: "(own_step d)\<^sup>*\<^sup>* s' s''"
    "ds_drains s'' d = Some (DrainReturned toCancel) \<and> ds_clock s'' \<le> b"
    unfolding can_return_by_def by blast
  from converse_rtranclp_into_rtranclp [where r = "own_step d", OF assms(1) r(1)] r(2)
  show ?thesis unfolding can_return_by_def by blast
qed

lemma can_return_step:
  assumes "ds_drains s d = Some ph" "drain_next s ph = Some (t, st, ph')"
    and "can_return_by d b (s\<lparr>ds_target := t, ds_reqs := st, ds_drains := (ds_drains s)(d \<mapsto> ph')\<rparr>)"
  shows "can_return_by d b s"
  by (rule can_return_own_step [OF disjI1 assms(3)]) (rule target_step.step_drain_next [OF assms(1,2)])

lemma can_return_tick:
  assumes "ds_clock s \<le> now" "can_return_by d b (s\<lparr>ds_clock := now\<rparr>)"
  shows "can_return_by d b s"
  by (rule can_return_own_step [OF disjI2 assms(2)]) (use target_step.step_tick [OF assms(1)] in blast)

lemma can_return_restoring:
  "ds_drains s d = Some (DrainRestoring orig R) \<Longrightarrow> ds_clock s \<le> b \<Longrightarrow> can_return_by d b s"
  by (rule can_return_step) (auto simp: can_return_by_def)

lemma can_return_waiting:
  assumes "ds_drains s d = Some (DrainWaiting orig R dl)" "max (ds_clock s) dl \<le> b"
  shows "can_return_by d b s"
proof (rule can_return_tick [of _ "max (ds_clock s) dl"])
  show "can_return_by d b (s\<lparr>ds_clock := max (ds_clock s) dl\<rparr>)"
    by (rule can_return_step [of _ _ "DrainWaiting orig R dl"])
       (use assms in \<open>auto intro!: can_return_restoring\<close>)
qed simp

lemma can_return_snapshot:
  assumes "ds_drains s d = Some (DrainSnapshot orig R dl)" "max (ds_clock s) dl \<le> b"
  shows "can_return_by d b s"
  by (rule can_return_step [OF assms(1)]) (use assms in \<open>auto intro!: can_return_waiting\<close>)

text \<open>C10: a drain ends on its own: from any of its phases its own steps and the clock bring it to its
  return no later than the timeout it was given, even if no request ever ends.\<close>

theorem drain_ends_by_deadline:
  assumes "ds_drains s d = Some ph"
  shows "\<exists>s' toCancel. (own_step d)\<^sup>*\<^sup>* s s' \<and> ds_drains s' d = Some (DrainReturned toCancel)
     \<and> ds_clock s' \<le> max (ds_clock s) (finish_by s ph)"
proof -
  have "can_return_by d (max (ds_clock s) (finish_by s ph)) s"
  proof (cases ph)
    case (DrainMarked orig timeout)
    with assms show ?thesis
      by (intro can_return_step [OF assms]) (auto simp: DrainMarked intro!: can_return_snapshot)
  next
    case (DrainReturned R)
    with assms show ?thesis by (auto simp: can_return_by_def)
  qed (use assms in \<open>auto intro: can_return_snapshot can_return_waiting can_return_restoring\<close>)
  then show ?thesis by (simp add: can_return_by_def)
qed

subsection \<open>Examples\<close>

definition ex_idle :: TargetSys where
  "ex_idle = \<lparr>ds_target = example_target, ds_reqs = Map.empty, ds_drains = Map.empty, ds_clock = 0\<rparr>"

definition ex_busy :: TargetSys where
  "ex_busy = ex_idle\<lparr>ds_target := example_target\<lparr>t_inflight := {4}\<rparr>,
     ds_reqs := [4 \<mapsto> \<lparr>if_cancelled = None, if_hijacked = False\<rparr>]\<rparr>"

definition ex_marked :: TargetSys where
  "ex_marked = drain_begin 1 30 ex_busy"

definition ex_snapshot :: TargetSys where
  "ex_snapshot = ex_marked\<lparr>ds_drains := [1 \<mapsto> DrainSnapshot TargetStateHealthy {4} 30]\<rparr>"

definition ex_waiting :: TargetSys where
  "ex_waiting = ex_marked\<lparr>ds_drains := [1 \<mapsto> DrainWaiting TargetStateHealthy {4} 30]\<rparr>"

definition ex_late :: TargetSys where
  "ex_late = ex_waiting\<lparr>ds_clock := 31\<rparr>"

definition ex_restoring :: TargetSys where
  "ex_restoring = ex_late\<lparr>ds_reqs := cancel_requests (\<lambda>_. True) {4} (ds_reqs ex_late),
     ds_drains := [1 \<mapsto> DrainRestoring TargetStateHealthy {4}]\<rparr>"

definition ex_returned :: TargetSys where
  "ex_returned = ex_restoring\<lparr>ds_target := (ds_target ex_late)\<lparr>t_state := TargetStateHealthy\<rparr>,
     ds_drains := [1 \<mapsto> DrainReturned {4}]\<rparr>"

lemmas ex_defs = ex_idle_def ex_busy_def ex_marked_def ex_snapshot_def ex_waiting_def ex_late_def
  ex_restoring_def ex_returned_def drain_begin_def updateState_def example_target_def
  pendingRequestsToCancel_def Target_StartRequest_def

lemma ex_steps:
  "target_step ex_idle (EvStart 4) ex_busy" "target_step ex_busy (EvDrain 1 30) ex_marked"
  "target_step ex_marked (EvDrainStep 1) ex_snapshot" "target_step ex_snapshot (EvDrainStep 1) ex_waiting"
  "target_step ex_waiting (EvTick 31) ex_late" "target_step ex_late (EvDrainStep 1) ex_restoring"
  "target_step ex_restoring (EvDrainStep 1) ex_returned"
proof -
  show "target_step ex_idle (EvStart 4) ex_busy"
    using target_step.step_start [of ex_idle 4] by (simp add: ex_defs)
  show "target_step ex_busy (EvDrain 1 30) ex_marked"
    unfolding ex_marked_def by (rule target_step.step_drain) (simp add: ex_defs)
  show "target_step ex_marked (EvDrainStep 1) ex_snapshot"
    using target_step.step_drain_next [of ex_marked 1] by (simp add: ex_defs)
  show "target_step ex_snapshot (EvDrainStep 1) ex_waiting"
    using target_step.step_drain_next [of ex_snapshot 1]
    by (simp add: ex_defs cancel_requests_def fun_eq_iff)
  show "target_step ex_waiting (EvTick 31) ex_late"
    unfolding ex_late_def by (rule target_step.step_tick) (simp add: ex_defs)
  show "target_step ex_late (EvDrainStep 1) ex_restoring"
    using target_step.step_drain_next [of ex_late 1] by (simp add: ex_defs)
  show "target_step ex_restoring (EvDrainStep 1) ex_returned"
    using target_step.step_drain_next [of ex_restoring 1] by (simp add: ex_defs)
qed

lemma ex_restoring_reach: "reach target_start unchecked_step ex_restoring"
proof -
  have "reach target_start unchecked_step ex_idle"
    by (rule reach.reach_start) (simp add: target_start_def ex_defs)
  note r = reach.reach_step [where step = unchecked_step]
  show ?thesis
    by (rule r [OF r [OF r [OF r [OF r [OF r [OF \<open>reach target_start unchecked_step ex_idle\<close>]]]]]])
       (use ex_steps in blast)+
qed

lemma ex_returned_reach: "reach target_start any_step ex_returned"
proof -
  have "reach target_start any_step ex_idle"
    by (rule reach.reach_start) (simp add: target_start_def ex_defs)
  note r = reach.reach_step [where step = any_step]
  show ?thesis
    by (rule r [OF r [OF r [OF r [OF r [OF r [OF r [OF \<open>reach target_start any_step ex_idle\<close>]]]]]]])
       (use ex_steps in blast)+
qed

theorem drain_finishes_snapshot_witness: "request_done (ds_reqs ex_returned) 4"
  by (rule drain_finishes_snapshot [OF ex_returned_reach, of 1 "{4}"]) (simp_all add: ex_returned_def)

theorem drain_leaves_nothing_witness:
  "request_done (ds_reqs ex_restoring) 4
   \<and> Target_StartRequest 9 (ds_target ex_restoring, ds_reqs ex_restoring) = Inl ErrorDraining"
  using drain_leaves_nothing [OF ex_restoring_reach, of 1 TargetStateHealthy "{4}" 9]
  by (simp add: ex_restoring_def) (simp add: ex_defs)

theorem drain_ends_by_deadline_witness:
  "\<exists>s' toCancel. (own_step 1)\<^sup>*\<^sup>* ex_waiting s' \<and> ds_drains s' 1 = Some (DrainReturned toCancel)
     \<and> ds_clock s' \<le> max (ds_clock ex_waiting) 30"
  using drain_ends_by_deadline [of ex_waiting 1 "DrainWaiting TargetStateHealthy {4} 30"]
  by (simp add: ex_waiting_def)

end
