(* ===== verification/Rollout.thy ===== *)
theory Rollout
  imports Options "HOL-Library.Word" "HOL-Library.Log_Nat"
begin

unbundle bit_operations_syntax

section \<open>The rollout controller\<close>

text \<open>
  Models \<open>internal/server/rollout_controller.go\<close>: which requests are sent to the rollout
  targets. The cookie value is hashed with 32-bit FNV-1a and compared with a split point that
  the source computes in \<open>float64\<close>. A \<open>float64\<close> is the rational number it denotes; every
  arithmetic operation rounds to 53 significant bits, ties to even. No operation of this file
  overflows or becomes subnormal.
\<close>

subsection \<open>float64 rounding\<close>

definition exponent :: "rat \<Rightarrow> int" where
  "exponent x =
     (let (n, d) = quotient_of x; e = bitlen n - bitlen d
      in if 2 powi e \<le> x then e else e - 1)"

definition round_half_even :: "rat \<Rightarrow> int" where
  "round_half_even x =
     (let f = \<lfloor>x\<rfloor>; r = x - of_int f
      in if r < 1 / 2 then f else if 1 / 2 < r then f + 1 else if even f then f else f + 1)"

definition round_pos :: "rat \<Rightarrow> rat" where
  "round_pos x = (let u = 2 powi (exponent x - 52) in of_int (round_half_even (x / u)) * u)"

definition float64 :: "rat \<Rightarrow> rat" where
  "float64 x = (if x = 0 then 0 else if x < 0 then - round_pos (- x) else round_pos x)"

lemma exponent_bounds:
  assumes "0 < x"
  shows "2 powi exponent x \<le> x" and "x < 2 powi (exponent x + 1)"
proof -
  obtain n d where q: "quotient_of x = (n, d)" by (cases "quotient_of x")
  from q have d: "0 < d" by (rule quotient_of_denom_pos)
  from q have x: "x = of_int n / of_int d" by (rule quotient_of_div)
  with assms d have n: "0 < n" by (simp add: zero_less_divide_iff)
  let ?e = "bitlen n - bitlen d"
  have bl: "2 ^ nat (bitlen k - 1) \<le> k" "k < 2 ^ nat (bitlen k)" "0 < bitlen k" if "0 < k" for k
    using bitlen_bounds [OF that] bitlen_eq_zero_iff [of k] bitlen_nonneg [of k] that by auto
  have pw: "(2 :: rat) powi k = of_int (2 ^ nat k)" if "0 \<le> k" for k
    using that by (simp add: power_int_def)
  have N: "2 powi (bitlen n - 1) \<le> (of_int n :: rat)" "(of_int n :: rat) < 2 powi bitlen n"
    using bl [OF n] by (simp_all add: pw del: of_int_power of_int_numeral)
  have D: "2 powi (bitlen d - 1) \<le> (of_int d :: rat)" "(of_int d :: rat) < 2 powi bitlen d"
    using bl [OF d] by (simp_all add: pw del: of_int_power of_int_numeral)
  have "2 powi (?e - 1) = (2 powi (bitlen n - 1) / 2 powi bitlen d :: rat)"
    by (simp add: power_int_diff [symmetric] algebra_simps)
  also have "\<dots> \<le> of_int n / of_int d"
    using N D d n by (intro frac_le) auto
  finally have lo: "2 powi (?e - 1) \<le> x" by (simp add: x)
  have "x < 2 powi bitlen n / 2 powi (bitlen d - 1)"
    unfolding x using N D n by (intro frac_less) (auto simp: less_imp_le)
  also have "\<dots> = 2 powi (?e + 1)"
    by (simp add: power_int_diff [symmetric] algebra_simps)
  finally have hi: "x < 2 powi (?e + 1)" .
  show "2 powi exponent x \<le> x" "x < 2 powi (exponent x + 1)"
    using lo hi by (auto simp: exponent_def q Let_def)
qed

lemma round_half_even_le: "x \<le> of_int k \<Longrightarrow> round_half_even x \<le> k"
proof -
  assume h: "x \<le> of_int k"
  show ?thesis
  proof (cases "x = of_int \<lfloor>x\<rfloor>")
    case True
    with h have "\<lfloor>x\<rfloor> \<le> k" by linarith
    with True show ?thesis by (simp add: round_half_even_def Let_def)
  next
    case False
    then have "of_int \<lfloor>x\<rfloor> < x" using of_int_floor_le [of x] by linarith
    with h have "\<lfloor>x\<rfloor> + 1 \<le> k" by linarith
    then show ?thesis by (auto simp: round_half_even_def Let_def)
  qed
qed

lemma round_half_even_ge: "of_int k \<le> x \<Longrightarrow> k \<le> round_half_even x"
proof -
  assume "of_int k \<le> x"
  then have "k \<le> \<lfloor>x\<rfloor>" by linarith
  then show ?thesis by (auto simp: round_half_even_def Let_def)
qed

lemma round_half_even_mono: "x \<le> y \<Longrightarrow> round_half_even x \<le> round_half_even y"
proof -
  assume h: "x \<le> y"
  show ?thesis
  proof (cases "\<lfloor>x\<rfloor> = \<lfloor>y\<rfloor>")
    case True
    with h show ?thesis by (auto simp: round_half_even_def Let_def)
  next
    case False
    with h have "\<lfloor>x\<rfloor> + 1 \<le> \<lfloor>y\<rfloor>" by linarith
    then show ?thesis by (auto simp: round_half_even_def Let_def)
  qed
qed

lemma round_pos_bounds:
  assumes "0 < x"
  shows "2 powi exponent x \<le> round_pos x" and "round_pos x \<le> 2 powi (exponent x + 1)"
proof -
  let ?u = "2 powi (exponent x - 52) :: rat"
  have u: "0 < ?u" by simp
  have e: "2 powi exponent x = of_int (2 ^ 52) * ?u" "2 powi (exponent x + 1) = of_int (2 ^ 53) * ?u"
    by (simp_all add: power_int_diff power_int_add)
  have "of_int (2 ^ 52) \<le> x / ?u"
    using exponent_bounds(1) [OF assms] u e(1) by (simp add: pos_le_divide_eq)
  then have "2 ^ 52 \<le> round_half_even (x / ?u)" by (rule round_half_even_ge)
  then show "2 powi exponent x \<le> round_pos x"
    unfolding e(1) round_pos_def Let_def using u
    by (intro mult_right_mono) (simp_all only: of_int_le_iff less_imp_le)
  have "x / ?u \<le> of_int (2 ^ 53)"
    using exponent_bounds(2) [OF assms] u e(2) by (simp add: pos_divide_le_eq)
  then have "round_half_even (x / ?u) \<le> 2 ^ 53" by (rule round_half_even_le)
  then show "round_pos x \<le> 2 powi (exponent x + 1)"
    unfolding e(2) round_pos_def Let_def using u
    by (intro mult_right_mono) (simp_all only: of_int_le_iff less_imp_le)
qed

lemma powi_less_cancel: "(2 :: rat) powi a < 2 powi b \<Longrightarrow> a < b"
  by (meson not_le one_le_numeral power_int_increasing)

lemma round_pos_mono:
  assumes "0 < x" "x \<le> y"
  shows "round_pos x \<le> round_pos y"
proof -
  from assms have "0 < y" by simp
  have "2 powi exponent x < (2 :: rat) powi (exponent y + 1)"
    using exponent_bounds [OF \<open>0 < x\<close>] exponent_bounds [OF \<open>0 < y\<close>] assms by linarith
  then have ee: "exponent x \<le> exponent y" using powi_less_cancel by force
  show ?thesis
  proof (cases "exponent x = exponent y")
    case True
    let ?u = "2 powi (exponent y - 52) :: rat"
    have "round_half_even (x / ?u) \<le> round_half_even (y / ?u)"
      using assms by (intro round_half_even_mono divide_right_mono) simp_all
    then show ?thesis unfolding round_pos_def Let_def True
      by (intro mult_right_mono) simp_all
  next
    case False
    with ee have "2 powi (exponent x + 1) \<le> (2 :: rat) powi exponent y"
      by (intro power_int_increasing) auto
    with round_pos_bounds [OF \<open>0 < x\<close>] round_pos_bounds [OF \<open>0 < y\<close>] show ?thesis by linarith
  qed
qed

lemma round_pos_positive: "0 < x \<Longrightarrow> 0 < round_pos x"
  using round_pos_bounds(1) [of x] by (meson less_le_trans zero_less_numeral zero_less_power_int)

lemma float64_mono: "x \<le> y \<Longrightarrow> float64 x \<le> float64 y"
  using round_pos_mono [of x y] round_pos_mono [of "- y" "- x"] round_pos_positive [of y]
    round_pos_positive [of "- x"]
  by (auto simp: float64_def)

lemma float64_sign [simp]: "0 \<le> float64 x \<longleftrightarrow> 0 \<le> x" "float64 x < 0 \<longleftrightarrow> x < 0" "0 < float64 x \<longleftrightarrow> 0 < x"
  using round_pos_positive [of x] round_pos_positive [of "- x"] by (auto simp: float64_def)


subsection \<open>The controller\<close>

record RolloutController =
  rc_Percentage :: int
  rc_PercentageSplitPoint :: rat
  rc_Allowlist :: "string list"

definition maxHashValue :: rat where
  "maxHashValue = float64 (of_nat (unat (0xFFFFFFFF :: 32 word)))"

definition NewRolloutController :: "int \<Rightarrow> string list \<Rightarrow> RolloutController" where
  "NewRolloutController percentage allowlist =
     (let percentageSplitPoint = float64 (maxHashValue * float64 (float64 (of_int percentage) / 100))
      in \<lparr>rc_Percentage = percentage, rc_PercentageSplitPoint = percentageSplitPoint,
          rc_Allowlist = allowlist\<rparr>)"

text \<open>FNV-1a, 32 bit, as \<open>hash/fnv\<close> computes it.\<close>

definition fnv32a_byte :: "32 word \<Rightarrow> byte \<Rightarrow> 32 word" where
  "fnv32a_byte hash c = (hash XOR of_nat (of_char c)) * 16777619"

definition hashForValue :: "string \<Rightarrow> 32 word" where
  "hashForValue value = foldl fnv32a_byte 2166136261 value"

definition RolloutCookieName :: string where
  "RolloutCookieName = ''kamal-rollout''"

definition splitValue :: "Request \<Rightarrow> string" where
  "splitValue r = (case Request_Cookie r RolloutCookieName of None \<Rightarrow> [] | Some v \<Rightarrow> v)"

definition valueInAllowlist :: "RolloutController \<Rightarrow> string \<Rightarrow> bool" where
  "valueInAllowlist rc value \<longleftrightarrow> value \<in> set (rc_Allowlist rc)"

definition valueInRolloutPercentage :: "RolloutController \<Rightarrow> string \<Rightarrow> bool" where
  "valueInRolloutPercentage rc value \<longleftrightarrow>
     of_nat (unat (hashForValue value)) \<le> rc_PercentageSplitPoint rc"

definition RequestUsesRolloutGroup :: "RolloutController \<Rightarrow> Request \<Rightarrow> bool" where
  "RequestUsesRolloutGroup rc r =
     (let splitValue = splitValue r
      in if splitValue = [] then False
         else if valueInAllowlist rc splitValue then True
         else valueInRolloutPercentage rc splitValue)"

lemma round_half_even_of_int [simp]: "round_half_even (of_int k) = k"
  by (simp add: round_half_even_def)

lemma float64_of_int:
  assumes "0 < k" "k < 2 ^ 53"
  shows "float64 (of_int k) = of_int k"
proof -
  let ?e = "exponent (of_int k)"
  have "2 powi ?e \<le> (of_int k :: rat)" using assms by (intro exponent_bounds) simp
  also have "\<dots> < of_int (2 ^ 53)" using assms(2) by (simp only: of_int_less_iff)
  finally have "(2 :: rat) powi ?e < 2 powi 53" by (simp add: power_int_def)
  then have e: "?e \<le> 52" using powi_less_cancel [of ?e 53] by simp
  have "of_int k / 2 powi (?e - 52) = (of_int k * 2 powi (52 - ?e) :: rat)"
    by (simp add: power_int_diff field_simps)
  also have "\<dots> = of_int (k * 2 ^ nat (52 - ?e))" using e by (simp add: power_int_def)
  finally have q: "of_int k / 2 powi (?e - 52) = (of_int (k * 2 ^ nat (52 - ?e)) :: rat)" .
  then have "round_pos (of_int k) = of_int k"
    unfolding round_pos_def Let_def q round_half_even_of_int unfolding q [symmetric] by simp
  with assms(1) show ?thesis by (simp add: float64_def)
qed

lemmas float64_ints = float64_of_int [of 1, simplified] float64_of_int [of 100, simplified]
  float64_of_int [of 4294967295, simplified]

lemma maxHashValue: "maxHashValue = 4294967295"
  by (simp add: maxHashValue_def float64_ints)

lemma split_point_mono:
  "p \<le> q \<Longrightarrow> rc_PercentageSplitPoint (NewRolloutController p al) \<le> rc_PercentageSplitPoint (NewRolloutController q al')"
  by (simp add: NewRolloutController_def Let_def maxHashValue)
     (intro float64_mono mult_left_mono divide_right_mono; simp)

lemma split_point_100: "rc_PercentageSplitPoint (NewRolloutController 100 al) = 4294967295"
  by (simp add: NewRolloutController_def Let_def maxHashValue float64_ints)

lemma split_point_0: "rc_PercentageSplitPoint (NewRolloutController 0 al) = 0"
  by (simp add: NewRolloutController_def float64_def)

lemma split_point_negative: "p < 0 \<Longrightarrow> rc_PercentageSplitPoint (NewRolloutController p al) < 0"
  by (simp add: NewRolloutController_def Let_def maxHashValue mult_less_0_iff divide_less_0_iff)

lemma unat_hash_le: "of_nat (unat (w :: 32 word)) \<le> (4294967295 :: rat)"
proof -
  have "unat w \<le> 4294967295" using unsigned_less [of w, where 'a = nat] by simp
  then show ?thesis by (metis of_nat_le_iff of_nat_numeral)
qed

text \<open>Raising the percentage never takes a client out of the rollout group: a request that
  uses the rollout targets at one percentage still uses them at any higher percentage with the same
  allowlist, rounding of the split point included.\<close>

theorem rollout_monotone:
  assumes "p \<le> q" and "RequestUsesRolloutGroup (NewRolloutController p al) r"
  shows "RequestUsesRolloutGroup (NewRolloutController q al) r"
proof -
  have "valueInAllowlist (NewRolloutController p al) = valueInAllowlist (NewRolloutController q al)"
    by (simp add: fun_eq_iff valueInAllowlist_def NewRolloutController_def Let_def)
  moreover have "valueInRolloutPercentage (NewRolloutController p al) v \<Longrightarrow>
      valueInRolloutPercentage (NewRolloutController q al) v" for v
    using split_point_mono [OF assms(1), of al al] by (simp add: valueInRolloutPercentage_def)
  ultimately show ?thesis
    using assms(2) by (auto simp: RequestUsesRolloutGroup_def Let_def split: if_splits)
qed

definition rollout_request :: "string \<Rightarrow> Request" where
  "rollout_request v = (get_request ''example.com'' ''/'')\<lparr>rq_Cookies := [(''kamal-rollout'', v)]\<rparr>"

lemma splitValue_rollout_request [simp]: "splitValue (rollout_request v) = v"
  by (simp add: splitValue_def Request_Cookie_def rollout_request_def RolloutCookieName_def)

theorem rollout_monotone_witness:
  "RequestUsesRolloutGroup (NewRolloutController 30 [''vip'']) (rollout_request ''vip'')"
  by (rule rollout_monotone [of 0])
     (simp_all add: RequestUsesRolloutGroup_def valueInAllowlist_def NewRolloutController_def Let_def)

text \<open>The ends of the scale: from 100 percent upward every client with a rollout cookie is in the
  group, below zero only the allowlist is, at zero only the allowlist and the values that hash to
  zero are; a client without a cookie never is.\<close>

theorem rollout_extremes:
  "(splitValue r = [] \<longrightarrow> \<not> RequestUsesRolloutGroup (NewRolloutController p al) r)
   \<and> (splitValue r \<noteq> [] \<and> 100 \<le> p \<longrightarrow> RequestUsesRolloutGroup (NewRolloutController p al) r)
   \<and> (splitValue r \<noteq> [] \<and> p < 0 \<longrightarrow>
        (RequestUsesRolloutGroup (NewRolloutController p al) r \<longleftrightarrow> splitValue r \<in> set al))
   \<and> (splitValue r \<noteq> [] \<longrightarrow>
        (RequestUsesRolloutGroup (NewRolloutController 0 al) r \<longleftrightarrow>
           splitValue r \<in> set al \<or> hashForValue (splitValue r) = 0))"
proof -
  have high: "valueInRolloutPercentage (NewRolloutController p al) v" if "100 \<le> p" for v
    using unat_hash_le [of "hashForValue v"] split_point_mono [OF that, of al al]
    by (simp add: valueInRolloutPercentage_def split_point_100)
  have low: "\<not> valueInRolloutPercentage (NewRolloutController p al) v" if "p < 0" for v
    using split_point_negative [OF that, of al] of_nat_0_le_iff [of "unat (hashForValue v)", where 'a = rat]
    unfolding valueInRolloutPercentage_def by linarith
  have zero: "valueInRolloutPercentage (NewRolloutController 0 al) v \<longleftrightarrow> hashForValue v = 0" for v
    by (simp only: valueInRolloutPercentage_def split_point_0 of_nat_le_0_iff unsigned_eq_0_iff)
  show ?thesis
    using high low zero
    by (auto simp: RequestUsesRolloutGroup_def Let_def valueInAllowlist_def NewRolloutController_def)
qed

theorem rollout_extremes_witness:
  "RequestUsesRolloutGroup (NewRolloutController 100 []) (rollout_request ''a'')
   \<and> \<not> RequestUsesRolloutGroup (NewRolloutController 100 [])  (rollout_request [])
   \<and> \<not> RequestUsesRolloutGroup (NewRolloutController (-1) []) (rollout_request ''a'')"
  using rollout_extremes [of "rollout_request ''a''" 100 "[]"]
    rollout_extremes [of "rollout_request []" 100 "[]"]
    rollout_extremes [of "rollout_request ''a''" "-1" "[]"] by simp

subsection \<open>The split point as an integer rule\<close>

lemma exponent_unique:
  assumes "2 powi e \<le> x" "x < 2 powi (e + 1)"
  shows "exponent x = e"
proof -
  have "(0 :: rat) < 2 powi e" by simp
  with assms have "0 < x" by linarith
  note b = exponent_bounds [OF this]
  have "exponent x < e + 1" using b(1) assms(2) by (intro powi_less_cancel) linarith
  moreover have "e < exponent x + 1" using b(2) assms(1) by (intro powi_less_cancel) linarith
  ultimately show ?thesis by simp
qed

lemma round_half_even_nearest:
  assumes "of_int m - 1 / 2 < x" "x < of_int m + 1 / 2"
  shows "round_half_even x = m"
proof -
  from assms have "\<lfloor>x\<rfloor> = m \<or> \<lfloor>x\<rfloor> = m - 1" by linarith
  with assms show ?thesis by (auto simp: round_half_even_def Let_def)
qed

lemma round_half_even_error: "\<bar>of_int (round_half_even x) - x\<bar> \<le> 1 / 2"
proof -
  have "of_int \<lfloor>x\<rfloor> \<le> x" "x < of_int \<lfloor>x\<rfloor> + 1" by linarith+
  then show ?thesis by (auto simp: round_half_even_def Let_def abs_le_iff)
qed

lemma float64_nearest:
  assumes "2 powi e \<le> x" "x < 2 powi (e + 1)"
    and "of_int m - 1 / 2 < x / 2 powi (e - 52)" "x / 2 powi (e - 52) < of_int m + 1 / 2"
  shows "float64 x = of_int m * 2 powi (e - 52)"
proof -
  have "(0 :: rat) < 2 powi e" by simp
  with assms(1) have "0 < x" by linarith
  with exponent_unique [OF assms(1,2)] round_half_even_nearest [OF assms(3,4)] show ?thesis
    by (simp add: float64_def round_pos_def Let_def)
qed

lemma float64_error:
  assumes "0 < x"
  shows "\<bar>float64 x - x\<bar> \<le> x / 2 ^ 53"
proof -
  let ?u = "2 powi (exponent x - 52) :: rat"
  have u: "0 < ?u" "2 ^ 52 * ?u \<le> x"
    using exponent_bounds(1) [OF assms] by (simp_all add: power_int_diff)
  have "float64 x - x = (of_int (round_half_even (x / ?u)) - x / ?u) * ?u"
    using assms u(1) by (simp add: float64_def round_pos_def Let_def algebra_simps)
  then have "\<bar>float64 x - x\<bar> = \<bar>of_int (round_half_even (x / ?u)) - x / ?u\<bar> * ?u"
    using u(1) by (simp add: abs_mult)
  also have "\<dots> \<le> 1 / 2 * ?u"
    using u(1) round_half_even_error by (intro mult_right_mono) auto
  finally show ?thesis using u by (simp add: field_simps)
qed

lemma split_point_error:
  assumes "0 < p" "p \<le> 100"
  shows "\<bar>rc_PercentageSplitPoint (NewRolloutController p al) - 4294967295 * of_int p / 100\<bar> < 1 / 100"
proof -
  define y where "y = (of_int p / 100 :: rat)"
  define z where "z = 4294967295 * float64 y"
  from assms have y: "0 < y" "y \<le> 1" by (simp_all add: y_def)
  have "float64 (of_int p) = of_int p" using assms by (intro float64_of_int) auto
  then have sp: "rc_PercentageSplitPoint (NewRolloutController p al) = float64 z"
    by (simp add: NewRolloutController_def Let_def maxHashValue z_def y_def)
  have "\<bar>float64 y - y\<bar> \<le> y / 2 ^ 53" by (rule float64_error [OF y(1)])
  with y float64_mono [of y 1] have fy: "0 < float64 y" "float64 y \<le> 1" "\<bar>float64 y - y\<bar> \<le> 1 / 2 ^ 53"
    by (simp_all add: float64_ints)
  then have z: "0 < z" "z \<le> 4294967295" by (simp_all add: z_def)
  from float64_error [OF z(1)] z(2) have "\<bar>float64 z - z\<bar> \<le> 4294967295 / 2 ^ 53"
    by (simp add: field_simps)
  moreover have "\<bar>z - 4294967295 * y\<bar> \<le> 4294967295 / 2 ^ 53"
    using fy(3) abs_mult [of 4294967295 "float64 y - y"] by (simp add: z_def right_diff_distrib)
  moreover have "4294967295 / 2 ^ 53 < (1 / 200 :: rat)" by simp
  ultimately have "\<bar>float64 z - 4294967295 * y\<bar> < 1 / 100"
    using abs_triangle_ineq [of "float64 z - z" "z - 4294967295 * y"] by simp
  then show ?thesis by (simp add: sp y_def)
qed

lemma split_point_via:
  "float64 (of_int p / 100) = y \<Longrightarrow> float64 (4294967295 * y) = v \<Longrightarrow> 0 < p \<Longrightarrow> p < 2 ^ 53 \<Longrightarrow>
   rc_PercentageSplitPoint (NewRolloutController p al) = v"
  by (simp add: NewRolloutController_def Let_def maxHashValue float64_of_int)

lemma split_point_20: "rc_PercentageSplitPoint (NewRolloutController 20 al) = 858993459"
proof (rule split_point_via)
  show "float64 (of_int 20 / 100) = of_int 7205759403792794 / 2 ^ 55"
    by (subst float64_nearest [of "-3" _ 7205759403792794]) (simp_all add: power_int_def power_divide)
  show "float64 (4294967295 * (of_int 7205759403792794 / 2 ^ 55)) = 858993459"
    by (subst float64_nearest [of 29 _ 7205759402115072]) (simp_all add: power_int_def power_divide)
qed simp_all

lemma split_point_40: "rc_PercentageSplitPoint (NewRolloutController 40 al) = 1717986918"
proof (rule split_point_via)
  show "float64 (of_int 40 / 100) = of_int 7205759403792794 / 2 ^ 54"
    by (subst float64_nearest [of "-2" _ 7205759403792794]) (simp_all add: power_int_def power_divide)
  show "float64 (4294967295 * (of_int 7205759403792794 / 2 ^ 54)) = 1717986918"
    by (subst float64_nearest [of 30 _ 7205759402115072]) (simp_all add: power_int_def power_divide)
qed simp_all

lemma split_point_60: "rc_PercentageSplitPoint (NewRolloutController 60 al) = 2576980377"
proof (rule split_point_via)
  show "float64 (of_int 60 / 100) = of_int 5404319552844595 / 2 ^ 53"
    by (subst float64_nearest [of "-1" _ 5404319552844595]) (simp_all add: power_int_def power_divide)
  show "float64 (4294967295 * (of_int 5404319552844595 / 2 ^ 53)) = 2576980377"
    by (subst float64_nearest [of 31 _ 5404319551586304]) (simp_all add: power_int_def power_divide)
qed simp_all

lemma split_point_80: "rc_PercentageSplitPoint (NewRolloutController 80 al) = 3435973836"
proof (rule split_point_via)
  show "float64 (of_int 80 / 100) = of_int 7205759403792794 / 2 ^ 53"
    by (subst float64_nearest [of "-1" _ 7205759403792794]) (simp_all add: power_int_def power_divide)
  show "float64 (4294967295 * (of_int 7205759403792794 / 2 ^ 53)) = 3435973836"
    by (subst float64_nearest [of 31 _ 7205759402115072]) (simp_all add: power_int_def power_divide)
qed simp_all

lemmas split_points = split_point_20 split_point_40 split_point_60 split_point_80 split_point_100 split_point_0

lemma split_point_integer:
  assumes "0 \<le> p" "p \<le> 100"
  shows "of_int a \<le> rc_PercentageSplitPoint (NewRolloutController p al) \<longleftrightarrow> a * 100 \<le> 4294967295 * p"
proof (cases "p \<in> {0, 20, 40, 60, 80, 100}")
  case True
  from True show ?thesis by (auto simp: split_points)
next
  case False
  let ?s = "rc_PercentageSplitPoint (NewRolloutController p al)"
  from False assms have err: "\<bar>?s - 4294967295 * of_int p / 100\<bar> < 1 / 100"
    by (intro split_point_error) auto
  have nd: "a * 100 \<noteq> 4294967295 * p"
  proof
    assume "a * 100 = 4294967295 * p"
    then have "5 * (20 * (p - a + 42949672 * p)) = 5 * p" by (simp add: algebra_simps)
    then have k: "p = 20 * (p - a + 42949672 * p)" by simp
    moreover from k assms have "p - a + 42949672 * p \<in> {0 .. 5}" by simp
    then have "p - a + 42949672 * p \<in> {0, 1, 2, 3, 4, 5}" by auto
    ultimately have "p \<in> {0, 20, 40, 60, 80, 100}" by auto
    with False show False ..
  qed
  from err have s: "4294967295 * of_int p - 1 < 100 * ?s" "100 * ?s < 4294967295 * of_int p + 1"
    unfolding abs_less_iff by linarith+
  show ?thesis
  proof
    assume "of_int a \<le> ?s"
    with s(2) have "of_int (a * 100) < (of_int (4294967295 * p + 1) :: rat)" by simp
    then show "a * 100 \<le> 4294967295 * p" by (simp only: of_int_less_iff)
  next
    assume "a * 100 \<le> 4294967295 * p"
    with nd have "a * 100 \<le> 4294967295 * p - 1" by simp
    then have "of_int (a * 100) \<le> (of_int (4294967295 * p - 1) :: rat)" by (simp only: of_int_le_iff)
    with s(1) show "of_int a \<le> ?s" by simp
  qed
qed

text \<open>C23: for every percentage from 0 to 100 the floating-point split decides exactly as the integer
  rule "hash * 100 is at most percentage * (2^32 - 1)": the two roundings of the split point never
  move a client across the boundary.\<close>

theorem rollout_split_exact:
  assumes "0 \<le> p" "p \<le> 100"
  shows "RequestUsesRolloutGroup (NewRolloutController p al) r \<longleftrightarrow>
     splitValue r \<noteq> [] \<and>
       (splitValue r \<in> set al \<or> uint (hashForValue (splitValue r)) * 100 \<le> 4294967295 * p)"
proof -
  have "valueInRolloutPercentage (NewRolloutController p al) v \<longleftrightarrow>
      uint (hashForValue v) * 100 \<le> 4294967295 * p" for v
    using split_point_integer [OF assms, of "uint (hashForValue v)" al]
    by (simp add: valueInRolloutPercentage_def)
  then show ?thesis
    by (auto simp: RequestUsesRolloutGroup_def Let_def valueInAllowlist_def NewRolloutController_def)
qed

theorem rollout_split_exact_witness:
  "RequestUsesRolloutGroup (NewRolloutController 60 []) (rollout_request ''1'') \<longleftrightarrow>
     uint (hashForValue ''1'') * 100 \<le> 4294967295 * 60"
  using rollout_split_exact [of 60 "[]" "rollout_request ''1''"] by simp

end
