(* ===== verification/Pausing.thy ===== *)
theory Pausing
  imports Prelude
begin

section \<open>The pause controller\<close>

text \<open>
  Models \<open>internal/server/pause_controller.go\<close>: the state of a service (running, paused,
  stopped), the channel that requests held by a pause wait on, and the three operators' commands.
  Channels are numbers; a channel store records which have been made and which are closed, so
  that closing a nil or an already closed channel is the panic it is in Go. Requests that call
  \<open>Wait\<close> run concurrently with the commands: \<open>pause_step\<close> interleaves them, one lock-protected
  section of the source per step.
\<close>

datatype PauseState = PauseStateRunning | PauseStatePaused | PauseStateStopped

fun PauseState_String :: "PauseState \<Rightarrow> string" where
  "PauseState_String PauseStateRunning = ''running''"
| "PauseState_String PauseStatePaused = ''paused''"
| "PauseState_String PauseStateStopped = ''stopped''"

datatype PauseWaitAction = PauseWaitActionProceed | PauseWaitActionTimedOut | PauseWaitActionStopped

record PauseController =
  pc_State :: PauseState
  pc_StopMessage :: string
  pc_FailAfter :: duration
  pc_pauseChannel :: "nat option"

record Channels =
  ch_next :: nat
  ch_closed :: "nat set"

definition make_chan :: "Channels \<Rightarrow> nat \<times> Channels" where
  "make_chan h = (ch_next h, h\<lparr>ch_next := Suc (ch_next h)\<rparr>)"

definition close_chan :: "nat option \<Rightarrow> Channels \<Rightarrow> Channels outcome" where
  "close_chan c h =
     (case c of
        None \<Rightarrow> Panics ''close of nil channel''
      | Some n \<Rightarrow> if n \<in> ch_closed h then Panics ''close of closed channel''
                  else Returns (h\<lparr>ch_closed := insert n (ch_closed h)\<rparr>))"

definition NewPauseController :: PauseController where
  "NewPauseController =
     \<lparr>pc_State = PauseStateRunning, pc_StopMessage = [], pc_FailAfter = 0, pc_pauseChannel = None\<rparr>"

definition setState ::
  "PauseState \<Rightarrow> string \<Rightarrow> PauseController \<times> Channels \<Rightarrow> (PauseController \<times> Channels) outcome" where
  "setState newState message = (\<lambda>(p, h).
     bind_outcome
       (if pc_State p \<noteq> newState \<and> pc_State p = PauseStatePaused
        then close_chan (pc_pauseChannel p) h else Returns h)
       (\<lambda>h'. Returns (p\<lparr>pc_StopMessage := message, pc_State := newState\<rparr>, h')))"

definition PauseController_Stop ::
  "string \<Rightarrow> PauseController \<times> Channels \<Rightarrow> (PauseController \<times> Channels) outcome" where
  "PauseController_Stop message = setState PauseStateStopped message"

definition PauseController_Pause ::
  "duration \<Rightarrow> PauseController \<times> Channels \<Rightarrow> PauseController \<times> Channels" where
  "PauseController_Pause failAfter = (\<lambda>(p, h).
     let (p1, h1) = (if pc_State p \<noteq> PauseStatePaused
                     then (let (c, h') = make_chan h in (p\<lparr>pc_pauseChannel := Some c\<rparr>, h'))
                     else (p, h))
     in (p1\<lparr>pc_State := PauseStatePaused, pc_StopMessage := [], pc_FailAfter := failAfter\<rparr>, h1))"

definition PauseController_Resume ::
  "PauseController \<times> Channels \<Rightarrow> (PauseController \<times> Channels) outcome" where
  "PauseController_Resume = setState PauseStateRunning []"

text \<open>Decoding from JSON fills the exported fields and then re-enters the decoded state; the
  channel is not part of the JSON and starts as nil.\<close>

definition PauseController_UnmarshalJSON ::
  "PauseState \<Rightarrow> string \<Rightarrow> duration \<Rightarrow> Channels \<Rightarrow> (PauseController \<times> Channels) outcome" where
  "PauseController_UnmarshalJSON state msg failAfter h =
     (let p = \<lparr>pc_State = state, pc_StopMessage = msg, pc_FailAfter = failAfter, pc_pauseChannel = None\<rparr>
      in case pc_State p of
           PauseStateRunning \<Rightarrow> PauseController_Resume (p, h)
         | PauseStatePaused \<Rightarrow> Returns (PauseController_Pause (pc_FailAfter p) (p, h))
         | PauseStateStopped \<Rightarrow> PauseController_Stop (pc_StopMessage p) (p, h))"

text \<open>\<open>getWaitState\<close>: state, message, the channel and the deadline a waiter will select on.\<close>

definition getWaitState ::
  "instant \<Rightarrow> PauseController \<Rightarrow> PauseState \<times> string \<times> nat option \<times> instant option" where
  "getWaitState now p =
     (if pc_State p = PauseStatePaused
      then (PauseStatePaused, [], pc_pauseChannel p, Some (now + pc_FailAfter p))
      else (pc_State p, pc_StopMessage p, None, None))"

text \<open>
  \<open>Wait\<close> in its blocking points: \<open>Wait_begin\<close> runs up to the \<open>select\<close>, \<open>Wait_woken\<close> is the
  \<open>GetState\<close> after the channel was closed, and a stopped waiter reads the message in a lock
  section of its own.
\<close>

datatype WaitStatus =
    WaitSelecting "nat option" instant
  | WaitReadingMessage
  | WaitDone PauseWaitAction string

definition Wait_begin :: "instant \<Rightarrow> PauseController \<Rightarrow> WaitStatus" where
  "Wait_begin now p =
     (case getWaitState now p of (state, stopMessage, pauseChannel, failAt) \<Rightarrow>
        (case state of
           PauseStateRunning \<Rightarrow> WaitDone PauseWaitActionProceed []
         | PauseStateStopped \<Rightarrow> WaitDone PauseWaitActionStopped stopMessage
         | PauseStatePaused \<Rightarrow> WaitSelecting pauseChannel (case failAt of Some d \<Rightarrow> d | None \<Rightarrow> now)))"

definition Wait_woken :: "PauseController \<Rightarrow> WaitStatus" where
  "Wait_woken p =
     (case pc_State p of
        PauseStateStopped \<Rightarrow> WaitReadingMessage
      | _ \<Rightarrow> WaitDone PauseWaitActionProceed [])"

subsection \<open>Commands and waiting requests, interleaved\<close>

record PauseSys =
  ps_ctl :: PauseController
  ps_chans :: Channels
  ps_waiters :: "nat \<Rightarrow> WaitStatus option"
  ps_clock :: instant
  ps_crashed :: bool

definition pause_start :: "PauseSys \<Rightarrow> bool" where
  "pause_start s \<longleftrightarrow> ps_ctl s = NewPauseController \<and> ps_chans s = \<lparr>ch_next = 0, ch_closed = {}\<rparr>
     \<and> ps_waiters s = Map.empty \<and> \<not> ps_crashed s"

definition run_command ::
  "(PauseController \<times> Channels \<Rightarrow> (PauseController \<times> Channels) outcome) \<Rightarrow> PauseSys \<Rightarrow> PauseSys" where
  "run_command f s =
     (case f (ps_ctl s, ps_chans s) of
        Returns (p, h) \<Rightarrow> s\<lparr>ps_ctl := p, ps_chans := h\<rparr>
      | Panics _ \<Rightarrow> s\<lparr>ps_crashed := True\<rparr>)"

inductive pause_step :: "PauseSys \<Rightarrow> PauseSys \<Rightarrow> bool" where
  cmd_pause: "\<not> ps_crashed s \<Longrightarrow>
     pause_step s (run_command (\<lambda>x. Returns (PauseController_Pause d x)) s)"
| cmd_resume: "\<not> ps_crashed s \<Longrightarrow> pause_step s (run_command PauseController_Resume s)"
| cmd_stop: "\<not> ps_crashed s \<Longrightarrow> pause_step s (run_command (PauseController_Stop msg) s)"
| tick: "ps_clock s \<le> t \<Longrightarrow> pause_step s (s\<lparr>ps_clock := t\<rparr>)"
| wait: "\<not> ps_crashed s \<Longrightarrow> ps_waiters s i = None \<Longrightarrow>
     pause_step s (s\<lparr>ps_waiters := (ps_waiters s)(i \<mapsto> Wait_begin (ps_clock s) (ps_ctl s))\<rparr>)"
| woken: "\<not> ps_crashed s \<Longrightarrow> ps_waiters s i = Some (WaitSelecting (Some c) d) \<Longrightarrow>
     c \<in> ch_closed (ps_chans s) \<Longrightarrow>
     pause_step s (s\<lparr>ps_waiters := (ps_waiters s)(i \<mapsto> Wait_woken (ps_ctl s))\<rparr>)"
| message: "\<not> ps_crashed s \<Longrightarrow> ps_waiters s i = Some WaitReadingMessage \<Longrightarrow>
     pause_step s (s\<lparr>ps_waiters := (ps_waiters s)
       (i \<mapsto> WaitDone PauseWaitActionStopped (pc_StopMessage (ps_ctl s)))\<rparr>)"
| expired: "\<not> ps_crashed s \<Longrightarrow> ps_waiters s i = Some (WaitSelecting c d) \<Longrightarrow> d \<le> ps_clock s \<Longrightarrow>
     pause_step s (s\<lparr>ps_waiters := (ps_waiters s)(i \<mapsto> WaitDone PauseWaitActionTimedOut [])\<rparr>)"

inductive_cases pause_stepE: "pause_step s t"

text \<open>
  What the controller keeps true: while paused there is an open channel; every waiting request
  holds a channel that is either already closed or the one the pause in force will close.
\<close>

definition ctl_ok :: "PauseController \<Rightarrow> Channels \<Rightarrow> bool" where
  "ctl_ok p h \<longleftrightarrow>
     (pc_State p = PauseStatePaused \<longrightarrow>
        (\<exists>c. pc_pauseChannel p = Some c \<and> c \<notin> ch_closed h \<and> c < ch_next h))
     \<and> (\<forall>c \<in> ch_closed h. c < ch_next h)"

definition waiter_ok :: "PauseController \<Rightarrow> Channels \<Rightarrow> WaitStatus \<Rightarrow> bool" where
  "waiter_ok p h w \<longleftrightarrow>
     (case w of
        WaitSelecting None d \<Rightarrow> False
      | WaitSelecting (Some c) d \<Rightarrow>
          c < ch_next h \<and> (c \<notin> ch_closed h \<longrightarrow> pc_State p = PauseStatePaused \<and> pc_pauseChannel p = Some c)
      | _ \<Rightarrow> True)"

definition pause_inv :: "PauseSys \<Rightarrow> bool" where
  "pause_inv s \<longleftrightarrow> \<not> ps_crashed s \<and> ctl_ok (ps_ctl s) (ps_chans s)
     \<and> (\<forall>i w. ps_waiters s i = Some w \<longrightarrow> waiter_ok (ps_ctl s) (ps_chans s) w)"

lemmas pause_defs = setState_def PauseController_Stop_def PauseController_Pause_def
  PauseController_Resume_def make_chan_def close_chan_def

lemma setState_keeps:
  assumes "ctl_ok p h" and "st \<noteq> PauseStatePaused"
  obtains p' h' where "setState st msg (p, h) = Returns (p', h')" and "ctl_ok p' h'"
    and "\<And>w. waiter_ok p h w \<Longrightarrow> waiter_ok p' h' w"
    and "pc_State p' = st" and "pc_StopMessage p' = msg"
proof (cases "pc_State p = PauseStatePaused")
  case True
  with assms obtain c where c: "pc_pauseChannel p = Some c" "c \<notin> ch_closed h" "c < ch_next h"
    by (auto simp: ctl_ok_def)
  show ?thesis
    by (rule that [of "p\<lparr>pc_StopMessage := msg, pc_State := st\<rparr>"
                      "h\<lparr>ch_closed := insert c (ch_closed h)\<rparr>"])
       (use assms True c in \<open>auto simp: setState_def close_chan_def ctl_ok_def waiter_ok_def
          split: WaitStatus.splits option.splits\<close>)
next
  case False
  show ?thesis
    by (rule that [of "p\<lparr>pc_StopMessage := msg, pc_State := st\<rparr>" h])
       (use assms False in \<open>auto simp: setState_def ctl_ok_def waiter_ok_def
          split: WaitStatus.splits option.splits\<close>)
qed

lemma Pause_keeps:
  assumes "ctl_ok p h" and "PauseController_Pause d (p, h) = (p', h')"
  shows "ctl_ok p' h'" and "waiter_ok p h w \<Longrightarrow> waiter_ok p' h' w"
proof -
  show "ctl_ok p' h'"
    using assms by (fastforce simp: pause_defs ctl_ok_def Let_def split: if_splits)
  assume "waiter_ok p h w"
  then show "waiter_ok p' h' w"
    using assms by (auto simp: pause_defs ctl_ok_def waiter_ok_def Let_def
        split: if_splits WaitStatus.splits option.splits)
qed

lemma Wait_begin_ok: "ctl_ok p h \<Longrightarrow> waiter_ok p h (Wait_begin now p)"
  by (auto simp: Wait_begin_def getWaitState_def ctl_ok_def waiter_ok_def
      split: PauseState.splits if_splits)

lemma run_command_inv:
  assumes "pause_inv s"
    and "\<exists>p' h'. f (ps_ctl s, ps_chans s) = Returns (p', h') \<and> ctl_ok p' h'
           \<and> (\<forall>w. waiter_ok (ps_ctl s) (ps_chans s) w \<longrightarrow> waiter_ok p' h' w)"
  shows "pause_inv (run_command f s)"
  using assms by (fastforce simp: pause_inv_def run_command_def)

lemma set_waiter_inv:
  "pause_inv s \<Longrightarrow> waiter_ok (ps_ctl s) (ps_chans s) w \<Longrightarrow>
   pause_inv (s\<lparr>ps_waiters := (ps_waiters s)(i \<mapsto> w)\<rparr>)"
  by (auto simp: pause_inv_def)

lemma setState_command_inv:
  "pause_inv s \<Longrightarrow> st \<noteq> PauseStatePaused \<Longrightarrow> pause_inv (run_command (setState st msg) s)"
  by (rule run_command_inv, assumption)
     (rule setState_keeps [of "ps_ctl s" "ps_chans s" st msg], auto simp: pause_inv_def)

lemma pause_step_inv: "pause_inv s \<Longrightarrow> pause_step s t \<Longrightarrow> pause_inv t"
proof (erule pause_stepE)
  fix d assume inv: "pause_inv s" and t: "t = run_command (\<lambda>x. Returns (PauseController_Pause d x)) s"
  obtain p' h' where e: "PauseController_Pause d (ps_ctl s, ps_chans s) = (p', h')"
    by (cases "PauseController_Pause d (ps_ctl s, ps_chans s)")
  from inv have "ctl_ok (ps_ctl s) (ps_chans s)" by (simp add: pause_inv_def)
  from Pause_keeps [OF this e] inv show "pause_inv t"
    unfolding t by (intro run_command_inv) (auto simp: e)
qed (auto simp: PauseController_Resume_def PauseController_Stop_def
      intro!: setState_command_inv set_waiter_inv Wait_begin_ok,
     auto simp: pause_inv_def waiter_ok_def Wait_woken_def split: PauseState.splits)

lemma pause_start_inv: "pause_start s \<Longrightarrow> pause_inv s"
  by (simp add: pause_start_def pause_inv_def ctl_ok_def NewPauseController_def)

interpretation pausing: kept_invariant pause_start pause_step pause_inv
  by unfold_locales (auto intro: pause_start_inv pause_step_inv)

subsection \<open>Properties\<close>

text \<open>C17: whatever commands are issued and however requests interleave with them, the controller of
  a service created by the running proxy never closes a nil or an already closed channel, that is,
  it never panics.\<close>

theorem pause_never_panics:
  assumes "reach pause_start pause_step s"
  shows "\<not> ps_crashed s
    \<and> returns (PauseController_Resume (ps_ctl s, ps_chans s))
    \<and> returns (PauseController_Stop msg (ps_ctl s, ps_chans s))"
proof -
  from assms have inv: "pause_inv s" by (rule pausing.reach_inv)
  then have ok: "ctl_ok (ps_ctl s) (ps_chans s)" by (simp add: pause_inv_def)
  have "returns (setState st m (ps_ctl s, ps_chans s))" if "st \<noteq> PauseStatePaused" for st m
    by (rule setState_keeps [OF ok that, of m]) simp
  with inv show ?thesis
    by (simp add: pause_inv_def PauseController_Resume_def PauseController_Stop_def)
qed

lemma waiter_released:
  assumes "pause_inv s" "ps_waiters s i = Some (WaitSelecting c d)" "st \<noteq> PauseStatePaused"
    and t: "t = run_command (setState st msg) s"
  shows "pc_State (ps_ctl t) = st" "pc_StopMessage (ps_ctl t) = msg"
    and "\<exists>n. ps_waiters t i = Some (WaitSelecting (Some n) d) \<and> n \<in> ch_closed (ps_chans t)"
    and "\<not> ps_crashed t"
proof -
  from assms(1) have ok: "ctl_ok (ps_ctl s) (ps_chans s)" by (simp add: pause_inv_def)
  from setState_keeps [OF ok assms(3), of msg] obtain p' h' where
    r: "setState st msg (ps_ctl s, ps_chans s) = Returns (p', h')" and
    w: "\<And>w. waiter_ok (ps_ctl s) (ps_chans s) w \<Longrightarrow> waiter_ok p' h' w" and
    st: "pc_State p' = st" "pc_StopMessage p' = msg" by metis
  have t': "t = s\<lparr>ps_ctl := p', ps_chans := h'\<rparr>" by (simp add: t run_command_def r)
  show "pc_State (ps_ctl t) = st" "pc_StopMessage (ps_ctl t) = msg" using st by (simp_all add: t')
  show "\<not> ps_crashed t" using assms(1) by (simp add: t' pause_inv_def)
  have "waiter_ok p' h' (WaitSelecting c d)" using assms(1,2) w by (auto simp: pause_inv_def)
  then show "\<exists>n. ps_waiters t i = Some (WaitSelecting (Some n) d) \<and> n \<in> ch_closed (ps_chans t)"
    using assms(2,3) st by (auto simp: t' waiter_ok_def split: option.splits)
qed

text \<open>C18: resuming a service releases every request that a pause holds: each waiting request can
  take its next step at once and proceeds; none is left waiting on a channel that nobody will
  close.\<close>

theorem resume_releases_waiters:
  assumes "reach pause_start pause_step s" and "ps_waiters s i = Some (WaitSelecting c d)"
  shows "\<exists>t. t = run_command PauseController_Resume s
     \<and> pause_step s t
     \<and> pause_step t (t\<lparr>ps_waiters := (ps_waiters t)(i \<mapsto> WaitDone PauseWaitActionProceed [])\<rparr>)"
proof -
  let ?t = "run_command PauseController_Resume s"
  from assms(1) have inv: "pause_inv s" by (rule pausing.reach_inv)
  note rel = waiter_released [OF inv assms(2), of PauseStateRunning ?t "[]",
      OF _ PauseController_Resume_def [THEN arg_cong, of "\<lambda>f. run_command f s"]]
  from rel(3) obtain n where "ps_waiters ?t i = Some (WaitSelecting (Some n) d)"
    "n \<in> ch_closed (ps_chans ?t)" by auto
  from pause_step.woken [OF _ this] rel(1,4)
  have "pause_step ?t (?t\<lparr>ps_waiters := (ps_waiters ?t)(i \<mapsto> WaitDone PauseWaitActionProceed [])\<rparr>)"
    by (simp add: Wait_woken_def)
  moreover have "pause_step s ?t" using inv by (auto simp: pause_inv_def intro: pause_step.cmd_resume)
  ultimately show ?thesis by blast
qed

text \<open>Stopping a paused service fails every held request immediately: each waiting request can
  step to the read of the stop message and then finishes as stopped with the message given to
  \<open>Stop\<close>.\<close>

theorem stop_fails_waiters:
  assumes "reach pause_start pause_step s" and "ps_waiters s i = Some (WaitSelecting c d)"
  shows "\<exists>t u. t = run_command (PauseController_Stop msg) s \<and> pause_step s t
     \<and> u = t\<lparr>ps_waiters := (ps_waiters t)(i \<mapsto> WaitReadingMessage)\<rparr> \<and> pause_step t u
     \<and> pause_step u (u\<lparr>ps_waiters := (ps_waiters u)(i \<mapsto> WaitDone PauseWaitActionStopped msg)\<rparr>)"
proof -
  let ?t = "run_command (PauseController_Stop msg) s"
  let ?u = "?t\<lparr>ps_waiters := (ps_waiters ?t)(i \<mapsto> WaitReadingMessage)\<rparr>"
  from assms(1) have inv: "pause_inv s" by (rule pausing.reach_inv)
  note rel = waiter_released [OF inv assms(2), of PauseStateStopped ?t msg,
      OF _ PauseController_Stop_def [THEN arg_cong, of "\<lambda>f. run_command f s"]]
  from rel(3) obtain n where "ps_waiters ?t i = Some (WaitSelecting (Some n) d)"
    "n \<in> ch_closed (ps_chans ?t)" by auto
  from pause_step.woken [OF _ this] rel(1,4) have "pause_step ?t ?u" by (simp add: Wait_woken_def)
  moreover have "pause_step ?u
      (?u\<lparr>ps_waiters := (ps_waiters ?u)(i \<mapsto> WaitDone PauseWaitActionStopped msg)\<rparr>)"
    using pause_step.message [of ?u i] rel(2,4) by simp
  moreover have "pause_step s ?t" using inv by (auto simp: pause_inv_def intro: pause_step.cmd_stop)
  ultimately show ?thesis by blast
qed

text \<open>C37: a controller that was saved while paused comes back from its JSON with no pause channel,
  because the decoded state is already "paused" when \<open>Pause\<close> decides whether to make one: the next
  \<open>Resume\<close> or \<open>Stop\<close> panics, and requests can only time out. Saved in any other state, it comes
  back in that state and both commands return.\<close>

theorem restored_controller:
  "\<exists>p h'. PauseController_UnmarshalJSON st msg d h = Returns (p, h') \<and> pc_State p = st
     \<and> pc_pauseChannel p = None
     \<and> (returns (PauseController_Resume (p, h')) \<longleftrightarrow> st \<noteq> PauseStatePaused)
     \<and> (returns (PauseController_Stop m (p, h')) \<longleftrightarrow> st \<noteq> PauseStatePaused)"
  by (cases st) (auto simp: PauseController_UnmarshalJSON_def pause_defs Let_def)

definition new_service :: PauseSys where
  "new_service = \<lparr>ps_ctl = NewPauseController, ps_chans = \<lparr>ch_next = 0, ch_closed = {}\<rparr>,
     ps_waiters = Map.empty, ps_clock = 5, ps_crashed = False\<rparr>"

definition paused_service :: PauseSys where
  "paused_service = run_command (\<lambda>x. Returns (PauseController_Pause 30 x)) new_service"

definition paused_with_waiter :: PauseSys where
  "paused_with_waiter = paused_service\<lparr>ps_waiters :=
     (ps_waiters paused_service)(7 \<mapsto> Wait_begin (ps_clock paused_service) (ps_ctl paused_service))\<rparr>"

lemma paused_with_waiter_reach: "reach pause_start pause_step paused_with_waiter"
proof -
  have "reach pause_start pause_step new_service"
    by (rule reach.reach_start) (simp add: pause_start_def new_service_def)
  moreover have "pause_step new_service paused_service"
    unfolding paused_service_def by (rule pause_step.cmd_pause) (simp add: new_service_def)
  moreover have "pause_step paused_service paused_with_waiter"
    unfolding paused_with_waiter_def
    by (rule pause_step.wait)
       (simp_all add: paused_service_def new_service_def run_command_def split: prod.splits)
  ultimately show ?thesis by (blast intro: reach.reach_step)
qed

lemma paused_with_waiter_waits: "ps_waiters paused_with_waiter 7 = Some (WaitSelecting (Some 0) 35)"
  by (simp add: paused_with_waiter_def paused_service_def new_service_def run_command_def pause_defs NewPauseController_def
      Wait_begin_def getWaitState_def Let_def)

theorem pause_never_panics_witness:
  "\<not> ps_crashed paused_with_waiter
    \<and> returns (PauseController_Resume (ps_ctl paused_with_waiter, ps_chans paused_with_waiter))
    \<and> returns (PauseController_Stop ''x'' (ps_ctl paused_with_waiter, ps_chans paused_with_waiter))"
  using pause_never_panics [OF paused_with_waiter_reach] .

theorem resume_releases_waiters_witness:
  "\<exists>t. t = run_command PauseController_Resume paused_with_waiter \<and> pause_step paused_with_waiter t
     \<and> pause_step t (t\<lparr>ps_waiters := (ps_waiters t)(7 \<mapsto> WaitDone PauseWaitActionProceed [])\<rparr>)"
  using resume_releases_waiters [OF paused_with_waiter_reach paused_with_waiter_waits] .

theorem stop_fails_waiters_witness:
  "\<exists>t u. t = run_command (PauseController_Stop ''down'') paused_with_waiter
     \<and> pause_step paused_with_waiter t
     \<and> u = t\<lparr>ps_waiters := (ps_waiters t)(7 \<mapsto> WaitReadingMessage)\<rparr> \<and> pause_step t u
     \<and> pause_step u (u\<lparr>ps_waiters := (ps_waiters u)(7 \<mapsto> WaitDone PauseWaitActionStopped ''down'')\<rparr>)"
  using stop_fails_waiters [OF paused_with_waiter_reach paused_with_waiter_waits] .

end
