(* ===== verification/Services.thy ===== *)
theory Services
  imports LoadBalancing Draining Rollout Pausing
begin

section \<open>Services\<close>

text \<open>
  Models \<open>internal/server/service.go\<close> and \<open>internal/server/cert.go\<close>: a service's options, its active
  and rollout balancers, its pause and rollout controllers, the decision for a request, and the
  state that is saved and restored. Certificates and error pages are read from disk: what loads is
  given by an \<open>Environment\<close>, with the requests that the ACME handler of \<open>autocert\<close> answers itself
  and whether the state file can be written. A Go pointer that may be nil is an option.
\<close>

datatype TargetSlot = TargetSlotActive | TargetSlotRollout

record Environment =
  env_certificate_loads :: "string \<Rightarrow> string \<Rightarrow> bool"
  env_error_pages_load :: "string \<Rightarrow> bool"
  env_scoped_cache_path :: "string \<Rightarrow> string \<Rightarrow> string"
  env_acme_handles :: "Request \<Rightarrow> bool"
  env_state_writable :: bool

text \<open>\<open>StaticCertManager\<close> with the files it was read from, or an \<open>autocert.Manager\<close> with its host
  whitelist, cache and directory.\<close>

datatype CertManager =
    StaticCertManager string string
  | AutocertManager "string list" string string

text \<open>The handler chain \<open>createMiddleware\<close> builds: the error pages and the certificate manager that
  wrap the service's own handler.\<close>

record Middleware =
  mw_errorPages :: "string option"
  mw_certManager :: "CertManager option"

record Service =
  sv_name :: string
  sv_options :: ServiceOptions
  sv_targetOptions :: TargetOptions
  sv_active :: "LoadBalancer option"
  sv_rollout :: "LoadBalancer option"
  sv_pauseController :: "PauseController option"
  sv_rolloutController :: "RolloutController option"
  sv_certManager :: "CertManager option"
  sv_middleware :: "Middleware option"

definition WithHosts :: "ServiceOptions \<Rightarrow> string list \<Rightarrow> ServiceOptions" where
  "WithHosts so hosts = so\<lparr>so_Hosts := hosts\<rparr>"

definition WithPathPrefixes :: "ServiceOptions \<Rightarrow> string list \<Rightarrow> ServiceOptions" where
  "WithPathPrefixes so pathPrefixes = so\<lparr>so_PathPrefixes := pathPrefixes\<rparr>"

text \<open>\<open>env_scoped_cache_path\<close> is \<open>path.Join\<close> of the cache path with the SHA-256 of the directory.\<close>

definition ScopedCachePath :: "Environment \<Rightarrow> ServiceOptions \<Rightarrow> string" where
  "ScopedCachePath env so = env_scoped_cache_path env (so_ACMECachePath so) (so_ACMEDirectory so)"

definition NewStaticCertManager :: "Environment \<Rightarrow> string \<Rightarrow> string \<Rightarrow> CertManager result" where
  "NewStaticCertManager env cert key =
     (if \<not> env_certificate_loads env cert key then Inl ErrorUnableToLoadCertificate
      else Inr (StaticCertManager cert key))"

definition createCertManager :: "Environment \<Rightarrow> ServiceOptions \<Rightarrow> CertManager option result" where
  "createCertManager env options =
     (if \<not> so_TLSEnabled options then Inr None
      else if so_TLSCertificatePath options \<noteq> [] \<and> so_TLSPrivateKeyPath options \<noteq> [] then
        map_sum id Some (NewStaticCertManager env (so_TLSCertificatePath options) (so_TLSPrivateKeyPath options))
      else if list_ex (\<lambda>host. Contains host ''*'') (so_Hosts options) then
        Inl ErrorAutomaticTLSDoesNotSupportWildcards
      else Inr (Some (AutocertManager (so_Hosts options) (ScopedCachePath env options) (so_ACMEDirectory options))))"

definition createMiddleware :: "Environment \<Rightarrow> ServiceOptions \<Rightarrow> CertManager option \<Rightarrow> Middleware result" where
  "createMiddleware env options certManager =
     (if so_ErrorPagePath options \<noteq> [] \<and> \<not> env_error_pages_load env (so_ErrorPagePath options)
      then Inl ErrorUnableToLoadErrorPages
      else Inr \<lparr>mw_errorPages = (if so_ErrorPagePath options \<noteq> [] then Some (so_ErrorPagePath options) else None),
                mw_certManager = certManager\<rparr>)"

text \<open>\<open>initialize\<close> leaves the service as it was when it fails.\<close>

definition initialize :: "Environment \<Rightarrow> Service \<Rightarrow> go_error option \<times> Service" where
  "initialize env s =
     (case createCertManager env (sv_options s) of
        Inl err \<Rightarrow> (Some err, s)
      | Inr certManager \<Rightarrow>
          (case createMiddleware env (sv_options s) certManager of
             Inl err \<Rightarrow> (Some err, s)
           | Inr middleware \<Rightarrow> (None, s\<lparr>sv_certManager := certManager, sv_middleware := Some middleware\<rparr>)))"

definition NewService :: "Environment \<Rightarrow> string \<Rightarrow> ServiceOptions \<Rightarrow> TargetOptions \<Rightarrow> go_error option \<times> Service" where
  "NewService env name options targetOptions =
     initialize env \<lparr>sv_name = name, sv_options = options, sv_targetOptions = targetOptions,
       sv_active = None, sv_rollout = None, sv_pauseController = Some NewPauseController,
       sv_rolloutController = None, sv_certManager = None, sv_middleware = None\<rparr>"

definition UpdateOptions :: "Environment \<Rightarrow> ServiceOptions \<Rightarrow> TargetOptions \<Rightarrow> Service \<Rightarrow> go_error option \<times> Service" where
  "UpdateOptions env options targetOptions s =
     initialize env (s\<lparr>sv_options := options, sv_targetOptions := targetOptions\<rparr>)"

text \<open>\<open>Dispose\<close> dereferences the active balancer.\<close>

definition Service_Dispose :: "Service \<Rightarrow> Service outcome" where
  "Service_Dispose s =
     (case sv_active s of
        None \<Rightarrow> Panics ''nil pointer dereference''
      | Some lb \<Rightarrow> Returns (s\<lparr>sv_active := Some (Dispose lb), sv_rollout := map_option Dispose (sv_rollout s)\<rparr>))"

definition UpdateLoadBalancer :: "LoadBalancer \<Rightarrow> TargetSlot \<Rightarrow> Service \<Rightarrow> LoadBalancer option \<times> Service" where
  "UpdateLoadBalancer lb slot s =
     (if slot = TargetSlotRollout then (sv_rollout s, s\<lparr>sv_rollout := Some lb\<rparr>)
      else (sv_active s, s\<lparr>sv_active := Some lb\<rparr>))"

definition Service_SetRolloutSplit :: "int \<Rightarrow> string list \<Rightarrow> Service \<Rightarrow> go_error option \<times> Service" where
  "Service_SetRolloutSplit percentage allowlist s =
     (if sv_rollout s = None then (Some ErrorRolloutTargetNotSet, s)
      else (None, s\<lparr>sv_rolloutController := Some (NewRolloutController percentage allowlist)\<rparr>))"

definition Service_StopRollout :: "Service \<Rightarrow> go_error option \<times> Service" where
  "Service_StopRollout s = (None, s\<lparr>sv_rolloutController := None\<rparr>)"

subsection \<open>Draining a whole service\<close>

text \<open>
  An uninterrupted run of \<open>Target.Drain\<close>: every request in flight has been cancelled (unless it
  ended before) and the state is back. \<open>drain_run\<close> below shows that the phases of \<open>Draining\<close>,
  run without interleaving until the deadline, do exactly this.
\<close>

definition Target_Drain :: "Target \<Rightarrow> ReqStore \<Rightarrow> ReqStore" where
  "Target_Drain t st =
     (if t_state t = TargetStateDraining then st
      else cancel_requests (\<lambda>_. True) (pendingRequestsToCancel t)
             (cancel_requests if_hijacked (pendingRequestsToCancel t) st))"

definition DrainAll :: "LoadBalancer \<Rightarrow> ReqStore \<Rightarrow> ReqStore" where
  "DrainAll lb st = foldl (\<lambda>st t. Target_Drain t st) st (lb_all lb)"

definition Service_Drain :: "Service \<Rightarrow> ReqStore \<Rightarrow> ReqStore outcome" where
  "Service_Drain s st =
     (case sv_active s of
        None \<Rightarrow> Panics ''nil pointer dereference''
      | Some lb \<Rightarrow>
          (let st1 = DrainAll lb st
           in Returns (case sv_rollout s of None \<Rightarrow> st1 | Some ro \<Rightarrow> DrainAll ro st1)))"

text \<open>The commands on the pause controller; a nil controller panics.\<close>

definition with_pause ::
  "(PauseController \<times> Channels \<Rightarrow> (PauseController \<times> Channels) outcome) \<Rightarrow>
     Service \<times> Channels \<Rightarrow> (Service \<times> Channels) outcome" where
  "with_pause f = (\<lambda>(s, h).
     case sv_pauseController s of
       None \<Rightarrow> Panics ''nil pointer dereference''
     | Some p \<Rightarrow> bind_outcome (f (p, h)) (\<lambda>(p', h'). Returns (s\<lparr>sv_pauseController := Some p'\<rparr>, h')))"

definition Service_Stop :: "string \<Rightarrow> Service \<times> Channels \<times> ReqStore \<Rightarrow> (Service \<times> Channels \<times> ReqStore) outcome" where
  "Service_Stop message = (\<lambda>(s, h, st).
     bind_outcome (with_pause (PauseController_Stop message) (s, h))
       (\<lambda>(s', h'). bind_outcome (Service_Drain s' st) (\<lambda>st'. Returns (s', h', st'))))"

definition Service_Pause :: "duration \<Rightarrow> Service \<times> Channels \<times> ReqStore \<Rightarrow> (Service \<times> Channels \<times> ReqStore) outcome" where
  "Service_Pause pauseTimeout = (\<lambda>(s, h, st).
     bind_outcome (with_pause (\<lambda>x. Returns (PauseController_Pause pauseTimeout x)) (s, h))
       (\<lambda>(s', h'). bind_outcome (Service_Drain s' st) (\<lambda>st'. Returns (s', h', st'))))"

definition Service_Resume :: "Service \<times> Channels \<times> ReqStore \<Rightarrow> (Service \<times> Channels \<times> ReqStore) outcome" where
  "Service_Resume = (\<lambda>(s, h, st).
     bind_outcome (with_pause PauseController_Resume (s, h)) (\<lambda>(s', h'). Returns (s', h', st)))"

subsection \<open>Serving a request\<close>

text \<open>What a request gets: a redirect, an error response (status and message of the error page), a
  bare status, or what a balancer decides.\<close>

datatype ServiceResponse =
    RedirectTo string
  | ErrorResponse int "string option"
  | PlainStatus int
  | Balanced TargetSlot StartDecision

definition loadBalancerForRequest :: "Service \<Rightarrow> Request \<Rightarrow> TargetSlot" where
  "loadBalancerForRequest s req =
     (if sv_rollout s \<noteq> None \<and>
         (case sv_rolloutController s of None \<Rightarrow> False | Some rc \<Rightarrow> RequestUsesRolloutGroup rc req)
      then TargetSlotRollout else TargetSlotActive)"

definition servesRootPath :: "Service \<Rightarrow> bool" where
  "servesRootPath s \<longleftrightarrow> rootPath \<in> set (so_PathPrefixes (sv_options s))"

definition shouldRedirectToHTTPS :: "Service \<Rightarrow> Request \<Rightarrow> bool" where
  "shouldRedirectToHTTPS s r \<longleftrightarrow>
     so_TLSEnabled (sv_options s) \<and> so_TLSRedirect (sv_options s) \<and> \<not> rq_TLS r"

definition redirectToHTTPS :: "Request \<Rightarrow> ServiceResponse" where
  "redirectToHTTPS r =
     (let host = (case SplitHostPort (rq_Host r) of None \<Rightarrow> rq_Host r | Some (h, _) \<Rightarrow> h)
      in RedirectTo (''https://'' @ host @ rq_RequestURI r))"

definition startLoadBalancerRequest ::
  "instant \<Rightarrow> nat \<Rightarrow> Request \<Rightarrow> Service \<times> ReqStore \<Rightarrow> (ServiceResponse \<times> Service \<times> ReqStore) outcome" where
  "startLoadBalancerRequest now rid r = (\<lambda>(s, st).
     case loadBalancerForRequest s r of
       TargetSlotRollout \<Rightarrow>
         (case sv_rollout s of
            None \<Rightarrow> Panics ''nil pointer dereference''
          | Some lb \<Rightarrow> (case LoadBalancer_StartRequest now rid r (lb, st) of
              (d, lb', st') \<Rightarrow> Returns (Balanced TargetSlotRollout d, s\<lparr>sv_rollout := Some lb'\<rparr>, st')))
     | TargetSlotActive \<Rightarrow>
         (case sv_active s of
            None \<Rightarrow> Panics ''nil pointer dereference''
          | Some lb \<Rightarrow> (case LoadBalancer_StartRequest now rid r (lb, st) of
              (d, lb', st') \<Rightarrow> Returns (Balanced TargetSlotActive d, s\<lparr>sv_active := Some lb'\<rparr>, st'))))"

text \<open>A request is answered, held by a pause, or goes on to the balancer.\<close>

datatype PauseVerdict = Answered ServiceResponse | HeldBy WaitStatus | GoesOn

fun after_wait :: "WaitStatus \<Rightarrow> PauseVerdict" where
  "after_wait (WaitDone PauseWaitActionStopped message) = Answered (ErrorResponse 503 (Some message))"
| "after_wait (WaitDone PauseWaitActionTimedOut _) = Answered (ErrorResponse 504 None)"
| "after_wait (WaitDone PauseWaitActionProceed _) = GoesOn"
| "after_wait w = HeldBy w"

definition handlePausedAndStoppedRequests :: "instant \<Rightarrow> PauseController \<Rightarrow> Service \<Rightarrow> Request \<Rightarrow> PauseVerdict" where
  "handlePausedAndStoppedRequests now p s r =
     (if pc_State p \<noteq> PauseStateRunning \<and> IsHealthCheckRequest (sv_targetOptions s) r
      then Answered (PlainStatus 200)
      else after_wait (Wait_begin now p))"

datatype ServiceAnswer = Answer ServiceResponse | Holding WaitStatus

definition serviceRequestWithTarget ::
  "instant \<Rightarrow> nat \<Rightarrow> Request \<Rightarrow> Service \<times> ReqStore \<Rightarrow> (ServiceAnswer \<times> Service \<times> ReqStore) outcome" where
  "serviceRequestWithTarget now rid r = (\<lambda>(s, st).
     if shouldRedirectToHTTPS s r then Returns (Answer (redirectToHTTPS r), s, st)
     else if \<not> so_TLSEnabled (sv_options s) \<and> rq_TLS r then Returns (Answer (ErrorResponse 503 None), s, st)
     else case sv_pauseController s of
       None \<Rightarrow> Panics ''nil pointer dereference''
     | Some p \<Rightarrow>
         (case handlePausedAndStoppedRequests now p s r of
            Answered resp \<Rightarrow> Returns (Answer resp, s, st)
          | HeldBy w \<Rightarrow> Returns (Holding w, s, st)
          | GoesOn \<Rightarrow> bind_outcome (startLoadBalancerRequest now rid r (s, st))
              (\<lambda>(resp, s', st'). Returns (Answer resp, s', st'))))"

text \<open>The rest of the handler for a request whose wait on a pause has ended.\<close>

definition resumeHeldRequest ::
  "instant \<Rightarrow> nat \<Rightarrow> Request \<Rightarrow> WaitStatus \<Rightarrow> Service \<times> ReqStore \<Rightarrow> (ServiceAnswer \<times> Service \<times> ReqStore) outcome" where
  "resumeHeldRequest now rid r w = (\<lambda>(s, st).
     case after_wait w of
       Answered resp \<Rightarrow> Returns (Answer resp, s, st)
     | HeldBy w' \<Rightarrow> Returns (Holding w', s, st)
     | GoesOn \<Rightarrow> bind_outcome (startLoadBalancerRequest now rid r (s, st))
         (\<lambda>(resp, s', st'). Returns (Answer resp, s', st')))"

subsection \<open>Saved state\<close>

text \<open>The pause controller's exported fields, which are what JSON keeps of it.\<close>

record SavedPause =
  sp_State :: PauseState
  sp_StopMessage :: string
  sp_FailAfter :: duration

record marshalledService =
  ms_Name :: string
  ms_Options :: ServiceOptions
  ms_TargetOptions :: TargetOptions
  ms_ActiveTargets :: "string list"
  ms_ActiveReaders :: "string list"
  ms_RolloutTargets :: "string list"
  ms_RolloutReaders :: "string list"
  ms_PauseController :: "SavedPause option"
  ms_RolloutController :: "RolloutController option"
  ms_LegacyActiveTarget :: string
  ms_LegacyRolloutTarget :: string
  ms_LegacyHosts :: "string list"
  ms_LegacyPathPrefixes :: "string list"

definition save_pause :: "PauseController \<Rightarrow> SavedPause" where
  "save_pause p = \<lparr>sp_State = pc_State p, sp_StopMessage = pc_StopMessage p, sp_FailAfter = pc_FailAfter p\<rparr>"

definition Service_MarshalJSON :: "Service \<Rightarrow> marshalledService outcome" where
  "Service_MarshalJSON s =
     (case sv_active s of
        None \<Rightarrow> Panics ''nil pointer dereference''
      | Some lb \<Rightarrow> Returns
          \<lparr>ms_Name = sv_name s, ms_Options = sv_options s, ms_TargetOptions = sv_targetOptions s,
           ms_ActiveTargets = TargetList_Names (WriteTargets lb),
           ms_ActiveReaders = TargetList_Names (ReadTargets lb),
           ms_RolloutTargets = (case sv_rollout s of None \<Rightarrow> [] | Some ro \<Rightarrow> TargetList_Names (WriteTargets ro)),
           ms_RolloutReaders = (case sv_rollout s of None \<Rightarrow> [] | Some ro \<Rightarrow> TargetList_Names (ReadTargets ro)),
           ms_PauseController = map_option save_pause (sv_pauseController s),
           ms_RolloutController = sv_rolloutController s,
           ms_LegacyActiveTarget = [], ms_LegacyRolloutTarget = [], ms_LegacyHosts = [],
           ms_LegacyPathPrefixes = []\<rparr>)"

text \<open>State saved by an earlier version.\<close>

definition upgradeLegacy :: "marshalledService \<Rightarrow> marshalledService" where
  "upgradeLegacy ms =
     (let ms1 = (if length (ms_ActiveTargets ms) = 0 \<and> ms_LegacyActiveTarget ms \<noteq> []
                 then ms\<lparr>ms_ActiveTargets := [ms_LegacyActiveTarget ms]\<rparr> else ms);
          ms2 = (if length (ms_RolloutTargets ms1) = 0 \<and> ms_LegacyRolloutTarget ms1 \<noteq> []
                 then ms1\<lparr>ms_RolloutTargets := [ms_LegacyRolloutTarget ms1]\<rparr> else ms1);
          ms3 = (if length (so_Hosts (ms_Options ms2)) = 0 \<and> length (ms_LegacyHosts ms2) > 0
                 then ms2\<lparr>ms_Options := (ms_Options ms2)\<lparr>so_Hosts := ms_LegacyHosts ms2\<rparr>\<rparr> else ms2);
          ms4 = (if length (so_PathPrefixes (ms_Options ms3)) = 0 \<and> length (ms_LegacyPathPrefixes ms3) > 0
                 then ms3\<lparr>ms_Options := (ms_Options ms3)\<lparr>so_PathPrefixes := ms_LegacyPathPrefixes ms3\<rparr>\<rparr>
                 else ms3)
      in ms4\<lparr>ms_Options := Normalize (ms_Options ms4)\<rparr>)"

definition restoreBalancer :: "ServiceOptions \<Rightarrow> TargetList \<Rightarrow> LoadBalancer" where
  "restoreBalancer so targets =
     MarkAllHealthy (NewLoadBalancer targets (so_WriterAffinityTimeout so) (so_ReadTargetsAcceptWebsockets so))"

text \<open>Decoding of the JSON itself includes \<open>PauseController.UnmarshalJSON\<close> of a pause controller that
  is present.\<close>

definition restorePause :: "SavedPause option \<Rightarrow> Channels \<Rightarrow> (PauseController option \<times> Channels) outcome" where
  "restorePause sp h =
     (case sp of
        None \<Rightarrow> Returns (None, h)
      | Some p \<Rightarrow> bind_outcome (PauseController_UnmarshalJSON (sp_State p) (sp_StopMessage p) (sp_FailAfter p) h)
          (\<lambda>(p', h'). Returns (Some p', h')))"

definition Service_UnmarshalJSON ::
  "Environment \<Rightarrow> marshalledService \<Rightarrow> Channels \<Rightarrow> (Service result \<times> Channels) outcome" where
  "Service_UnmarshalJSON env data h =
     bind_outcome (restorePause (ms_PauseController data) h) (\<lambda>(pause, h').
       let ms = upgradeLegacy data; so = ms_Options ms
       in Returns
         (case NewTargetList (ms_ActiveTargets ms) (ms_ActiveReaders ms) (ms_TargetOptions ms) of
            Inl err \<Rightarrow> Inl err
          | Inr activeTargets \<Rightarrow>
              (case NewTargetList (ms_RolloutTargets ms) (ms_RolloutReaders ms) (ms_TargetOptions ms) of
                 Inl err \<Rightarrow> Inl err
               | Inr rolloutTargets \<Rightarrow>
                   (case initialize env
                      \<lparr>sv_name = ms_Name ms, sv_options = so, sv_targetOptions = ms_TargetOptions ms,
                       sv_active = Some (restoreBalancer so activeTargets),
                       sv_rollout = (if length rolloutTargets > 0
                                     then Some (restoreBalancer so rolloutTargets) else None),
                       sv_pauseController = pause, sv_rolloutController = ms_RolloutController ms,
                       sv_certManager = None, sv_middleware = None\<rparr> of
                      (Some err, _) \<Rightarrow> Inl err
                    | (None, s) \<Rightarrow> Inr s)), h'))"

subsection \<open>Requests while running, paused and stopped\<close>

lemma after_wait_begin:
  "after_wait (Wait_begin now p) =
     (case pc_State p of
        PauseStateRunning \<Rightarrow> GoesOn
      | PauseStateStopped \<Rightarrow> Answered (ErrorResponse 503 (Some (pc_StopMessage p)))
      | PauseStatePaused \<Rightarrow> HeldBy (WaitSelecting (pc_pauseChannel p) (now + pc_FailAfter p)))"
  by (simp add: Wait_begin_def getWaitState_def split: PauseState.splits)

lemma startLoadBalancerRequest_returns:
  assumes "sv_active s = Some lb"
  obtains d s' st' where "startLoadBalancerRequest now rid r (s, st) =
      Returns (Balanced (loadBalancerForRequest s r) d, s', st')"
proof (cases "loadBalancerForRequest s r")
  case TargetSlotActive
  with assms that show ?thesis
    by (cases "LoadBalancer_StartRequest now rid r (lb, st)") (auto simp: startLoadBalancerRequest_def)
next
  case TargetSlotRollout
  then obtain ro where "sv_rollout s = Some ro" by (auto simp: loadBalancerForRequest_def split: if_splits)
  with TargetSlotRollout that show ?thesis
    by (cases "LoadBalancer_StartRequest now rid r (ro, st)") (auto simp: startLoadBalancerRequest_def)
qed


text \<open>The rollout commands: a split can be set exactly when a rollout is deployed, it then routes
  each request by the new controller, and stopping the rollout sends every request to the active
  targets, as does having no rollout deployed.\<close>

theorem rollout_commands:
  "(fst (Service_SetRolloutSplit n allow s) = None \<longleftrightarrow> sv_rollout s \<noteq> None)
   \<and> (sv_rollout s \<noteq> None \<longrightarrow>
        (loadBalancerForRequest (snd (Service_SetRolloutSplit n allow s)) r = TargetSlotRollout
           \<longleftrightarrow> RequestUsesRolloutGroup (NewRolloutController n allow) r))
   \<and> (sv_rollout s = None \<longrightarrow> snd (Service_SetRolloutSplit n allow s) = s
        \<and> loadBalancerForRequest s r = TargetSlotActive)
   \<and> loadBalancerForRequest (snd (Service_StopRollout s)) r = TargetSlotActive"
  by (auto simp: Service_SetRolloutSplit_def Service_StopRollout_def loadBalancerForRequest_def)

subsection \<open>An uninterrupted drain\<close>

lemma own_drain_step:
  assumes "ds_drains s d = Some ph"
    and "case drain_next s ph of None \<Rightarrow> False | Some (t, st, ph') \<Rightarrow>
      s' = s\<lparr>ds_target := t, ds_reqs := st, ds_drains := (ds_drains s)(d \<mapsto> ph')\<rparr>"
  shows "own_step d s s'"
  using assms target_step.step_drain_next [OF assms(1)] by (auto split: option.splits)

text \<open>The states of a drain that runs alone, from its first section to its return.\<close>

definition drain_trace :: "nat \<Rightarrow> duration \<Rightarrow> TargetSys \<Rightarrow> TargetSys list" where
  "drain_trace d timeout s =
     (let t = ds_target s; R = t_inflight t; o' = t_state t;
          dl = ds_clock s + timeout; now = max (ds_clock s) dl;
          st1 = cancel_requests if_hijacked R (ds_reqs s); st2 = cancel_requests (\<lambda>_. True) R st1;
          s0 = drain_begin d timeout s;
          ph = (\<lambda>p. (ds_drains s)(d \<mapsto> p))
      in [s0\<lparr>ds_drains := ph (DrainSnapshot o' R dl)\<rparr>,
          s0\<lparr>ds_reqs := st1, ds_drains := ph (DrainWaiting o' R dl)\<rparr>,
          s0\<lparr>ds_reqs := st1, ds_drains := ph (DrainWaiting o' R dl), ds_clock := now\<rparr>,
          s0\<lparr>ds_reqs := st2, ds_drains := ph (DrainRestoring o' R), ds_clock := now\<rparr>,
          s0\<lparr>ds_target := t, ds_reqs := st2, ds_drains := ph (DrainReturned R), ds_clock := now\<rparr>])"

lemma drain_trace_steps:
  assumes "t_state (ds_target s) \<noteq> TargetStateDraining"
  shows "own_step d (drain_begin d timeout s) (drain_trace d timeout s ! 0)"
    and "own_step d (drain_trace d timeout s ! 0) (drain_trace d timeout s ! 1)"
    and "own_step d (drain_trace d timeout s ! 1) (drain_trace d timeout s ! 2)"
    and "own_step d (drain_trace d timeout s ! 2) (drain_trace d timeout s ! 3)"
    and "own_step d (drain_trace d timeout s ! 3) (drain_trace d timeout s ! 4)"
proof -
  obtain t st ds c where s: "s = \<lparr>ds_target = t, ds_reqs = st, ds_drains = ds, ds_clock = c\<rparr>"
    by (cases s)
  let ?o = "t_state t" and ?R = "t_inflight t" and ?dl = "c + timeout"
  note defs = s drain_trace_def drain_begin_def updateState_def pendingRequestsToCancel_def Let_def
  show "own_step d (drain_begin d timeout s) (drain_trace d timeout s ! 0)"
    by (rule own_drain_step [where ph = "DrainMarked ?o timeout"]) (use assms in \<open>simp_all add: defs\<close>)
  show "own_step d (drain_trace d timeout s ! 0) (drain_trace d timeout s ! 1)"
    by (rule own_drain_step [where ph = "DrainSnapshot ?o ?R ?dl"]) (use assms in \<open>simp_all add: defs\<close>)
  show "own_step d (drain_trace d timeout s ! 1) (drain_trace d timeout s ! 2)"
    using target_step.step_tick [of "drain_trace d timeout s ! 1" "max c ?dl"] assms
    by (intro disjI2 exI) (simp add: defs)
  show "own_step d (drain_trace d timeout s ! 2) (drain_trace d timeout s ! 3)"
    by (rule own_drain_step [where ph = "DrainWaiting ?o ?R ?dl"]) (use assms in \<open>simp_all add: defs\<close>)
  show "own_step d (drain_trace d timeout s ! 3) (drain_trace d timeout s ! 4)"
    by (rule own_drain_step [where ph = "DrainRestoring ?o ?R"]) (use assms in \<open>simp_all add: defs\<close>)
qed

text \<open>The one-shot effect of a drain that \<open>Pause\<close>, \<open>Stop\<close> and a deployment use agrees with the
  detailed phases: run without interference, they return with the target as it was and the
  requests as \<open>Target_Drain\<close> leaves them.\<close>

theorem drain_run:
  assumes "t_state (ds_target s) \<noteq> TargetStateDraining" and "ds_drains s d = None"
  shows "\<exists>s'. (own_step d)\<^sup>*\<^sup>* (drain_begin d timeout s) s'
    \<and> ds_drains s' d = Some (DrainReturned (t_inflight (ds_target s)))
    \<and> ds_target s' = ds_target s \<and> ds_reqs s' = Target_Drain (ds_target s) (ds_reqs s)"
proof (intro exI conjI)
  let ?e = "drain_trace d timeout s ! 4"
  note r = converse_rtranclp_into_rtranclp [where r = "own_step d"]
  show "(own_step d)\<^sup>*\<^sup>* (drain_begin d timeout s) ?e"
    by (rule r [OF drain_trace_steps(1) [OF assms(1)] r [OF drain_trace_steps(2) [OF assms(1)]
          r [OF drain_trace_steps(3) [OF assms(1)] r [OF drain_trace_steps(4) [OF assms(1)]
          r [OF drain_trace_steps(5) [OF assms(1)] rtranclp.rtrancl_refl]]]]])
  show "ds_drains ?e d = Some (DrainReturned (t_inflight (ds_target s)))"
    by (simp add: drain_trace_def Let_def)
  show "ds_target ?e = ds_target s" by (simp add: drain_trace_def Let_def)
  show "ds_reqs ?e = Target_Drain (ds_target s) (ds_reqs s)"
    using assms by (simp add: drain_trace_def Let_def Target_Drain_def pendingRequestsToCancel_def)
qed

subsection \<open>Saving and restoring\<close>

definition fresh_target :: "bool \<Rightarrow> TargetOptions \<Rightarrow> string \<Rightarrow> Target" where
  "fresh_target ro options name =
     \<lparr>t_address = name, t_readonly = ro, t_options = canonicalizeLogHeaders options,
      t_state = TargetStateAdding, t_inflight = {}, t_healthcheck = False\<rparr>"

lemma fresh_target_fields [simp]:
  "t_address (fresh_target ro options name) = name" "t_readonly (fresh_target ro options name) = ro"
  by (simp_all add: fresh_target_def)

lemma collect_targets_all:
  "(\<And>n. n \<in> set names \<Longrightarrow> new n = Inr (f n)) \<Longrightarrow> collect_targets new names = Inr (map f names)"
  by (induction names) auto

lemma NewTargetList_valid:
  assumes "list_all hostRegex (ws @ rs)"
  shows "NewTargetList ws rs options = Inr (map (fresh_target False options) ws @ map (fresh_target True options) rs)"
proof -
  have "collect_targets (\<lambda>n. NewTarget n options) ws = Inr (map (fresh_target False options) ws)"
    "collect_targets (\<lambda>n. NewReadOnlyTarget n options) rs = Inr (map (fresh_target True options) rs)"
    using assms by (intro collect_targets_all; simp add: NewTarget_def NewReadOnlyTarget_def
        parseTargetURL_def fresh_target_def list_all_iff)+
  then show ?thesis by (simp add: NewTargetList_def)
qed

text \<open>The names and kinds of a balancer's targets, which is all that is saved of them.\<close>

definition named_kinds :: "TargetList \<Rightarrow> (string \<times> bool) list" where
  "named_kinds ts = map (\<lambda>t. (t_address t, t_readonly t)) ts"

lemma names_matching:
  "TargetList_Names (targetsMatchingReadonly ro ts) = map fst (filter (\<lambda>e. snd e = ro) (named_kinds ts))"
  by (induction ts) (simp_all add: TargetList_Names_def targetsMatchingReadonly_def named_kinds_def)

lemma named_kinds_map [simp]:
  "(\<And>t. t_address (f t) = t_address t \<and> t_readonly (f t) = t_readonly t) \<Longrightarrow>
     named_kinds (map f ts) = named_kinds ts"
  by (simp add: named_kinds_def)

lemma named_kinds_restore [simp]: "named_kinds (lb_all (restoreBalancer so ts)) = named_kinds ts"
  by (simp add: restoreBalancer_def MarkAllHealthy_def update_fields NewLoadBalancer_def
      TargetList_BeginHealthChecks_def TargetList_StopHealthChecks_def BeginHealthChecks_def
      StopHealthChecks_def updateState_def comp_def flip: map_map)

lemma restored_names:
  "TargetList_Names (WriteTargets (restoreBalancer so (map (fresh_target False o1) ws @ map (fresh_target True o2) rs))) = ws"
  "TargetList_Names (ReadTargets (restoreBalancer so (map (fresh_target False o1) ws @ map (fresh_target True o2) rs))) = rs"
  unfolding WriteTargets_def ReadTargets_def names_matching named_kinds_restore
  by (simp_all add: named_kinds_def comp_def filter_empty_conv)

lemma restored_healthy: "lb_healthy (restoreBalancer so ts)"
  by (simp add: restoreBalancer_def MarkAllHealthy_def update_fields updateState_def)

lemma restored_in_rotation:
  "set (lb_writers (restoreBalancer so ts)) \<union> set (lb_readers (restoreBalancer so ts)) = {..<length ts}"
  by (auto simp: restoreBalancer_def MarkAllHealthy_def update_fields set_healthy_positions updateState_def
      NewLoadBalancer_def TargetList_BeginHealthChecks_def)

lemma names_empty_iff:
  "TargetList_Names (WriteTargets lb) @ TargetList_Names (ReadTargets lb) = [] \<longleftrightarrow> lb_all lb = []"
proof
  assume "TargetList_Names (WriteTargets lb) @ TargetList_Names (ReadTargets lb) = []"
  then have "\<forall>t \<in> set (lb_all lb). False"
    by (auto simp: TargetList_Names_def WriteTargets_def ReadTargets_def targetsMatchingReadonly_def
        filter_empty_conv)
  then show "lb_all lb = []" by simp
qed (simp add: TargetList_Names_def WriteTargets_def ReadTargets_def targetsMatchingReadonly_def)

lemma restorePause_saved:
  assumes "pc_State p \<noteq> PauseStateStopped \<longrightarrow> pc_StopMessage p = []"
  obtains p' where "restorePause (Some (save_pause p)) h = Returns (Some p', h)" "save_pause p' = save_pause p"
  using assms that
  by (cases "pc_State p") (auto simp: restorePause_def save_pause_def PauseController_UnmarshalJSON_def
      pause_defs Let_def)

definition valid_balancer :: "LoadBalancer \<Rightarrow> bool" where
  "valid_balancer lb \<longleftrightarrow> lb_all lb \<noteq> [] \<and> (\<forall>t \<in> set (lb_all lb). hostRegex (t_address t))"

text \<open>What holds of every deployed service: valid targets, normalised options, a pause controller
  whose message is empty unless it is stopped.\<close>

definition saveable :: "Service \<Rightarrow> bool" where
  "saveable s \<longleftrightarrow>
     (case sv_active s of None \<Rightarrow> False | Some lb \<Rightarrow> valid_balancer lb)
     \<and> (case sv_rollout s of None \<Rightarrow> True | Some lb \<Rightarrow> valid_balancer lb)
     \<and> (case sv_pauseController s of None \<Rightarrow> False
          | Some p \<Rightarrow> pc_State p \<noteq> PauseStateStopped \<longrightarrow> pc_StopMessage p = [])
     \<and> normal_options (sv_options s)"

lemma valid_names:
  "valid_balancer lb \<Longrightarrow>
     list_all hostRegex (TargetList_Names (WriteTargets lb) @ TargetList_Names (ReadTargets lb))"
  by (auto simp: valid_balancer_def TargetList_Names_def WriteTargets_def ReadTargets_def
      targetsMatchingReadonly_def list_all_iff)

lemma upgradeLegacy_current:
  assumes "normal_options (ms_Options ms)" "ms_LegacyActiveTarget ms = []" "ms_LegacyRolloutTarget ms = []"
  shows "upgradeLegacy ms = ms"
  using assms by (simp add: upgradeLegacy_def Let_def normal_options_def Normalize_id)

lemma initialize_again:
  assumes "fst (initialize env s) = None" "sv_options s2 = sv_options s"
  obtains c m where "initialize env s2 = (None, s2\<lparr>sv_certManager := c, sv_middleware := m\<rparr>)"
  using assms that by (auto simp: initialize_def split: sum.splits)

text \<open>The balancer that is restored for one that was saved.\<close>

definition reborn :: "Service \<Rightarrow> LoadBalancer \<Rightarrow> LoadBalancer" where
  "reborn s lb = restoreBalancer (sv_options s)
     (map (fresh_target False (sv_targetOptions s)) (TargetList_Names (WriteTargets lb))
      @ map (fresh_target True (sv_targetOptions s)) (TargetList_Names (ReadTargets lb)))"

lemma reborn_names [simp]:
  "TargetList_Names (WriteTargets (reborn s lb)) = TargetList_Names (WriteTargets lb)"
  "TargetList_Names (ReadTargets (reborn s lb)) = TargetList_Names (ReadTargets lb)"
  by (simp_all add: reborn_def restored_names)

lemma length_restored: "length (lb_all (restoreBalancer so ts)) = length ts"
  using arg_cong [OF named_kinds_restore, of length so ts] by (simp add: named_kinds_def)

lemma reborn_rotation:
  "lb_healthy (reborn s lb)
   \<and> set (lb_writers (reborn s lb)) \<union> set (lb_readers (reborn s lb)) = {..<length (lb_all (reborn s lb))}"
  unfolding reborn_def by (simp only: restored_healthy restored_in_rotation length_restored)

lemma unmarshal_saved:
  assumes "saveable s" "Service_MarshalJSON s = Returns ms" "fst (initialize env s) = None"
    and a: "sv_active s = Some lb" and p: "sv_pauseController s = Some p"
  obtains c m p' where "save_pause p' = save_pause p"
    and "Service_UnmarshalJSON env ms h = Returns (Inr
      (s\<lparr>sv_active := Some (reborn s lb), sv_rollout := map_option (reborn s) (sv_rollout s),
         sv_pauseController := Some p', sv_certManager := c, sv_middleware := m\<rparr>), h)"
proof -
  from assms have valid: "list_all hostRegex (TargetList_Names (WriteTargets lb) @ TargetList_Names (ReadTargets lb))"
    and rv: "\<And>ro. sv_rollout s = Some ro \<Longrightarrow> lb_all ro \<noteq> [] \<and>
      list_all hostRegex (TargetList_Names (WriteTargets ro) @ TargetList_Names (ReadTargets ro))"
    and norm: "normal_options (sv_options s)"
    and pm: "pc_State p \<noteq> PauseStateStopped \<longrightarrow> pc_StopMessage p = []"
    by (simp_all add: saveable_def valid_names valid_balancer_def del: list_all_append split: option.splits)
  from restorePause_saved [OF pm] obtain p' where
    rp: "restorePause (Some (save_pause p)) h = Returns (Some p', h)" "save_pause p' = save_pause p" by blast
  let ?s2 = "s\<lparr>sv_active := Some (reborn s lb), sv_rollout := map_option (reborn s) (sv_rollout s),
         sv_pauseController := Some p', sv_certManager := None, sv_middleware := None\<rparr>"
  obtain c m where i: "initialize env ?s2 = (None, ?s2\<lparr>sv_certManager := c, sv_middleware := m\<rparr>)"
    by (rule initialize_again [OF assms(3), of ?s2]) simp_all
  have s2: "?s2 = \<lparr>sv_name = sv_name s, sv_options = sv_options s, sv_targetOptions = sv_targetOptions s,
     sv_active = Some (reborn s lb), sv_rollout = map_option (reborn s) (sv_rollout s),
     sv_pauseController = Some p', sv_rolloutController = sv_rolloutController s,
     sv_certManager = None, sv_middleware = None\<rparr>" by (cases s) simp
  have u: "upgradeLegacy ms = ms" using assms(2) a norm
    by (intro upgradeLegacy_current) (auto simp: Service_MarshalJSON_def)
  have "Service_UnmarshalJSON env ms h = Returns (Inr (?s2\<lparr>sv_certManager := c, sv_middleware := m\<rparr>), h)"
  proof (cases "sv_rollout s")
    case None
    with assms(2) a p rp u i [unfolded s2] valid show ?thesis
      by (auto simp: Service_UnmarshalJSON_def Service_MarshalJSON_def NewTargetList_valid reborn_def s2 Let_def
          simp del: list_all_append)
  next
    case (Some ro)
    with rv names_empty_iff [of ro] have "length (TargetList_Names (WriteTargets ro)) > 0 \<or> length (TargetList_Names (ReadTargets ro)) > 0"
      by auto
    with Some assms(2) a p rp u i [unfolded s2] valid rv [OF Some] show ?thesis
      by (auto simp: Service_UnmarshalJSON_def Service_MarshalJSON_def NewTargetList_valid reborn_def s2 Let_def
          simp del: list_all_append)
  qed
  with rp(2) that show ?thesis by fastforce
qed

text \<open>A restart loses nothing: the state saved of a deployed service can be read back, with the
  certificates and error pages still loading, and the restored service saves as exactly the same
  state. Its balancers are back with every target healthy and in rotation.\<close>

theorem restore_roundtrip:
  assumes "saveable s" and "Service_MarshalJSON s = Returns ms"
    and "fst (initialize env s) = None"
  shows "\<exists>s' h'. Service_UnmarshalJSON env ms h = Returns (Inr s', h')
    \<and> Service_MarshalJSON s' = Returns ms
    \<and> (\<forall>lb. sv_active s' = Some lb \<or> sv_rollout s' = Some lb \<longrightarrow> lb_healthy lb
         \<and> set (lb_writers lb) \<union> set (lb_readers lb) = {..<length (lb_all lb)})"
proof -
  from assms(1) obtain lb p where a: "sv_active s = Some lb" and p: "sv_pauseController s = Some p"
    by (auto simp: saveable_def split: option.splits)
  obtain c m p' where sp: "save_pause p' = save_pause p"
    and u: "Service_UnmarshalJSON env ms h = Returns (Inr
      (s\<lparr>sv_active := Some (reborn s lb), sv_rollout := map_option (reborn s) (sv_rollout s),
         sv_pauseController := Some p', sv_certManager := c, sv_middleware := m\<rparr>), h)"
    (is "_ = Returns (Inr ?s', h)") by (rule unmarshal_saved [OF assms a p])
  have "Service_MarshalJSON ?s' = Returns ms"
    using sp assms(2) a p by (auto simp: Service_MarshalJSON_def split: option.splits)
  moreover have "\<exists>l. lb' = reborn s l" if "sv_active ?s' = Some lb' \<or> sv_rollout ?s' = Some lb'" for lb'
    using that by auto
  ultimately show ?thesis using u reborn_rotation by metis
qed

subsection \<open>Examples\<close>

definition example_service_options :: ServiceOptions where
  "example_service_options = defaultServiceOptions\<lparr>so_Hosts := [''app''], so_PathPrefixes := [''/'']\<rparr>"

definition example_service :: Service where
  "example_service = \<lparr>sv_name = ''web'', sv_options = example_service_options,
     sv_targetOptions = example_options, sv_active = Some ex_lb, sv_rollout = None,
     sv_pauseController = Some (NewPauseController\<lparr>pc_State := PauseStateStopped, pc_StopMessage := ''maintenance''\<rparr>),
     sv_rolloutController = None, sv_certManager = None, sv_middleware = None\<rparr>"

definition example_environment :: Environment where
  "example_environment = \<lparr>env_certificate_loads = (\<lambda>_ _. False), env_error_pages_load = (\<lambda>_. False),
     env_scoped_cache_path = (\<lambda>dir _. dir), env_acme_handles = (\<lambda>_. False), env_state_writable = True\<rparr>"


theorem rollout_commands_witness:
  "fst (Service_SetRolloutSplit 10 [] example_service) \<noteq> None
   \<and> loadBalancerForRequest example_service (get_request ''app'' ''/'') = TargetSlotActive"
  using rollout_commands [of 10 "[]" example_service] by (simp add: example_service_def)

theorem drain_run_witness:
  "\<exists>s'. (own_step 1)\<^sup>*\<^sup>* (drain_begin 1 30 ex_busy) s' \<and> ds_drains s' 1 = Some (DrainReturned {4})
    \<and> ds_target s' = ds_target ex_busy \<and> ds_reqs s' = Target_Drain (ds_target ex_busy) (ds_reqs ex_busy)"
  using drain_run [of ex_busy 1 30] by (simp add: ex_busy_def ex_idle_def example_target_def)

lemma example_saveable: "saveable example_service"
  by (simp add: saveable_def example_service_def valid_balancer_def ex_lb_eval example_target_def
      example_reader_def hostRegex_def is_word_byte_def is_digit_byte_def normal_options_def
      example_service_options_def normal_prefix_root [unfolded rootPath_def])

lemma example_initialize: "fst (initialize example_environment example_service) = None"
  by (simp add: initialize_def createCertManager_def createMiddleware_def example_service_def
      example_service_options_def defaultServiceOptions_def)

theorem restore_roundtrip_witness:
  "\<exists>ms s' h'. Service_MarshalJSON example_service = Returns ms
    \<and> Service_UnmarshalJSON example_environment ms \<lparr>ch_next = 0, ch_closed = {}\<rparr> = Returns (Inr s', h')
    \<and> Service_MarshalJSON s' = Returns ms"
proof -
  obtain ms where m: "Service_MarshalJSON example_service = Returns ms"
    by (simp add: Service_MarshalJSON_def example_service_def)
  from restore_roundtrip [OF example_saveable m example_initialize] m show ?thesis by blast
qed

end
