(* ===== verification/ServiceMaps.thy ===== *)
theory ServiceMaps
  imports Services
begin

section \<open>The service map\<close>

text \<open>
  Models \<open>internal/server/service_map.go\<close>: the services by name, and the index from hosts to path
  bindings that routes requests. Go maps are association lists with distinct keys in the order in
  which one \<open>range\<close> loop visits them, and \<open>slices.SortFunc\<close>, which is not stable, is a stable sort;
  the routing theorem is proved for every arrangement both could produce. A binding names its
  service: the index is rebuilt whenever the set of services changes, so the pointer in the code
  and the entry under that name are the same service.
\<close>

record pathBinding =
  pb_pathPrefix :: string
  pb_service :: string

type_synonym requestServiceMap = "(string \<times> pathBinding list) list"
type_synonym service_table = "(string \<times> Service) list"

record ServiceMap =
  sm_services :: service_table
  sm_requests :: requestServiceMap

definition NewServiceMap :: ServiceMap where
  "NewServiceMap = \<lparr>sm_services = [], sm_requests = []\<rparr>"

definition ServiceMap_Get :: "ServiceMap \<Rightarrow> string \<Rightarrow> Service option" where
  "ServiceMap_Get m name = map_of (sm_services m) name"

subsection \<open>Looking up\<close>

definition bindingsForHost :: "requestServiceMap \<Rightarrow> string \<Rightarrow> pathBinding list option" where
  "bindingsForHost rsm host =
     (case map_of rsm host of
        Some bindings \<Rightarrow> Some bindings
      | None \<Rightarrow>
          (case IndexByte host (CHR ''.'') of
             Some sep \<Rightarrow>
               (if sep > 0 then
                  (case map_of rsm (''*'' @ drop sep host) of
                     Some bindings \<Rightarrow> Some bindings
                   | None \<Rightarrow> map_of rsm [])
                else map_of rsm [])
           | None \<Rightarrow> map_of rsm []))"

definition prefix_matches :: "string \<Rightarrow> string \<Rightarrow> bool" where
  "prefix_matches path p \<longleftrightarrow> HasPrefix (EnsureTrailingSlash path) (EnsureTrailingSlash p)"

text \<open>The name of the service and the prefix that matched.\<close>

definition serviceFor :: "requestServiceMap \<Rightarrow> string \<Rightarrow> string \<Rightarrow> (string \<times> string) option" where
  "serviceFor rsm host path =
     (case bindingsForHost rsm host of
        None \<Rightarrow> None
      | Some bindings \<Rightarrow>
          map_option (\<lambda>b. (pb_service b, pb_pathPrefix b))
            (List.find (\<lambda>b. prefix_matches path (pb_pathPrefix b)) bindings))"

definition ServiceForHost :: "requestServiceMap \<Rightarrow> string \<Rightarrow> string option" where
  "ServiceForHost rsm host = map_option fst (serviceFor rsm host rootPath)"

definition request_host :: "string \<Rightarrow> string" where
  "request_host host =
     (case IndexByte host (CHR '':'') of
        Some i \<Rightarrow> if i > 0 then (case SplitHostPort host of Some (h, _) \<Rightarrow> h | None \<Rightarrow> host) else host
      | None \<Rightarrow> host)"

definition ServiceForRequest :: "ServiceMap \<Rightarrow> Request \<Rightarrow> (string \<times> string) option" where
  "ServiceForRequest m req = serviceFor (sm_requests m) (request_host (rq_Host req)) (rq_Path req)"

text \<open>Indexing a Go map with an absent key gives the nil slice.\<close>

definition host_bindings :: "requestServiceMap \<Rightarrow> string \<Rightarrow> pathBinding list" where
  "host_bindings rsm host = (case map_of rsm host of None \<Rightarrow> [] | Some bs \<Rightarrow> bs)"

text \<open>The name of a service that already has one of the host and prefix pairs, if any.\<close>

definition CheckAvailability :: "ServiceMap \<Rightarrow> string \<Rightarrow> ServiceOptions \<Rightarrow> string option" where
  "CheckAvailability m name options =
     map_option pb_service
       (List.find (\<lambda>b. pb_service b \<noteq> name)
          (concat (map (\<lambda>host. concat (map (\<lambda>pathPrefix.
             filter (\<lambda>b. pathPrefix = pb_pathPrefix b) (host_bindings (sm_requests m) host))
             (so_PathPrefixes options))) (so_Hosts options))))"

subsection \<open>Rebuilding the index\<close>

definition service_bindings :: "string \<times> Service \<Rightarrow> (string \<times> pathBinding) list" where
  "service_bindings = (\<lambda>(name, s).
     concat (map (\<lambda>host. map (\<lambda>p. (host, \<lparr>pb_pathPrefix = p, pb_service = name\<rparr>)) (so_PathPrefixes (sv_options s)))
       (so_Hosts (sv_options s))))"

definition append_binding :: "requestServiceMap \<Rightarrow> string \<times> pathBinding \<Rightarrow> requestServiceMap" where
  "append_binding rsm = (\<lambda>(host, b).
     map_put host (host_bindings rsm host @ [b]) rsm)"

definition sort_bindings :: "pathBinding list \<Rightarrow> pathBinding list" where
  "sort_bindings = sort_key (\<lambda>b. - int (length (pb_pathPrefix b)))"

definition build_index :: "service_table \<Rightarrow> requestServiceMap" where
  "build_index services =
     map (\<lambda>(host, bs). (host, sort_bindings bs))
       (foldl append_binding [] (concat (map service_bindings services)))"

text \<open>One round of the loop in \<open>syncTLSOptionsFromRootDomain\<close>, for the service of a name.\<close>

definition with_tls :: "ServiceOptions \<Rightarrow> Service \<Rightarrow> Service" where
  "with_tls so s = s\<lparr>sv_options := (sv_options s)\<lparr>so_TLSEnabled := so_TLSEnabled so, so_TLSRedirect := so_TLSRedirect so\<rparr>\<rparr>"

definition first_host :: "Service \<Rightarrow> string" where
  "first_host s = (case so_Hosts (sv_options s) of [] \<Rightarrow> [] | h # _ \<Rightarrow> h)"

definition sync_service :: "requestServiceMap \<Rightarrow> service_table \<Rightarrow> Service \<Rightarrow> Service" where
  "sync_service rsm services s =
     (if servesRootPath s then s
      else (case ServiceForHost rsm (first_host s) of
              Some rootName \<Rightarrow> (case map_of services rootName of
                  Some rootService \<Rightarrow> with_tls (sv_options rootService) s
                | None \<Rightarrow> with_tls defaultServiceOptions s)
            | None \<Rightarrow> with_tls defaultServiceOptions s))"

definition sync_name :: "requestServiceMap \<Rightarrow> service_table \<Rightarrow> string \<Rightarrow> service_table" where
  "sync_name rsm services name =
     (case map_of services name of
        None \<Rightarrow> services
      | Some s \<Rightarrow> map_put name (sync_service rsm services s) services)"

definition syncTLSOptionsFromRootDomain :: "ServiceMap \<Rightarrow> ServiceMap" where
  "syncTLSOptionsFromRootDomain m =
     m\<lparr>sm_services := foldl (sync_name (sm_requests m)) (sm_services m) (keys (sm_services m))\<rparr>"

definition updateRequestServiceMap :: "ServiceMap \<Rightarrow> ServiceMap" where
  "updateRequestServiceMap m = syncTLSOptionsFromRootDomain (m\<lparr>sm_requests := build_index (sm_services m)\<rparr>)"

definition ServiceMap_Set :: "Service \<Rightarrow> ServiceMap \<Rightarrow> ServiceMap" where
  "ServiceMap_Set service m =
     updateRequestServiceMap (m\<lparr>sm_services := map_put (sv_name service) service (sm_services m)\<rparr>)"

definition ServiceMap_Remove :: "string \<Rightarrow> ServiceMap \<Rightarrow> ServiceMap" where
  "ServiceMap_Remove name m = updateRequestServiceMap (m\<lparr>sm_services := map_delete name (sm_services m)\<rparr>)"

subsection \<open>What the index holds\<close>

text \<open>The bindings a table of services asks for, independent of any order.\<close>

definition bound :: "service_table \<Rightarrow> string \<Rightarrow> string \<Rightarrow> string \<Rightarrow> bool" where
  "bound services host p name \<longleftrightarrow> (\<exists>s. (name, s) \<in> set services
     \<and> host \<in> set (so_Hosts (sv_options s)) \<and> p \<in> set (so_PathPrefixes (sv_options s)))"

definition conflict_free :: "service_table \<Rightarrow> bool" where
  "conflict_free services \<longleftrightarrow> (\<forall>host p n n'. bound services host p n \<longrightarrow> bound services host p n' \<longrightarrow> n = n')"

definition normal_table :: "service_table \<Rightarrow> bool" where
  "normal_table services \<longleftrightarrow> (\<forall>(n, s) \<in> set services. normal_options (sv_options s))"

text \<open>A correct index: for each host the bindings asked for, longest prefixes first, in any order among
  prefixes of the same length.\<close>

definition indexes :: "service_table \<Rightarrow> requestServiceMap \<Rightarrow> bool" where
  "indexes services rsm \<longleftrightarrow> (\<forall>host.
     case map_of rsm host of
       None \<Rightarrow> \<not> (\<exists>p n. bound services host p n)
     | Some bs \<Rightarrow> (\<exists>p n. bound services host p n)
         \<and> (\<forall>b. b \<in> set bs \<longleftrightarrow> bound services host (pb_pathPrefix b) (pb_service b))
         \<and> sorted_wrt (\<lambda>a b. length (pb_pathPrefix b) \<le> length (pb_pathPrefix a)) bs)"

lemma set_service_bindings:
  "(host, b) \<in> set (concat (map service_bindings services)) \<longleftrightarrow>
     bound services host (pb_pathPrefix b) (pb_service b)"
  by (cases b) (fastforce simp: service_bindings_def bound_def)

lemma map_of_append_bindings:
  "map_of (foldl append_binding rsm xs) host =
     (let new = map snd (filter (\<lambda>e. fst e = host) xs)
      in if new = [] then map_of rsm host
         else Some (host_bindings rsm host @ new))"
proof (induction xs arbitrary: rsm)
  case Nil
  then show ?case by simp
next
  case (Cons x xs)
  then show ?case
    by (cases x) (auto simp: append_binding_def host_bindings_def Let_def split: option.splits)
qed

lemma map_of_map_snd: "map_of (map (\<lambda>(k, v). (k, f v)) m) k = map_option f (map_of m k)"
  by (induction m) auto

lemma sorted_sort_bindings:
  "sorted_wrt (\<lambda>a b. length (pb_pathPrefix b) \<le> length (pb_pathPrefix a)) (sort_bindings bs)"
proof -
  have "sorted (map (\<lambda>b. - int (length (pb_pathPrefix b))) (sort_bindings bs))"
    by (simp add: sort_bindings_def)
  then show ?thesis by (simp add: sorted_wrt_map)
qed

lemma build_index_indexes: "indexes services (build_index services)"
proof -
  let ?xs = "concat (map service_bindings services)"
  have m: "map_of (build_index services) host =
      (let new = map snd (filter (\<lambda>e. fst e = host) ?xs) in if new = [] then None else Some (sort_bindings new))"
    for host
    by (simp add: build_index_def map_of_map_snd map_of_append_bindings host_bindings_def Let_def)
  have s: "b \<in> set (map snd (filter (\<lambda>e. fst e = host) ?xs)) \<longleftrightarrow>
      bound services host (pb_pathPrefix b) (pb_service b)" for b host
    unfolding set_service_bindings [symmetric] by force
  have "(map snd (filter (\<lambda>e. fst e = host) ?xs) = []) = (\<not> (\<exists>p n. bound services host p n))" for host
    using s [of _ host] by (metis (no_types, lifting) last_in_set pathBinding.select_convs empty_iff list.set(1))
  with m s sorted_sort_bindings show ?thesis
    by (simp add: indexes_def Let_def sort_bindings_def del: set_concat set_map set_filter)
qed

subsection \<open>Routing by longest prefix\<close>

text \<open>The host whose bindings apply: the exact host, else the wildcard of its parent domain, else the
  empty host of the services that take any.\<close>

definition host_bound :: "service_table \<Rightarrow> string \<Rightarrow> bool" where
  "host_bound services host \<longleftrightarrow> (\<exists>p n. bound services host p n)"

definition wildcard_of :: "string \<Rightarrow> string" where
  "wildcard_of host = (case IndexByte host (CHR ''.'') of
     Some sep \<Rightarrow> if sep > 0 then ''*'' @ drop sep host else [] | None \<Rightarrow> [])"

definition host_key :: "service_table \<Rightarrow> string \<Rightarrow> string" where
  "host_key services host =
     (if host_bound services host then host
      else if host_bound services (wildcard_of host) then wildcard_of host else [])"

definition routes_to :: "service_table \<Rightarrow> string \<Rightarrow> string \<Rightarrow> string \<Rightarrow> string \<Rightarrow> bool" where
  "routes_to services host path n p \<longleftrightarrow>
     bound services (host_key services host) p n \<and> prefix_matches path p
     \<and> (\<forall>p' n'. bound services (host_key services host) p' n' \<longrightarrow> prefix_matches path p' \<longrightarrow> length p' \<le> length p)"

lemma indexes_None: "indexes services rsm \<Longrightarrow> map_of rsm host = None \<longleftrightarrow> \<not> host_bound services host"
  unfolding indexes_def host_bound_def by (drule spec [of _ host]) (auto split: option.splits)

lemma indexes_Some:
  assumes "indexes services rsm" "map_of rsm host = Some bs"
  shows "b \<in> set bs \<longleftrightarrow> bound services host (pb_pathPrefix b) (pb_service b)"
    and "sorted_wrt (\<lambda>a b. length (pb_pathPrefix b) \<le> length (pb_pathPrefix a)) bs"
  using spec [OF assms(1) [unfolded indexes_def], of host] assms(2) by simp_all

lemma bindingsForHost_key:
  assumes "indexes services rsm"
  shows "bindingsForHost rsm host = map_of rsm (host_key services host)"
  using indexes_None [OF assms, of host] indexes_None [OF assms, of "wildcard_of host"]
  by (auto simp: bindingsForHost_def host_key_def wildcard_of_def split: option.splits)

lemma bound_normal: "normal_table services \<Longrightarrow> bound services host p n \<Longrightarrow> normal_prefix p"
  by (fastforce simp: normal_table_def bound_def normal_options_def list_all_iff)

lemma find_longest:
  assumes "sorted_wrt (\<lambda>a b. f b \<le> (f a :: nat)) bs" "List.find P bs = Some b" "b' \<in> set bs" "P b'"
  shows "f b' \<le> f b"
proof -
  from find_Some_split [OF assms(2)] obtain us vs where "bs = us @ b # vs" "\<forall>u \<in> set us. \<not> P u" by blast
  with assms show ?thesis by (auto simp: sorted_wrt_append)
qed

lemma same_match:
  assumes "conflict_free services" "normal_table services" "bound services host p n" "bound services host p' n'"
    and "prefix_matches path p" "prefix_matches path p'" "length p = length p'"
  shows "p = p' \<and> n = n'"
proof -
  from assms have "p = p'"
    by (intro EnsureTrailingSlash_inj_len [of _ _ "EnsureTrailingSlash path"])
       (auto simp: prefix_matches_def HasPrefix_def dest: bound_normal)
  with assms show ?thesis by (auto simp: conflict_free_def)
qed

text \<open>The contract of an index builder, and the routing that any such index gives.\<close>

locale route_index =
  fixes index :: "service_table \<Rightarrow> requestServiceMap"
  assumes index_ok: "indexes services (index services)"
begin

lemma route_found:
  assumes "serviceFor (index services) host path = Some (n, p)"
  shows "routes_to services host path n p"
proof -
  from assms obtain bs b where bs: "map_of (index services) (host_key services host) = Some bs"
    and b: "List.find (\<lambda>b. prefix_matches path (pb_pathPrefix b)) bs = Some b"
    and np: "n = pb_service b" "p = pb_pathPrefix b"
    by (auto simp: serviceFor_def bindingsForHost_key [OF index_ok] split: option.splits)
  note ix = indexes_Some [OF index_ok bs]
  have "length p' \<le> length p" if "bound services (host_key services host) p' n'" "prefix_matches path p'" for p' n'
    using find_longest [OF ix(2) b, of "\<lparr>pb_pathPrefix = p', pb_service = n'\<rparr>"] that np by (simp add: ix(1))
  with find_Some_prop [OF b] ix(1) np show ?thesis by (auto simp: routes_to_def)
qed

lemma route_exists:
  assumes "bound services (host_key services host) p n" "prefix_matches path p"
  shows "\<exists>n' p'. serviceFor (index services) host path = Some (n', p')"
proof -
  from assms have "host_bound services (host_key services host)" by (auto simp: host_bound_def)
  with indexes_None [OF index_ok] obtain bs where bs: "map_of (index services) (host_key services host) = Some bs"
    by (metis not_None_eq)
  from assms have "\<lparr>pb_pathPrefix = p, pb_service = n\<rparr> \<in> set bs" by (simp add: indexes_Some(1) [OF index_ok bs])
  with assms(2) obtain b where "List.find (\<lambda>b. prefix_matches path (pb_pathPrefix b)) bs = Some b"
    using find_Some_exists [of _ bs "\<lambda>b. prefix_matches path (pb_pathPrefix b)"] by fastforce
  with bs show ?thesis by (simp add: serviceFor_def bindingsForHost_key [OF index_ok])
qed

lemma route_iff:
  assumes "conflict_free services" "normal_table services"
  shows "serviceFor (index services) host path = Some (n, p) \<longleftrightarrow> routes_to services host path n p"
proof
  assume r: "routes_to services host path n p"
  then have "bound services (host_key services host) p n" "prefix_matches path p" by (simp_all add: routes_to_def)
  from route_exists [OF this] obtain n' p' where f: "serviceFor (index services) host path = Some (n', p')" by blast
  from route_found [OF this] r have "length p = length p'" by (force simp: routes_to_def)
  with same_match [OF assms] route_found [OF f] r have "p = p' \<and> n = n'" by (auto simp: routes_to_def)
  with f show "serviceFor (index services) host path = Some (n, p)" by simp
qed (rule route_found)

lemma route_none:
  "serviceFor (index services) host path = None \<longleftrightarrow>
     \<not> (\<exists>n p. bound services (host_key services host) p n \<and> prefix_matches path p)"
  using route_exists route_found by (metis not_None_eq routes_to_def surj_pair)

end

interpretation indexing: route_index build_index
  by unfold_locales (rule build_index_indexes)

lemma indexes_route_index: "indexes services rsm \<Longrightarrow> route_index (\<lambda>t. if t = services then rsm else build_index t)"
  by unfold_locales (simp add: build_index_indexes)

lemma indexed_route_iff:
  "indexes services rsm \<Longrightarrow> conflict_free services \<Longrightarrow> normal_table services \<Longrightarrow>
     serviceFor rsm host path = Some (n, p) \<longleftrightarrow> routes_to services host path n p"
  using route_index.route_iff [OF indexes_route_index, of services rsm services] by simp

lemma indexed_route_found:
  "indexes services rsm \<Longrightarrow> serviceFor rsm host path = Some (n, p) \<Longrightarrow> routes_to services host path n p"
  using route_index.route_found [OF indexes_route_index, of services rsm services] by simp

lemma indexed_route_none:
  "indexes services rsm \<Longrightarrow> serviceFor rsm host path = None \<longleftrightarrow>
     \<not> (\<exists>n p. bound services (host_key services host) p n \<and> prefix_matches path p)"
  using route_index.route_none [OF indexes_route_index, of services rsm services] by simp

subsection \<open>TLS settings follow the root service\<close>

lemma root_match:
  assumes "normal_prefix p"
  shows "prefix_matches rootPath p \<longleftrightarrow> p = rootPath"
  using assms normal_prefix_root
  by (cases p) (auto simp: prefix_matches_def EnsureTrailingSlash_normal rootPath_def HasPrefix_def
      HasSuffix_def EnsureTrailingSlash_def normal_prefix_def)

lemma root_service:
  assumes "wf_map services" "normal_table services" "indexes services rsm" "ServiceForHost rsm host = Some r"
  shows "\<exists>rs. map_of services r = Some rs \<and> servesRootPath rs"
proof -
  from assms(4) obtain p where "serviceFor rsm host rootPath = Some (r, p)" by (auto simp: ServiceForHost_def)
  from indexed_route_found [OF assms(3) this] have "bound services (host_key services host) p r"
    and "prefix_matches rootPath p" by (simp_all add: routes_to_def)
  with root_match [OF bound_normal [OF assms(2)]] have "bound services (host_key services host) rootPath r" by blast
  with assms(1) show ?thesis by (auto simp: bound_def servesRootPath_def in_set_map_of_iff)
qed

lemma with_tls_fields [simp]:
  "so_Hosts (sv_options (with_tls so s)) = so_Hosts (sv_options s)"
  "so_PathPrefixes (sv_options (with_tls so s)) = so_PathPrefixes (sv_options s)"
  "so_TLSEnabled (sv_options (with_tls so s)) = so_TLSEnabled so"
  "so_TLSRedirect (sv_options (with_tls so s)) = so_TLSRedirect so"
  "sv_name (with_tls so s) = sv_name s"
  by (simp_all add: with_tls_def)

lemma sync_service_fields [simp]:
  "so_Hosts (sv_options (sync_service rsm t s)) = so_Hosts (sv_options s)"
  "so_PathPrefixes (sv_options (sync_service rsm t s)) = so_PathPrefixes (sv_options s)"
  "sv_name (sync_service rsm t s) = sv_name s"
  by (simp_all add: sync_service_def split: option.splits)

text \<open>The services that are read by the loop serve the root path, and the loop changes only services
  that do not; so it does not matter in which order it visits them.\<close>

lemma sync_service_stable:
  assumes "wf_map services" "normal_table services" "indexes services rsm"
    and "\<And>n rs. map_of services n = Some rs \<Longrightarrow> servesRootPath rs \<Longrightarrow> map_of t n = Some rs"
  shows "sync_service rsm t s = sync_service rsm services s"
proof (cases "ServiceForHost rsm (first_host s)")
  case None
  then show ?thesis by (simp add: sync_service_def)
next
  case (Some r)
  with root_service [OF assms(1-3)] obtain rs where rs: "map_of services r = Some rs" "servesRootPath rs" by blast
  with assms(4) have "map_of t r = Some rs" by blast
  with rs Some show ?thesis by (simp add: sync_service_def)
qed

lemma sync_loop:
  assumes "wf_map services" "normal_table services" "indexes services rsm" "distinct ns"
    and "set ns \<subseteq> set (keys services)"
  shows "keys (foldl (sync_name rsm) services ns) = keys services
    \<and> map_of (foldl (sync_name rsm) services ns) =
      (\<lambda>n. if n \<in> set ns then map_option (sync_service rsm services) (map_of services n) else map_of services n)"
  using assms(4,5)
proof (induction ns rule: rev_induct)
  case Nil
  then show ?case by simp
next
  case (snoc k ns)
  let ?t = "foldl (sync_name rsm) services ns"
  from snoc have ih: "keys ?t = keys services" "map_of ?t = (\<lambda>n. if n \<in> set ns
      then map_option (sync_service rsm services) (map_of services n) else map_of services n)" by simp_all
  from snoc.prems obtain s where s: "map_of services k = Some s" "k \<notin> set ns"
    by (auto simp: keys_def dest: weak_map_of_SomeI)
  have "sync_service rsm ?t s = sync_service rsm services s"
    by (rule sync_service_stable [OF assms(1-3)]) (simp add: ih(2) sync_service_def)
  with s ih have "sync_name rsm ?t k = map_put k (sync_service rsm services s) ?t" by (simp add: sync_name_def)
  with s ih snoc.prems show ?case by (auto simp: map_put_update_same_keys fun_eq_iff)
qed

lemma update_services:
  assumes "wf_map (sm_services m)" "normal_table (sm_services m)"
  shows "keys (sm_services (updateRequestServiceMap m)) = keys (sm_services m)"
    and "map_of (sm_services (updateRequestServiceMap m)) n =
      map_option (sync_service (build_index (sm_services m)) (sm_services m)) (map_of (sm_services m) n)"
proof -
  note l = sync_loop [OF assms build_index_indexes, of "keys (sm_services m)"]
  from assms(1) have "distinct (keys (sm_services m))" by (simp add: wf_map_def)
  with l show "keys (sm_services (updateRequestServiceMap m)) = keys (sm_services m)"
    by (simp add: updateRequestServiceMap_def syncTLSOptionsFromRootDomain_def)
  have "n \<notin> set (keys (sm_services m)) \<Longrightarrow> map_of (sm_services m) n = None" by (simp add: keys_def map_of_eq_None_iff)
  with l \<open>distinct _\<close> show "map_of (sm_services (updateRequestServiceMap m)) n =
      map_option (sync_service (build_index (sm_services m)) (sm_services m)) (map_of (sm_services m) n)"
    by (simp add: updateRequestServiceMap_def syncTLSOptionsFromRootDomain_def)
qed

lemma update_requests [simp]: "sm_requests (updateRequestServiceMap m) = build_index (sm_services m)"
  by (simp add: updateRequestServiceMap_def syncTLSOptionsFromRootDomain_def)

lemma wf_map_keys: "keys t = keys t' \<Longrightarrow> wf_map t \<longleftrightarrow> wf_map t'"
  by (simp add: wf_map_def)

lemma update_in_set:
  assumes "wf_map (sm_services m)" "normal_table (sm_services m)"
  shows "(n, s') \<in> set (sm_services (updateRequestServiceMap m)) \<longleftrightarrow>
    (\<exists>s. (n, s) \<in> set (sm_services m) \<and> s' = sync_service (build_index (sm_services m)) (sm_services m) s)"
proof -
  from update_services(1) [OF assms] assms(1) have "wf_map (sm_services (updateRequestServiceMap m))"
    by (simp add: wf_map_def)
  with assms(1) update_services(2) [OF assms] show ?thesis by (auto simp: in_set_map_of_iff)
qed

lemma update_bound:
  assumes "wf_map (sm_services m)" "normal_table (sm_services m)"
  shows "bound (sm_services (updateRequestServiceMap m)) = bound (sm_services m)"
  unfolding bound_def fun_eq_iff update_in_set [OF assms] by fastforce

lemma indexes_bound: "bound t = bound t' \<Longrightarrow> indexes t rsm \<longleftrightarrow> indexes t' rsm"
  by (simp add: indexes_def cong: option.case_cong)

subsection \<open>The map stays consistent\<close>

definition sm_ok :: "ServiceMap \<Rightarrow> bool" where
  "sm_ok m \<longleftrightarrow> wf_map (sm_services m) \<and> (\<forall>(n, s) \<in> set (sm_services m). sv_name s = n)
     \<and> normal_table (sm_services m) \<and> conflict_free (sm_services m)
     \<and> indexes (sm_services m) (sm_requests m)"

lemma update_sm_ok:
  assumes "wf_map (sm_services m)" "\<forall>(n, s) \<in> set (sm_services m). sv_name s = n"
    and "normal_table (sm_services m)" "conflict_free (sm_services m)"
  shows "sm_ok (updateRequestServiceMap m)"
proof -
  note b = update_bound [OF assms(1,3)] and i = update_in_set [OF assms(1,3)]
  have "wf_map (sm_services (updateRequestServiceMap m))"
    using update_services(1) [OF assms(1,3)] assms(1) by (simp add: wf_map_def)
  moreover have "sv_name s' = n \<and> normal_options (sv_options s')"
    if "(n, s') \<in> set (sm_services (updateRequestServiceMap m))" for n s'
  proof -
    from that i obtain s where "(n, s) \<in> set (sm_services m)"
      "s' = sync_service (build_index (sm_services m)) (sm_services m) s" by blast
    with assms(2,3) show ?thesis by (auto simp: normal_table_def normal_options_def)
  qed
  moreover have "conflict_free (sm_services (updateRequestServiceMap m))"
    using assms(4) by (simp add: conflict_free_def b)
  moreover have "indexes (sm_services (updateRequestServiceMap m)) (sm_requests (updateRequestServiceMap m))"
    using build_index_indexes indexes_bound [OF b] by simp
  ultimately show ?thesis unfolding sm_ok_def normal_table_def by blast
qed

lemma table_put_all:
  assumes "wf_map t" "\<forall>(n, s) \<in> set t. P n s" "P k v"
  shows "\<forall>(n, s) \<in> set (map_put k v t). P n s"
proof clarify
  fix n s assume "(n, s) \<in> set (map_put k v t)"
  with assms show "P n s" by (cases "n = k") (auto simp: set_map_put_iff)
qed

lemma sm_ok_route:
  "sm_ok m \<Longrightarrow> serviceFor (sm_requests m) host path = Some (n, p) \<longleftrightarrow> routes_to (sm_services m) host path n p"
  using indexed_route_iff [of "sm_services m" "sm_requests m"] by (simp add: sm_ok_def)

lemma bound_put:
  assumes "wf_map t"
  shows "bound (map_put n s t) host p k \<longleftrightarrow>
    (if k = n then host \<in> set (so_Hosts (sv_options s)) \<and> p \<in> set (so_PathPrefixes (sv_options s))
     else bound t host p k)"
  using assms by (auto simp: bound_def set_map_put_iff)

lemma bound_delete: "bound (map_delete n t) host p k \<longleftrightarrow> k \<noteq> n \<and> bound t host p k"
  by (auto simp: bound_def map_delete_def)

lemma CheckAvailability_iff:
  assumes "sm_ok m"
  shows "CheckAvailability m name options = None \<longleftrightarrow>
     \<not> (\<exists>host \<in> set (so_Hosts options). \<exists>p \<in> set (so_PathPrefixes options). \<exists>n.
          n \<noteq> name \<and> bound (sm_services m) host p n)"
proof -
  from assms have ix: "indexes (sm_services m) (sm_requests m)" by (simp add: sm_ok_def)
  have b: "b \<in> set (host_bindings (sm_requests m) host) \<longleftrightarrow>
      bound (sm_services m) host (pb_pathPrefix b) (pb_service b)" for b host
    using indexes_None [OF ix, of host] indexes_Some(1) [OF ix, of host]
    by (auto simp: host_bound_def host_bindings_def split: option.splits)
  have "CheckAvailability m name options = None \<longleftrightarrow>
     (\<forall>host \<in> set (so_Hosts options). \<forall>p \<in> set (so_PathPrefixes options).
        \<forall>b :: pathBinding. bound (sm_services m) host (pb_pathPrefix b) (pb_service b) \<and> p = pb_pathPrefix b \<longrightarrow> pb_service b = name)"
    unfolding CheckAvailability_def by (simp add: find_None_iff_all b)
  then show ?thesis by (metis pathBinding.select_convs(1,2))
qed

lemma CheckAvailability_conflict:
  assumes "sm_ok m" "CheckAvailability m name options = Some n"
  shows "n \<noteq> name \<and> (\<exists>host \<in> set (so_Hosts options). \<exists>p \<in> set (so_PathPrefixes options).
     bound (sm_services m) host p n)"
proof -
  from assms(2) obtain b host where b: "pb_service b = n" "n \<noteq> name" "host \<in> set (so_Hosts options)"
    "pb_pathPrefix b \<in> set (so_PathPrefixes options)" "b \<in> set (host_bindings (sm_requests m) host)"
    by (auto simp: CheckAvailability_def dest!: find_Some_prop)
  from b(5) obtain bs where "map_of (sm_requests m) host = Some bs" "b \<in> set bs"
    by (cases "map_of (sm_requests m) host") (simp_all add: host_bindings_def)
  with assms(1) b(1) have "bound (sm_services m) host (pb_pathPrefix b) n"
    using indexes_Some(1) by (fastforce simp: sm_ok_def)
  with b show ?thesis by blast
qed

lemma put_conflict_free:
  assumes ok: "sm_ok m" and free: "CheckAvailability m (sv_name s) (sv_options s) = None"
  shows "conflict_free (map_put (sv_name s) s (sm_services m))"
proof -
  from ok have wf: "wf_map (sm_services m)" and cf: "conflict_free (sm_services m)" by (simp_all add: sm_ok_def)
  from free have "\<And>host p n. host \<in> set (so_Hosts (sv_options s)) \<Longrightarrow> p \<in> set (so_PathPrefixes (sv_options s)) \<Longrightarrow>
      bound (sm_services m) host p n \<Longrightarrow> n = sv_name s"
    unfolding CheckAvailability_iff [OF ok] by blast
  with cf show ?thesis unfolding conflict_free_def bound_put [OF wf] by (smt (verit, best))
qed

lemma delete_conflict_free: "conflict_free t \<Longrightarrow> conflict_free (map_delete n t)"
  unfolding conflict_free_def bound_delete by blast

lemma Set_sm_ok:
  assumes ok: "sm_ok m" and no: "normal_options (sv_options s)"
    and free: "CheckAvailability m (sv_name s) (sv_options s) = None"
  shows "sm_ok (ServiceMap_Set s m)"
proof -
  let ?t = "map_put (sv_name s) s (sm_services m)"
  from ok have wf: "wf_map (sm_services m)" by (simp add: sm_ok_def)
  have "\<forall>(n, s') \<in> set ?t. sv_name s' = n" "normal_table ?t"
    unfolding normal_table_def
    by (rule table_put_all [OF wf]; use ok no in \<open>simp add: sm_ok_def normal_table_def\<close>)+
  with put_conflict_free [OF ok free] show ?thesis unfolding ServiceMap_Set_def using wf
    by (intro update_sm_ok) (simp_all add: wf_map_put)
qed

lemma Remove_sm_ok:
  assumes ok: "sm_ok m"
  shows "sm_ok (ServiceMap_Remove name m)"
proof -
  have "\<forall>(n, s) \<in> set (map_delete name (sm_services m)). sv_name s = n" "normal_table (map_delete name (sm_services m))"
    using ok by (auto simp: sm_ok_def normal_table_def map_delete_def)
  moreover have "conflict_free (map_delete name (sm_services m))"
    using ok by (simp add: sm_ok_def delete_conflict_free)
  ultimately show ?thesis unfolding ServiceMap_Remove_def using ok
    by (intro update_sm_ok) (auto simp: sm_ok_def)
qed

lemma NewServiceMap_ok: "sm_ok NewServiceMap"
  by (simp add: sm_ok_def NewServiceMap_def normal_table_def conflict_free_def bound_def indexes_def)

lemma Set_bound:
  assumes "sm_ok m" "normal_options (sv_options s)"
  shows "bound (sm_services (ServiceMap_Set s m)) host p k \<longleftrightarrow>
    (if k = sv_name s then host \<in> set (so_Hosts (sv_options s)) \<and> p \<in> set (so_PathPrefixes (sv_options s))
     else bound (sm_services m) host p k)"
proof -
  from assms have wf: "wf_map (sm_services m)" by (simp add: sm_ok_def)
  from assms have "normal_table (map_put (sv_name s) s (sm_services m))"
    unfolding normal_table_def by (intro table_put_all [OF wf]) (simp_all add: sm_ok_def normal_table_def)
  with wf show ?thesis unfolding ServiceMap_Set_def
    by (subst update_bound) (auto simp: bound_put)
qed

text \<open>C1: in a consistent map a request is routed to the service with the longest matching path prefix
  among those bound to its host, where the exact host wins over the wildcard of its parent domain and
  that over the services for any host; it finds none exactly when no prefix there matches. The choice
  does not depend on the order in which the services or bindings of equal length are kept.\<close>

theorem routing_longest_prefix:
  assumes "sm_ok m"
  shows "(serviceFor (sm_requests m) host path = Some (n, p) \<longleftrightarrow> routes_to (sm_services m) host path n p)
    \<and> (serviceFor (sm_requests m) host path = None \<longleftrightarrow>
         \<not> (\<exists>n p. bound (sm_services m) (host_key (sm_services m) host) p n \<and> prefix_matches path p))
    \<and> (\<forall>services' rsm'. set services' = set (sm_services m) \<and> indexes services' rsm' \<longrightarrow>
         serviceFor rsm' host path = serviceFor (sm_requests m) host path)"
proof (intro conjI allI impI)
  from assms have ok: "indexes (sm_services m) (sm_requests m)" "conflict_free (sm_services m)"
    "normal_table (sm_services m)" by (simp_all add: sm_ok_def)
  from indexed_route_iff [OF ok]
  show "serviceFor (sm_requests m) host path = Some (n, p) \<longleftrightarrow> routes_to (sm_services m) host path n p" .
  from indexed_route_none [OF ok(1)]
  show "serviceFor (sm_requests m) host path = None \<longleftrightarrow>
     \<not> (\<exists>n p. bound (sm_services m) (host_key (sm_services m) host) p n \<and> prefix_matches path p)" .
  fix services' rsm' assume p: "set services' = set (sm_services m) \<and> indexes services' rsm'"
  then have "bound services' = bound (sm_services m)" by (simp add: bound_def fun_eq_iff)
  with p ok have ix: "indexes (sm_services m) rsm'" using indexes_bound by blast
  have "serviceFor rsm' host path = Some r \<longleftrightarrow> serviceFor (sm_requests m) host path = Some r" for r
    using indexed_route_iff [OF ok] indexed_route_iff [OF ix ok(2,3)] by (cases r) simp
  then show "serviceFor rsm' host path = serviceFor (sm_requests m) host path" by (metis not_None_eq)
qed

text \<open>C6: the availability check refuses a deployment exactly when another service already has one of
  its host and prefix pairs, and names such a service; installing a service that passed it, or
  removing one, keeps the map consistent, so no two services ever claim the same pair.\<close>

theorem availability_guards_map:
  assumes "sm_ok m" and "normal_options (sv_options s)"
  shows "(CheckAvailability m (sv_name s) (sv_options s) = None \<longleftrightarrow>
        \<not> (\<exists>host \<in> set (so_Hosts (sv_options s)). \<exists>p \<in> set (so_PathPrefixes (sv_options s)). \<exists>n.
             n \<noteq> sv_name s \<and> bound (sm_services m) host p n))
    \<and> (\<forall>n. CheckAvailability m (sv_name s) (sv_options s) = Some n \<longrightarrow> n \<noteq> sv_name s \<and>
         (\<exists>host \<in> set (so_Hosts (sv_options s)). \<exists>p \<in> set (so_PathPrefixes (sv_options s)).
            bound (sm_services m) host p n))
    \<and> (CheckAvailability m (sv_name s) (sv_options s) = None \<longrightarrow> sm_ok (ServiceMap_Set s m))
    \<and> sm_ok (ServiceMap_Remove name m)"
  using CheckAvailability_iff [OF assms(1)] CheckAvailability_conflict [OF assms(1)]
    Set_sm_ok [OF assms] Remove_sm_ok [OF assms(1)] by blast

text \<open>Installing a service does not disturb the others: on a host that neither the new nor the
  replaced version of the service names, and that some service names exactly, every path is
  routed as before.\<close>

theorem set_leaves_other_hosts:
  assumes "sm_ok m" and "normal_options (sv_options s)"
    and "CheckAvailability m (sv_name s) (sv_options s) = None"
    and "host \<notin> set (so_Hosts (sv_options s))" and "\<And>p. \<not> bound (sm_services m) host p (sv_name s)"
    and "host_bound (sm_services m) host"
  shows "serviceFor (sm_requests (ServiceMap_Set s m)) host path = serviceFor (sm_requests m) host path"
proof -
  let ?m = "ServiceMap_Set s m"
  from assms have ok: "sm_ok ?m" by (simp add: Set_sm_ok)
  have b: "bound (sm_services ?m) host p k = bound (sm_services m) host p k" for p k
    using Set_bound [OF assms(1,2)] assms(4,5) by auto
  then have "host_bound (sm_services ?m) host" using assms(6) by (simp add: host_bound_def)
  with assms(6) have "routes_to (sm_services ?m) host path n p = routes_to (sm_services m) host path n p" for n p
    by (simp add: routes_to_def host_key_def b)
  then have "serviceFor (sm_requests ?m) host path = Some (n, p) \<longleftrightarrow>
      serviceFor (sm_requests m) host path = Some (n, p)" for n p
    using ok assms(1) by (simp add: sm_ok_route)
  then show ?thesis by (metis not_None_eq surj_pair)
qed

text \<open>C20: after every change of the map, a service that serves the root path has its own TLS settings,
  and any other service has those of the service that answers the root path of its first host, or the
  defaults when there is none; all else about it is unchanged.\<close>

theorem tls_follows_root:
  assumes "wf_map (sm_services m)" and "normal_table (sm_services m)"
    and "map_of (sm_services (updateRequestServiceMap m)) n = Some s'"
  shows "\<exists>s. map_of (sm_services m) n = Some s \<and>
    (if servesRootPath s then s' = s
     else (case ServiceForHost (sm_requests (updateRequestServiceMap m)) (first_host s) of
             None \<Rightarrow> s' = with_tls defaultServiceOptions s
           | Some r \<Rightarrow> (\<exists>rs. map_of (sm_services (updateRequestServiceMap m)) r = Some rs
                \<and> servesRootPath rs \<and> s' = with_tls (sv_options rs) s)))"
proof -
  note u = update_services(2) [OF assms(1,2)]
  from assms(3) obtain s where s: "map_of (sm_services m) n = Some s"
    "s' = sync_service (build_index (sm_services m)) (sm_services m) s" by (auto simp: u)
  show ?thesis
  proof (cases "ServiceForHost (build_index (sm_services m)) (first_host s)")
    case None
    with s show ?thesis by (simp add: sync_service_def)
  next
    case (Some r)
    with root_service [OF assms(1,2) build_index_indexes] obtain rs where
      "map_of (sm_services m) r = Some rs" "servesRootPath rs" by blast
    with s Some show ?thesis by (simp add: sync_service_def u)
  qed
qed

subsection \<open>Examples\<close>

definition ex_map :: ServiceMap where
  "ex_map = ServiceMap_Set example_service NewServiceMap"

definition ex_api :: Service where
  "ex_api = example_service\<lparr>sv_name := ''api'',
     sv_options := example_service_options\<lparr>so_Hosts := [''api''], so_PathPrefixes := [''/v1'']\<rparr>\<rparr>"

lemma example_normal: "normal_options (sv_options example_service)" "normal_options (sv_options ex_api)"
  by (simp_all add: example_service_def ex_api_def normal_options_def example_service_options_def
      normal_prefix_def rootPath_def HasPrefix_def HasSuffix_def suffix_def)
     (metis append_butlast_last_id last.simps)?

lemma ex_free: "CheckAvailability NewServiceMap n so = None"
  by (simp add: CheckAvailability_def NewServiceMap_def host_bindings_def find_None_iff_all)

lemma ex_map_ok: "sm_ok ex_map"
  unfolding ex_map_def by (rule Set_sm_ok [OF NewServiceMap_ok example_normal(1) ex_free])

lemma ex_map_bound: "bound (sm_services ex_map) host p n \<longleftrightarrow> n = ''web'' \<and> host = ''app'' \<and> p = ''/''"
  unfolding ex_map_def Set_bound [OF NewServiceMap_ok example_normal(1)]
  by (auto simp: example_service_def example_service_options_def NewServiceMap_def bound_def)

theorem routing_longest_prefix_witness:
  "sm_ok ex_map \<and> serviceFor (sm_requests ex_map) ''app'' ''/x'' = Some (''web'', ''/'')"
proof -
  have "routes_to (sm_services ex_map) ''app'' ''/x'' ''web'' ''/''"
    by (simp add: routes_to_def ex_map_bound host_key_def host_bound_def prefix_matches_def
        EnsureTrailingSlash_def HasSuffix_def HasPrefix_def)
  with routing_longest_prefix [OF ex_map_ok, of "''app''" "''/x''" "''web''" "''/''"] ex_map_ok show ?thesis by blast
qed

lemma ex_api_free: "CheckAvailability ex_map (sv_name ex_api) (sv_options ex_api) = None"
  unfolding CheckAvailability_iff [OF ex_map_ok] ex_map_bound
  by (simp add: ex_api_def example_service_options_def)

theorem availability_guards_map_witness: "sm_ok (ServiceMap_Set ex_api ex_map)"
  using availability_guards_map [OF ex_map_ok example_normal(2)] ex_api_free by blast

theorem set_leaves_other_hosts_witness:
  "serviceFor (sm_requests (ServiceMap_Set ex_api ex_map)) ''app'' ''/'' = serviceFor (sm_requests ex_map) ''app'' ''/''"
  by (rule set_leaves_other_hosts [OF ex_map_ok example_normal(2) ex_api_free])
     (simp_all add: ex_map_bound host_bound_def ex_api_def example_service_options_def)

theorem tls_follows_root_witness:
  "\<exists>s'. map_of (sm_services (updateRequestServiceMap (NewServiceMap\<lparr>sm_services := [(''api'', ex_api)]\<rparr>))) ''api'' = Some s'
    \<and> so_TLSRedirect (sv_options s')"
proof -
  let ?m = "NewServiceMap\<lparr>sm_services := [(''api'', ex_api)]\<rparr>"
  have t: "wf_map (sm_services ?m)" "normal_table (sm_services ?m)"
    using example_normal(2) by (simp_all add: normal_table_def)
  then obtain s' where s': "map_of (sm_services (updateRequestServiceMap ?m)) ''api'' = Some s'"
    using update_services(2) [OF t, of "''api''"] by auto
  have "ServiceForHost (build_index [(''api'', ex_api)]) ''api'' = None"
    by code_simp
  with tls_follows_root [OF t s'] s' show ?thesis
    by (auto simp: ex_api_def example_service_options_def servesRootPath_def rootPath_def first_host_def
        defaultServiceOptions_def)
qed

end
