(* ===== verification/Routers.thy ===== *)
theory Routers
  imports ServiceMaps
begin

section \<open>The router\<close>

text \<open>
  Models \<open>internal/server/router.go\<close>: the commands that deploy, roll out, pause, stop, resume and
  remove services, the snapshot of the state after each, its restoration, and the dispatch of
  requests. A command runs to its end before the next one starts (\<open>Overlaps\<close> lifts this). Deploying waits for health checks:
  the reports that arrive before the timeout are an argument. A failed write of the state file is an
  input too (\<open>env_state_writable\<close>).
\<close>

record Router =
  r_services :: ServiceMap
  r_channels :: Channels
  r_requests :: ReqStore
  r_saved :: "marshalledService list option"

text \<open>\<open>r_saved\<close> is the content of the state file, \<open>None\<close> when there is none.\<close>

definition NewRouter :: "marshalledService list option \<Rightarrow> Router" where
  "NewRouter saved = \<lparr>r_services = NewServiceMap, r_channels = \<lparr>ch_next = 0, ch_closed = {}\<rparr>,
     r_requests = Map.empty, r_saved = saved\<rparr>"

subsection \<open>Waiting for a deployment to become healthy\<close>

definition health_report :: "LoadBalancer \<Rightarrow> nat \<times> bool \<Rightarrow> LoadBalancer" where
  "health_report lb = (\<lambda>(i, ok).
     if i < length (lb_all lb) then
       (let completed = HealthCheckCompleted ok (lb_all lb ! i);
            lb' = lb\<lparr>lb_all := (lb_all lb)[i := fst completed]\<rparr>
        in if snd completed then TargetStateChanged lb' else lb')
     else lb)"

definition createLoadBalancer ::
  "(nat \<times> bool) list \<Rightarrow> string list \<Rightarrow> string list \<Rightarrow> ServiceOptions \<Rightarrow> TargetOptions \<Rightarrow> duration \<Rightarrow>
     LoadBalancer result" where
  "createLoadBalancer reports targetURLs readerURLs options targetOptions deployTimeout =
     (case NewTargetList targetURLs readerURLs targetOptions of
        Inl err \<Rightarrow> Inl err
      | Inr ts \<Rightarrow>
          (let lb = foldl health_report
                 (NewLoadBalancer ts (so_WriterAffinityTimeout options) (so_ReadTargetsAcceptWebsockets options)) reports
           in case WaitUntilHealthy deployTimeout (lb_healthy lb) of
                Inl err \<Rightarrow> Inl err
              | Inr _ \<Rightarrow> Inr lb))"

subsection \<open>Saving and restoring\<close>

fun marshal_all :: "service_table \<Rightarrow> marshalledService list outcome" where
  "marshal_all [] = Returns []"
| "marshal_all ((n, s) # t) =
     bind_outcome (Service_MarshalJSON s) (\<lambda>ms. bind_outcome (marshal_all t) (\<lambda>mss. Returns (ms # mss)))"

text \<open>The file is created before the services are encoded; an error is dropped by every caller.\<close>

definition saveStateSnapshot :: "Environment \<Rightarrow> Router \<Rightarrow> Router outcome" where
  "saveStateSnapshot env r =
     (if \<not> env_state_writable env then Returns r
      else bind_outcome (marshal_all (sm_services (r_services r))) (\<lambda>mss. Returns (r\<lparr>r_saved := Some mss\<rparr>)))"

fun unmarshal_all ::
  "Environment \<Rightarrow> marshalledService list \<Rightarrow> Channels \<Rightarrow> (Service list result \<times> Channels) outcome" where
  "unmarshal_all env [] h = Returns (Inr [], h)"
| "unmarshal_all env (ms # mss) h =
     bind_outcome (Service_UnmarshalJSON env ms h) (\<lambda>(res, h1).
       case res of
         Inl err \<Rightarrow> Returns (Inl err, h1)
       | Inr s \<Rightarrow> bind_outcome (unmarshal_all env mss h1) (\<lambda>(res', h2).
           Returns (case res' of Inl err \<Rightarrow> Inl err | Inr ss \<Rightarrow> Inr (s # ss), h2)))"

definition RestoreLastSavedState :: "Environment \<Rightarrow> Router \<Rightarrow> (go_error option \<times> Router) outcome" where
  "RestoreLastSavedState env r =
     (case r_saved r of
        None \<Rightarrow> Returns (None, r)
      | Some mss \<Rightarrow>
          bind_outcome (unmarshal_all env mss (r_channels r)) (\<lambda>(res, h).
            Returns (case res of
                Inl err \<Rightarrow> (Some err, r\<lparr>r_channels := h\<rparr>)
              | Inr ss \<Rightarrow> (None, r\<lparr>r_channels := h,
                  r_services := foldl (\<lambda>m s. ServiceMap_Set s m) NewServiceMap ss\<rparr>))))"

subsection \<open>Commands\<close>

text \<open>A change of a service in place, which does not rebuild the routing index.\<close>

definition put_service :: "Service \<Rightarrow> Router \<Rightarrow> Router" where
  "put_service s r =
     r\<lparr>r_services := (r_services r)\<lparr>sm_services := map_put (sv_name s) s (sm_services (r_services r))\<rparr>\<rparr>"

text \<open>\<open>createOrUpdateService\<close>: a service that exists keeps its new options even when they fail to load.\<close>

definition createOrUpdateService ::
  "Environment \<Rightarrow> string \<Rightarrow> ServiceOptions \<Rightarrow> TargetOptions \<Rightarrow> Router \<Rightarrow> Service result \<times> Router" where
  "createOrUpdateService env name options targetOptions r =
     (case ServiceMap_Get (r_services r) name of
        None \<Rightarrow> (case NewService env name options targetOptions of
            (Some err, _) \<Rightarrow> (Inl err, r)
          | (None, s) \<Rightarrow> (Inr s, r))
      | Some s \<Rightarrow> (case UpdateOptions env options targetOptions s of
            (Some err, s') \<Rightarrow> (Inl err, put_service s' r)
          | (None, s') \<Rightarrow> (Inr s', put_service s' r)))"

definition installLoadBalancer ::
  "Environment \<Rightarrow> string \<Rightarrow> TargetSlot \<Rightarrow> LoadBalancer \<Rightarrow> ServiceOptions \<Rightarrow> (Router \<Rightarrow> Service result \<times> Router) \<Rightarrow>
     Router \<Rightarrow> (LoadBalancer option result \<times> Router) outcome" where
  "installLoadBalancer env name slot lb options getService r =
     (let (res, r1) =
        (case CheckAvailability (r_services r) name options of
           Some conflict \<Rightarrow> (Inl ErrorHostInUse, r)
         | None \<Rightarrow>
             (case getService r of
                (Inl err, r') \<Rightarrow> (Inl err, r')
              | (Inr service, r') \<Rightarrow>
                  (let (replaced, service') = UpdateLoadBalancer lb slot service
                   in (Inr replaced, r'\<lparr>r_services := ServiceMap_Set service' (r_services r')\<rparr>))))
      in bind_outcome (saveStateSnapshot env r1) (\<lambda>r2. Returns (res, r2)))"

definition retire :: "LoadBalancer option \<Rightarrow> Router \<Rightarrow> Router" where
  "retire replaced r =
     (case replaced of None \<Rightarrow> r | Some lb \<Rightarrow> r\<lparr>r_requests := DrainAll (Dispose lb) (r_requests r)\<rparr>)"

definition finish_deploy :: "LoadBalancer option result \<times> Router \<Rightarrow> go_error option \<times> Router" where
  "finish_deploy = (\<lambda>(res, r). case res of Inl err \<Rightarrow> (Some err, r) | Inr replaced \<Rightarrow> (None, retire replaced r))"

definition DeployService ::
  "Environment \<Rightarrow> (nat \<times> bool) list \<Rightarrow> string \<Rightarrow> string list \<Rightarrow> string list \<Rightarrow> ServiceOptions \<Rightarrow> TargetOptions \<Rightarrow> duration \<Rightarrow>
     Router \<Rightarrow> (go_error option \<times> Router) outcome" where
  "DeployService env reports name targetURLs readerURLs opts targetOptions deployTimeout r =
     (let options = Normalize opts
      in case createLoadBalancer reports targetURLs readerURLs options targetOptions deployTimeout of
           Inl err \<Rightarrow> Returns (Some err, r)
         | Inr lb \<Rightarrow>
             bind_outcome (installLoadBalancer env name TargetSlotActive lb options
                 (createOrUpdateService env name options targetOptions) r)
               (\<lambda>x. Returns (finish_deploy x)))"

definition SetRolloutTargets ::
  "Environment \<Rightarrow> (nat \<times> bool) list \<Rightarrow> string \<Rightarrow> string list \<Rightarrow> string list \<Rightarrow> duration \<Rightarrow>
     Router \<Rightarrow> (go_error option \<times> Router) outcome" where
  "SetRolloutTargets env reports name targetURLs readerURLs deployTimeout r =
     (case ServiceMap_Get (r_services r) name of
        None \<Rightarrow> Returns (Some ErrorServiceNotFound, r)
      | Some service \<Rightarrow>
          (case createLoadBalancer reports targetURLs readerURLs (sv_options service) (sv_targetOptions service) deployTimeout of
             Inl err \<Rightarrow> Returns (Some err, r)
           | Inr lb \<Rightarrow>
               bind_outcome (installLoadBalancer env name TargetSlotRollout lb (sv_options service)
                   (\<lambda>r'. (Inr service, r')) r)
                 (\<lambda>x. Returns (finish_deploy x))))"

text \<open>The commands that look a service up, change it in place and save.\<close>

definition on_service ::
  "Environment \<Rightarrow> string \<Rightarrow> (Service \<Rightarrow> Router \<Rightarrow> (go_error option \<times> Router) outcome) \<Rightarrow>
     Router \<Rightarrow> (go_error option \<times> Router) outcome" where
  "on_service env name f r =
     bind_outcome
       (case ServiceMap_Get (r_services r) name of
          None \<Rightarrow> Returns (Some ErrorServiceNotFound, r)
        | Some service \<Rightarrow> f service r)
       (\<lambda>(err, r1). bind_outcome (saveStateSnapshot env r1) (\<lambda>r2. Returns (err, r2)))"

definition Router_SetRolloutSplit ::
  "Environment \<Rightarrow> string \<Rightarrow> int \<Rightarrow> string list \<Rightarrow> Router \<Rightarrow> (go_error option \<times> Router) outcome" where
  "Router_SetRolloutSplit env name percent allowList =
     on_service env name (\<lambda>s r. let (err, s') = Service_SetRolloutSplit percent allowList s
                               in Returns (err, put_service s' r))"

definition Router_StopRollout :: "Environment \<Rightarrow> string \<Rightarrow> Router \<Rightarrow> (go_error option \<times> Router) outcome" where
  "Router_StopRollout env name =
     on_service env name (\<lambda>s r. let (err, s') = Service_StopRollout s in Returns (err, put_service s' r))"

definition RemoveService :: "Environment \<Rightarrow> string \<Rightarrow> Router \<Rightarrow> (go_error option \<times> Router) outcome" where
  "RemoveService env name =
     on_service env name (\<lambda>s r. bind_outcome (Service_Dispose s) (\<lambda>s'.
       Returns (None, r\<lparr>r_services := ServiceMap_Remove (sv_name s') (r_services r)\<rparr>)))"

text \<open>\<open>Pause\<close>, \<open>Stop\<close> and \<open>Resume\<close> act on the service, its channel and its requests.\<close>

definition control ::
  "(Service \<times> Channels \<times> ReqStore \<Rightarrow> (Service \<times> Channels \<times> ReqStore) outcome) \<Rightarrow>
     Service \<Rightarrow> Router \<Rightarrow> (go_error option \<times> Router) outcome" where
  "control f s r =
     bind_outcome (f (s, r_channels r, r_requests r)) (\<lambda>(s', h, st).
       Returns (None, put_service s' (r\<lparr>r_channels := h, r_requests := st\<rparr>)))"

definition PauseService :: "Environment \<Rightarrow> string \<Rightarrow> duration \<Rightarrow> Router \<Rightarrow> (go_error option \<times> Router) outcome" where
  "PauseService env name pauseTimeout = on_service env name (control (Service_Pause pauseTimeout))"

definition StopService :: "Environment \<Rightarrow> string \<Rightarrow> string \<Rightarrow> Router \<Rightarrow> (go_error option \<times> Router) outcome" where
  "StopService env name message = on_service env name (control (Service_Stop message))"

definition ResumeService :: "Environment \<Rightarrow> string \<Rightarrow> Router \<Rightarrow> (go_error option \<times> Router) outcome" where
  "ResumeService env name = on_service env name (control Service_Resume)"

subsection \<open>Queries and requests\<close>

record ServiceDescription =
  sd_Host :: string
  sd_Path :: string
  sd_TLS :: bool
  sd_Target :: string
  sd_State :: string

definition describe :: "Service \<Rightarrow> LoadBalancer \<Rightarrow> PauseController \<Rightarrow> ServiceDescription" where
  "describe s lb p =
     (let host = Join (so_Hosts (sv_options s)) '',''
      in \<lparr>sd_Host = (if host = [] then ''*'' else host), sd_Path = Join (so_PathPrefixes (sv_options s)) '','',
          sd_TLS = so_TLSEnabled (sv_options s), sd_Target = Join (TargetList_Names (lb_all lb)) '','',
          sd_State = PauseState_String (pc_State p)\<rparr>)"

fun ListActiveServices :: "service_table \<Rightarrow> (string \<times> ServiceDescription) list outcome" where
  "ListActiveServices [] = Returns []"
| "ListActiveServices ((n, s) # t) =
     (case sv_active s of
        None \<Rightarrow> ListActiveServices t
      | Some lb \<Rightarrow>
          (case sv_pauseController s of
             None \<Rightarrow> Panics ''nil pointer dereference''
           | Some p \<Rightarrow> bind_outcome (ListActiveServices t) (\<lambda>ds. Returns ((n, describe s lb p) # ds))))"

text \<open>The certificate manager that answers a TLS handshake for a server name.\<close>

definition GetCertificate :: "Router \<Rightarrow> string \<Rightarrow> CertManager result" where
  "GetCertificate r serverName =
     (if serverName = [] then Inl ErrorNoServerName
      else (case ServiceForHost (sm_requests (r_services r)) serverName of
              None \<Rightarrow> Inl ErrorUnknownServerName
            | Some name \<Rightarrow>
                (case ServiceMap_Get (r_services r) name of
                   None \<Rightarrow> Inl ErrorUnknownServerName
                 | Some s \<Rightarrow> (case sv_certManager s of
                     None \<Rightarrow> Inl ErrorUnknownServerName
                   | Some cm \<Rightarrow> Inr cm))))"

datatype RouterAnswer = NotFound | AcmeChallenge | Served string Request ServiceAnswer

definition routed_request :: "Service \<Rightarrow> string \<Rightarrow> Request \<Rightarrow> Request" where
  "routed_request s p req =
     (if so_StripPrefix (sv_options s) \<and> p \<noteq> rootPath then req\<lparr>rq_MatchedPrefix := Some p\<rparr> else req)"

text \<open>\<open>Router.ServeHTTP\<close> and the service's handler chain; an \<open>autocert\<close> manager answers challenges itself.\<close>

definition Router_ServeHTTP ::
  "Environment \<Rightarrow> instant \<Rightarrow> nat \<Rightarrow> Request \<Rightarrow> Router \<Rightarrow> (RouterAnswer \<times> Router) outcome" where
  "Router_ServeHTTP env now rid req r =
     (case ServiceForRequest (r_services r) req of
        None \<Rightarrow> Returns (NotFound, r)
      | Some (name, p) \<Rightarrow>
          (case ServiceMap_Get (r_services r) name of
             None \<Rightarrow> Returns (NotFound, r)
           | Some s \<Rightarrow>
               (let req' = routed_request s p req;
                    acme = (case sv_middleware s of
                              Some mw \<Rightarrow> (case mw_certManager mw of Some (AutocertManager _ _ _) \<Rightarrow> True | _ \<Rightarrow> False)
                            | None \<Rightarrow> False)
                in if acme \<and> env_acme_handles env req' then Returns (AcmeChallenge, r)
                   else bind_outcome (serviceRequestWithTarget now rid req' (s, r_requests r)) (\<lambda>(a, s', st).
                     Returns (Served name req' a, put_service s' (r\<lparr>r_requests := st\<rparr>))))))"

subsection \<open>A balancer that became healthy\<close>

lemma HealthCheckCompleted_kept [simp]:
  "t_address (fst (HealthCheckCompleted ok t)) = t_address t"
  "t_readonly (fst (HealthCheckCompleted ok t)) = t_readonly t"
  by (simp_all add: HealthCheckCompleted_def Let_def)

lemma HealthCheckCompleted_healthy:
  "t_state (fst (HealthCheckCompleted ok t)) = TargetStateHealthy \<Longrightarrow> ok \<or> t_state t = TargetStateHealthy"
  by (cases ok; cases "t_state t") (simp_all add: HealthCheckCompleted_def Let_def)

lemma named_kinds_update:
  "t_address t = t_address (ts ! i) \<Longrightarrow> t_readonly t = t_readonly (ts ! i) \<Longrightarrow> named_kinds (ts[i := t]) = named_kinds ts"
  by (cases "i < length ts") (simp_all add: named_kinds_def map_update list_update_same_conv list_update_beyond)

lemma named_kinds_refresh [simp]: "named_kinds (lb_all (updateHealthyTargets lb)) = named_kinds (lb_all lb)"
  by (simp add: update_fields TargetList_StopHealthChecks_def StopHealthChecks_def)

lemma named_kinds_report [simp]: "named_kinds (lb_all (health_report lb x)) = named_kinds (lb_all lb)"
  by (cases x) (simp add: health_report_def TargetStateChanged_def Let_def named_kinds_update)

lemma named_kinds_reports [simp]: "named_kinds (lb_all (foldl health_report lb xs)) = named_kinds (lb_all lb)"
  by (induction xs arbitrary: lb) simp_all

lemma length_named_kinds [simp]: "length (named_kinds ts) = length ts"
  by (simp add: named_kinds_def)

text \<open>Every target that is healthy has reported so, and the balancer counts as healthy only once all have.\<close>

definition reported :: "LoadBalancer \<Rightarrow> (nat \<times> bool) set \<Rightarrow> bool" where
  "reported lb R \<longleftrightarrow>
     (\<forall>i < length (lb_all lb). t_state (lb_all lb ! i) = TargetStateHealthy \<longrightarrow> (i, True) \<in> R)
     \<and> (lb_healthy lb \<longrightarrow> lb_all lb \<noteq> [] \<and> (\<forall>i < length (lb_all lb). (i, True) \<in> R))"

lemma refresh_states:
  "length (lb_all (updateHealthyTargets lb)) = length (lb_all lb)"
  "i < length (lb_all lb) \<Longrightarrow> t_state (lb_all (updateHealthyTargets lb) ! i) = t_state (lb_all lb ! i)"
  by (simp_all add: update_fields stop_nth)

lemma refresh_empty: "lb_all (updateHealthyTargets lb) = [] \<longleftrightarrow> lb_all lb = []"
  by (metis refresh_states(1) length_0_conv)

lemma reported_refresh:
  assumes "reported lb R" "lb_all lb \<noteq> []"
  shows "reported (updateHealthyTargets lb) R"
  using assms unfolding reported_def
  by (auto simp: refresh_states refresh_empty update_fields(3) all_set_conv_all_nth)

lemma reported_report:
  assumes "reported lb R"
  shows "reported (health_report lb (i, ok)) (insert (i, ok) R)"
proof (cases "i < length (lb_all lb)")
  case True
  let ?t = "fst (HealthCheckCompleted ok (lb_all lb ! i))"
  have "reported (lb\<lparr>lb_all := (lb_all lb)[i := ?t]\<rparr>) (insert (i, ok) R)"
    using assms HealthCheckCompleted_healthy [of ok "lb_all lb ! i"] True
    by (auto simp: reported_def nth_list_update)
  with True show ?thesis
    by (auto simp: health_report_def TargetStateChanged_def Let_def intro!: reported_refresh)
next
  case False
  with assms show ?thesis by (auto simp: health_report_def reported_def)
qed

lemma reported_reports: "reported lb R \<Longrightarrow> reported (foldl health_report lb xs) (R \<union> set xs)"
proof (induction xs arbitrary: lb R)
  case Nil
  then show ?case by simp
next
  case (Cons x xs)
  obtain i ok where "x = (i, ok)" by fastforce
  with Cons.IH [OF reported_report [OF Cons.prems, of i ok]] show ?case by simp
qed

lemma collect_targets_Inr:
  "collect_targets new names = Inr ts \<Longrightarrow> list_all2 (\<lambda>n t. new n = Inr t) names ts"
  by (induction names arbitrary: ts) (auto split: sum.splits)

lemma NewTarget_Inr: "NewTarget n o' = Inr t \<Longrightarrow> hostRegex n \<and> t = fresh_target False o' n"
  by (auto simp: NewTarget_def parseTargetURL_def fresh_target_def split: if_splits)

lemma NewReadOnlyTarget_Inr: "NewReadOnlyTarget n o' = Inr t \<Longrightarrow> hostRegex n \<and> t = fresh_target True o' n"
  by (auto simp: NewReadOnlyTarget_def fresh_target_def dest!: NewTarget_Inr split: sum.splits)

lemma collect_fresh:
  assumes "collect_targets new names = Inr ts" "\<And>n t. new n = Inr t \<Longrightarrow> hostRegex n \<and> t = f n"
  shows "list_all hostRegex names \<and> ts = map f names"
  using assms by (induction names arbitrary: ts) (auto split: sum.splits)

lemma NewTargetList_Inr:
  assumes "NewTargetList ws rs o' = Inr ts"
  shows "list_all hostRegex (ws @ rs) \<and> ts = map (fresh_target False o') ws @ map (fresh_target True o') rs"
proof -
  from assms obtain a b where "collect_targets (\<lambda>n. NewTarget n o') ws = Inr a"
    "collect_targets (\<lambda>n. NewReadOnlyTarget n o') rs = Inr b" "ts = a @ b"
    by (auto simp: NewTargetList_def split: sum.splits)
  with collect_fresh [OF _ NewTarget_Inr] collect_fresh [OF _ NewReadOnlyTarget_Inr] show ?thesis by fastforce
qed

lemma created_balancer:
  assumes "createLoadBalancer reports ws rs options o' timeout = Inr lb"
  shows "valid_balancer lb" and "TargetList_Names (WriteTargets lb) = ws" and "TargetList_Names (ReadTargets lb) = rs"
    and "\<forall>i < length ws + length rs. (i, True) \<in> set reports" and "lb_healthy lb"
proof -
  from assms obtain ts where ts: "NewTargetList ws rs o' = Inr ts"
    and lb: "lb = foldl health_report (NewLoadBalancer ts (so_WriterAffinityTimeout options)
      (so_ReadTargetsAcceptWebsockets options)) reports" and h: "lb_healthy lb"
    by (auto simp: createLoadBalancer_def WaitUntilHealthy_def Let_def split: sum.splits if_splits)
  note n = NewTargetList_Inr [OF ts]
  have k: "named_kinds (lb_all lb) = map (\<lambda>n. (n, False)) ws @ map (\<lambda>n. (n, True)) rs"
    using n by (simp add: lb NewLoadBalancer_def TargetList_BeginHealthChecks_def)
       (simp add: named_kinds_def BeginHealthChecks_def)
  have "reported (NewLoadBalancer ts (so_WriterAffinityTimeout options) (so_ReadTargetsAcceptWebsockets options)) {}"
    using n by (auto simp: reported_def NewLoadBalancer_def TargetList_BeginHealthChecks_def BeginHealthChecks_def
        fresh_target_def nth_append)
  from reported_reports [OF this, of reports] h
  have r: "lb_all lb \<noteq> []" "\<forall>i < length (lb_all lb). (i, True) \<in> set reports" by (auto simp: reported_def lb)
  have l: "length (lb_all lb) = length ws + length rs"
    by (metis k length_named_kinds length_append length_map)
  from r(2) l show "\<forall>i < length ws + length rs. (i, True) \<in> set reports" by simp
  show "lb_healthy lb" by (rule h)
  have "hostRegex (t_address t)" if "t \<in> set (lb_all lb)" for t
  proof -
    from that have "(t_address t, t_readonly t) \<in> set (named_kinds (lb_all lb))" by (force simp: named_kinds_def)
    with k n show ?thesis by (auto simp: list_all_iff)
  qed
  with r(1) show "valid_balancer lb" by (simp add: valid_balancer_def)
  show "TargetList_Names (WriteTargets lb) = ws" "TargetList_Names (ReadTargets lb) = rs"
    unfolding WriteTargets_def ReadTargets_def names_matching k by (simp_all add: filter_map comp_def)
qed

subsection \<open>What every command keeps\<close>

text \<open>The channel that requests held by a pause wait on.\<close>

definition held_channel :: "PauseController \<Rightarrow> nat option" where
  "held_channel p = (if pc_State p = PauseStatePaused then pc_pauseChannel p else None)"

definition pause_of :: "Service \<Rightarrow> PauseController" where
  "pause_of s = (case sv_pauseController s of Some p \<Rightarrow> p | None \<Rightarrow> NewPauseController)"

definition services_ok :: "Channels \<Rightarrow> service_table \<Rightarrow> bool" where
  "services_ok h t \<longleftrightarrow> (\<forall>n s. (n, s) \<in> set t \<longrightarrow> sv_name s = n \<and> saveable s \<and> ctl_ok (pause_of s) h)"

definition apart :: "service_table \<Rightarrow> bool" where
  "apart t \<longleftrightarrow> (\<forall>n s n' s'. (n, s) \<in> set t \<longrightarrow> (n', s') \<in> set t \<longrightarrow> n \<noteq> n' \<longrightarrow>
     held_channel (pause_of s) = None \<or> held_channel (pause_of s) \<noteq> held_channel (pause_of s'))"

definition channels_ok :: "Channels \<Rightarrow> bool" where
  "channels_ok h \<longleftrightarrow> (\<forall>c \<in> ch_closed h. c < ch_next h)"

definition rt_ok :: "Router \<Rightarrow> bool" where
  "rt_ok r \<longleftrightarrow> sm_ok (r_services r) \<and> channels_ok (r_channels r)
     \<and> services_ok (r_channels r) (sm_services (r_services r)) \<and> apart (sm_services (r_services r))"

lemma apart_put:
  assumes "wf_map t" "apart t"
    and "\<And>k x. (k, x) \<in> set t \<Longrightarrow> k \<noteq> n \<Longrightarrow>
      held_channel (pause_of x) = None \<or> held_channel (pause_of s) \<noteq> held_channel (pause_of x)"
  shows "apart (map_put n s t)"
  unfolding apart_def
proof (intro allI impI)
  fix k x k' x' assume "(k, x) \<in> set (map_put n s t)" "(k', x') \<in> set (map_put n s t)" "k \<noteq> k'"
  with assms show "held_channel (pause_of x) = None \<or> held_channel (pause_of x) \<noteq> held_channel (pause_of x')"
    unfolding set_map_put_iff [OF assms(1)] apart_def by (cases "k = n"; cases "k' = n") (simp_all, metis+)
qed

lemma apart_image:
  assumes "apart t" "\<And>n s'. (n, s') \<in> set t' \<Longrightarrow> \<exists>s. (n, s) \<in> set t \<and> pause_of s' = pause_of s"
  shows "apart t'"
  using assms unfolding apart_def by metis

lemma services_ok_put:
  assumes "wf_map t" "\<And>k x. (k, x) \<in> set t \<Longrightarrow> k \<noteq> n \<Longrightarrow> sv_name x = k \<and> saveable x \<and> ctl_ok (pause_of x) h"
    and "sv_name s = n" "saveable s" "ctl_ok (pause_of s) h"
  shows "services_ok h (map_put n s t)"
  unfolding services_ok_def
proof (intro allI impI)
  fix k x assume "(k, x) \<in> set (map_put n s t)"
  with assms show "sv_name x = k \<and> saveable x \<and> ctl_ok (pause_of x) h"
    unfolding set_map_put_iff [OF assms(1)] by (cases "k = n") simp_all
qed

lemma saveable_pause: "saveable s \<Longrightarrow> sv_pauseController s = Some (pause_of s)"
  by (auto simp: saveable_def pause_of_def split: option.splits)

lemma saveable_active: "saveable s \<Longrightarrow> \<exists>lb. sv_active s = Some lb"
  by (auto simp: saveable_def split: option.splits)

lemma rt_okD:
  assumes "rt_ok r" "(n, s) \<in> set (sm_services (r_services r))"
  shows "saveable s" "ctl_ok (pause_of s) (r_channels r)" "sv_name s = n"
    and "(n', s') \<in> set (sm_services (r_services r)) \<Longrightarrow> n \<noteq> n' \<Longrightarrow>
      held_channel (pause_of s) = None \<or> held_channel (pause_of s) \<noteq> held_channel (pause_of s')"
  using assms unfolding rt_ok_def services_ok_def apart_def by blast+

lemma rt_ok_Get:
  "rt_ok r \<Longrightarrow> ServiceMap_Get (r_services r) name = Some s \<Longrightarrow> (name, s) \<in> set (sm_services (r_services r))"
  by (simp add: ServiceMap_Get_def map_of_SomeD)

lemma marshal_all_returns: "\<forall>(n, s) \<in> set t. saveable s \<Longrightarrow> \<exists>mss. marshal_all t = Returns mss"
proof (induction t)
  case Nil
  then show ?case by simp
next
  case (Cons x t)
  obtain n s where x: "x = (n, s)" by fastforce
  with Cons.prems saveable_active obtain lb where "sv_active s = Some lb" by fastforce
  with Cons x show ?case by (auto simp: Service_MarshalJSON_def)
qed

lemma rt_ok_saved [simp]: "rt_ok (r\<lparr>r_saved := x\<rparr>) = rt_ok r" "rt_ok (r\<lparr>r_requests := y\<rparr>) = rt_ok r"
  by (simp_all add: rt_ok_def)

lemma save_returns:
  assumes "rt_ok r"
  obtains x where "saveStateSnapshot env r = Returns (r\<lparr>r_saved := x\<rparr>)"
proof (cases "env_state_writable env")
  case True
  from assms have "\<forall>(n, s) \<in> set (sm_services (r_services r)). saveable s" by (auto simp: rt_ok_def services_ok_def)
  with True that show ?thesis using marshal_all_returns by (fastforce simp: saveStateSnapshot_def)
next
  case False
  with that [of "r_saved r"] show ?thesis by (simp add: saveStateSnapshot_def)
qed

text \<open>Pausing, stopping and resuming one service leaves the channels of the others alone.\<close>

lemma pause_command:
  assumes ok: "ctl_ok p h"
    and f: "f = (\<lambda>x. Returns (PauseController_Pause d x)) \<or> f = PauseController_Stop msg \<or> f = PauseController_Resume"
  obtains p' h' where "f (p, h) = Returns (p', h')" and "ctl_ok p' h'"
    and "pc_State p' \<noteq> PauseStateStopped \<longrightarrow> pc_StopMessage p' = []"
    and "held_channel p' = None \<or> held_channel p' = held_channel p \<or> held_channel p' = Some (ch_next h)"
    and "\<And>q. ctl_ok q h \<Longrightarrow> held_channel q = None \<or> held_channel q \<noteq> held_channel p \<Longrightarrow> ctl_ok q h'"
    and "channels_ok h'"
proof -
  from ok have "\<exists>p' h'. f (p, h) = Returns (p', h') \<and> ctl_ok p' h'
      \<and> (pc_State p' \<noteq> PauseStateStopped \<longrightarrow> pc_StopMessage p' = [])
      \<and> (held_channel p' = None \<or> held_channel p' = held_channel p \<or> held_channel p' = Some (ch_next h))
      \<and> (\<forall>q. ctl_ok q h \<longrightarrow> held_channel q = None \<or> held_channel q \<noteq> held_channel p \<longrightarrow> ctl_ok q h')
      \<and> channels_ok h'"
    using f by (cases "pc_State p = PauseStatePaused"; elim disjE)
      (auto simp: pause_defs ctl_ok_def held_channel_def channels_ok_def less_Suc_eq split: if_splits)
  with that show ?thesis by blast
qed

lemma map_put_put: "map_put k v' (map_put k v t) = map_put k v' t"
  by (induction k v t rule: map_put.induct) auto

lemma in_put_self: "(k, v) \<in> set (map_put k v t)"
  by (induction k v t rule: map_put.induct) auto

text \<open>A change in place that keeps a service's hosts and prefixes keeps the map consistent.\<close>

lemma put_sm_ok:
  assumes ok: "sm_ok m" and s: "(n, s) \<in> set (sm_services m)" and n: "sv_name s' = n"
    and same: "so_Hosts (sv_options s') = so_Hosts (sv_options s)"
      "so_PathPrefixes (sv_options s') = so_PathPrefixes (sv_options s)"
  shows "sm_ok (m\<lparr>sm_services := map_put n s' (sm_services m)\<rparr>)"
proof -
  let ?t = "map_put n s' (sm_services m)"
  from ok have wf: "wf_map (sm_services m)" by (simp add: sm_ok_def)
  from wf s have own: "bound (sm_services m) host p n \<longleftrightarrow>
      host \<in> set (so_Hosts (sv_options s)) \<and> p \<in> set (so_PathPrefixes (sv_options s))" for host p
    by (auto simp: bound_def in_set_map_of_iff)
  have b: "bound ?t = bound (sm_services m)"
    unfolding fun_eq_iff bound_put [OF wf] using own same by auto
  from ok s same have "normal_options (sv_options s')"
    by (auto simp: sm_ok_def normal_table_def normal_options_def)
  then have "\<forall>(n, s) \<in> set ?t. sv_name s = n \<and> normal_options (sv_options s)"
    by (intro table_put_all [OF wf]) (use ok n in \<open>auto simp: sm_ok_def normal_table_def\<close>)
  moreover have "indexes ?t (sm_requests m) \<and> conflict_free ?t"
    using ok indexes_bound [OF b] by (simp add: sm_ok_def conflict_free_def b)
  ultimately show ?thesis using wf by (auto simp: sm_ok_def normal_table_def)
qed

text \<open>A command that changes one service in place.\<close>

lemma put_rt_ok:
  assumes ok: "rt_ok r" and s: "(n, s) \<in> set (sm_services (r_services r))" and n: "sv_name s' = n"
    and same: "so_Hosts (sv_options s') = so_Hosts (sv_options s)"
      "so_PathPrefixes (sv_options s') = so_PathPrefixes (sv_options s)"
    and sv: "saveable s'" and c: "ctl_ok (pause_of s') h"
    and others: "\<And>q. ctl_ok q (r_channels r) \<Longrightarrow>
      held_channel q = None \<or> held_channel q \<noteq> held_channel (pause_of s) \<Longrightarrow> ctl_ok q h"
    and fresh: "held_channel (pause_of s') = None \<or> held_channel (pause_of s') = held_channel (pause_of s)
      \<or> held_channel (pause_of s') = Some (ch_next (r_channels r))"
    and closed: "channels_ok h"
  shows "rt_ok (put_service s' (r\<lparr>r_channels := h\<rparr>))"
proof -
  let ?t = "map_put n s' (sm_services (r_services r))"
  from ok have wf: "wf_map (sm_services (r_services r))" by (simp add: rt_ok_def sm_ok_def)
  have old: "saveable x \<and> ctl_ok (pause_of x) h \<and> (held_channel (pause_of x) = None \<or>
      held_channel (pause_of s') \<noteq> held_channel (pause_of x))"
    if x: "(k, x) \<in> set (sm_services (r_services r))" "k \<noteq> n" for k x
  proof -
    note d = rt_okD [OF ok x(1)]
    from d(4) [OF s x(2)] have "held_channel (pause_of x) = None \<or> held_channel (pause_of x) \<noteq> held_channel (pause_of s)" .
    moreover from d(2) have "held_channel (pause_of x) \<noteq> Some (ch_next (r_channels r))"
      by (auto simp: held_channel_def ctl_ok_def)
    ultimately show ?thesis using d(1) others [OF d(2)] fresh by metis
  qed
  have "services_ok h ?t"
    by (rule services_ok_put [OF wf]) (use old n sv c rt_okD(3) [OF ok] in blast)+
  moreover have "apart ?t"
    by (rule apart_put [OF wf]) (use ok old in \<open>auto simp: rt_ok_def\<close>)
  moreover have "sm_ok ((r_services r)\<lparr>sm_services := ?t\<rparr>)"
    by (rule put_sm_ok [OF _ s n same]) (use ok in \<open>simp add: rt_ok_def\<close>)
  ultimately show ?thesis using n closed by (simp add: rt_ok_def put_service_def)
qed

lemma put_rt_ok_same:
  assumes ok: "rt_ok r" and s: "(n, s) \<in> set (sm_services (r_services r))" and "sv_name s' = n"
    and "so_Hosts (sv_options s') = so_Hosts (sv_options s)"
      "so_PathPrefixes (sv_options s') = so_PathPrefixes (sv_options s)"
    and "saveable s'" "sv_pauseController s' = sv_pauseController s"
  shows "rt_ok (put_service s' r)"
proof -
  from assms(7) have p: "pause_of s' = pause_of s" by (simp add: pause_of_def)
  have "rt_ok (put_service s' (r\<lparr>r_channels := r_channels r\<rparr>))"
    by (rule put_rt_ok [OF ok s assms(3-6)]) (use rt_okD(2) [OF ok s] ok p in \<open>simp_all add: rt_ok_def\<close>)
  then show ?thesis by simp
qed

lemma with_pause_rt_ok:
  assumes ok: "rt_ok r" and s: "(n, s) \<in> set (sm_services (r_services r))"
    and f: "f = (\<lambda>x. Returns (PauseController_Pause d x)) \<or> f = PauseController_Stop msg \<or> f = PauseController_Resume"
  obtains s' h where "with_pause f (s, r_channels r) = Returns (s', h)"
    and "rt_ok (put_service s' (r\<lparr>r_channels := h\<rparr>))" and "sv_active s' = sv_active s"
proof -
  note d = rt_okD [OF ok s]
  from pause_command [OF d(2) f] obtain p' h' where
    r: "f (pause_of s, r_channels r) = Returns (p', h')" and c: "ctl_ok p' h'"
    and m: "pc_State p' \<noteq> PauseStateStopped \<longrightarrow> pc_StopMessage p' = []"
    and hc: "held_channel p' = None \<or> held_channel p' = held_channel (pause_of s) \<or> held_channel p' = Some (ch_next (r_channels r))"
    and oth: "\<And>q. ctl_ok q (r_channels r) \<Longrightarrow> held_channel q = None \<or> held_channel q \<noteq> held_channel (pause_of s) \<Longrightarrow> ctl_ok q h'"
    and cl: "channels_ok h'"
    by blast
  let ?s = "s\<lparr>sv_pauseController := Some p'\<rparr>"
  have "pause_of ?s = p'" by (simp add: pause_of_def)
  moreover have "saveable ?s" using d(1) m by (simp add: saveable_def)
  ultimately have "rt_ok (put_service ?s (r\<lparr>r_channels := h'\<rparr>))"
    by (intro put_rt_ok [OF ok s]) (use d(3) c hc oth cl in simp_all)
  moreover have "with_pause f (s, r_channels r) = Returns (?s, h')"
    using r saveable_pause [OF d(1)] by (simp add: with_pause_def)
  ultimately show ?thesis by (intro that [of ?s h']) simp_all
qed

lemma on_service_rt_ok:
  assumes ok: "rt_ok r"
    and f: "\<And>s. (name, s) \<in> set (sm_services (r_services r)) \<Longrightarrow> \<exists>err r'. f s r = Returns (err, r') \<and> rt_ok r'"
  shows "\<exists>err r'. on_service env name f r = Returns (err, r') \<and> rt_ok r'"
proof -
  have "\<exists>err r'. (case ServiceMap_Get (r_services r) name of None \<Rightarrow> Returns (Some ErrorServiceNotFound, r)
      | Some s \<Rightarrow> f s r) = Returns (err, r') \<and> rt_ok r'"
    using ok f rt_ok_Get [OF ok] by (cases "ServiceMap_Get (r_services r) name") auto
  then obtain err r' where r': "(case ServiceMap_Get (r_services r) name of None \<Rightarrow> Returns (Some ErrorServiceNotFound, r)
      | Some s \<Rightarrow> f s r) = Returns (err, r')" "rt_ok r'" by blast
  from save_returns [OF this(2), of env] obtain x where "saveStateSnapshot env r' = Returns (r'\<lparr>r_saved := x\<rparr>)" .
  with r' show ?thesis by (simp add: on_service_def)
qed

lemma put_service_requests [simp]:
  "put_service s (r\<lparr>r_channels := h, r_requests := st\<rparr>) = (put_service s (r\<lparr>r_channels := h\<rparr>))\<lparr>r_requests := st\<rparr>"
  by (simp add: put_service_def)

lemma control_rt_ok:
  assumes ok: "rt_ok r"
  shows "\<exists>err r'. PauseService env name t r = Returns (err, r') \<and> rt_ok r'"
    and "\<exists>err r'. StopService env name msg r = Returns (err, r') \<and> rt_ok r'"
    and "\<exists>err r'. ResumeService env name r = Returns (err, r') \<and> rt_ok r'"
proof -
  have "\<exists>err r'. control (Service_Pause t) s r = Returns (err, r') \<and> rt_ok r'"
    "\<exists>err r'. control (Service_Stop msg) s r = Returns (err, r') \<and> rt_ok r'"
    "\<exists>err r'. control Service_Resume s r = Returns (err, r') \<and> rt_ok r'"
    if s: "(name, s) \<in> set (sm_services (r_services r))" for s
  proof -
    from saveable_active [OF rt_okD(1) [OF ok s]] obtain lb where a: "sv_active s = Some lb" ..
    show "\<exists>err r'. control (Service_Pause t) s r = Returns (err, r') \<and> rt_ok r'"
      by (rule with_pause_rt_ok [OF ok s, of "\<lambda>x. Returns (PauseController_Pause t x)" t])
         (use a in \<open>auto simp: control_def Service_Pause_def Service_Drain_def Let_def\<close>)
    show "\<exists>err r'. control (Service_Stop msg) s r = Returns (err, r') \<and> rt_ok r'"
      by (rule with_pause_rt_ok [OF ok s, of "PauseController_Stop msg" _ msg])
         (use a in \<open>auto simp: control_def Service_Stop_def Service_Drain_def Let_def\<close>)
    show "\<exists>err r'. control Service_Resume s r = Returns (err, r') \<and> rt_ok r'"
      by (rule with_pause_rt_ok [OF ok s, of PauseController_Resume])
         (auto simp: control_def Service_Resume_def)
  qed
  note c = this
  show "\<exists>err r'. PauseService env name t r = Returns (err, r') \<and> rt_ok r'"
    unfolding PauseService_def by (rule on_service_rt_ok [OF ok]) (rule c(1))
  show "\<exists>err r'. StopService env name msg r = Returns (err, r') \<and> rt_ok r'"
    unfolding StopService_def by (rule on_service_rt_ok [OF ok]) (rule c(2))
  show "\<exists>err r'. ResumeService env name r = Returns (err, r') \<and> rt_ok r'"
    unfolding ResumeService_def by (rule on_service_rt_ok [OF ok]) (rule c(3))
qed

lemma rollout_rt_ok:
  assumes ok: "rt_ok r"
  shows "\<exists>err r'. Router_SetRolloutSplit env name n allow r = Returns (err, r') \<and> rt_ok r'"
    and "\<exists>err r'. Router_StopRollout env name r = Returns (err, r') \<and> rt_ok r'"
proof -
  have c: "rt_ok (put_service (snd (Service_SetRolloutSplit n allow s)) r)"
    "rt_ok (put_service (snd (Service_StopRollout s)) r)"
    if s: "(name, s) \<in> set (sm_services (r_services r))" for s
    using rt_okD [OF ok s] by (intro put_rt_ok_same [OF ok s];
        simp add: Service_SetRolloutSplit_def Service_StopRollout_def saveable_def)+
  show "\<exists>err r'. Router_SetRolloutSplit env name n allow r = Returns (err, r') \<and> rt_ok r'"
    unfolding Router_SetRolloutSplit_def by (rule on_service_rt_ok [OF ok]) (use c in \<open>auto simp: split_def Let_def\<close>)
  show "\<exists>err r'. Router_StopRollout env name r = Returns (err, r') \<and> rt_ok r'"
    unfolding Router_StopRollout_def by (rule on_service_rt_ok [OF ok]) (use c in \<open>auto simp: split_def Let_def\<close>)
qed

subsection \<open>Installing and removing services\<close>

lemma sync_service_kept [simp]:
  "saveable (sync_service rsm t s) = saveable s" "pause_of (sync_service rsm t s) = pause_of s"
  "sv_active (sync_service rsm t s) = sv_active s" "sv_rollout (sync_service rsm t s) = sv_rollout s"
  by (auto simp: sync_service_def with_tls_def saveable_def pause_of_def normal_options_def split: option.splits)

lemma saveable_normal: "saveable s \<Longrightarrow> normal_options (sv_options s)"
  by (simp add: saveable_def)

lemma update_rt_ok:
  assumes wf: "wf_map (sm_services m)" and cf: "conflict_free (sm_services m)"
    and ok: "services_ok (r_channels r) (sm_services m)" "apart (sm_services m)" and c: "channels_ok (r_channels r)"
  shows "rt_ok (r\<lparr>r_services := updateRequestServiceMap m\<rparr>)"
proof -
  from ok(1) have nm: "\<forall>(n, s) \<in> set (sm_services m). sv_name s = n" and nt: "normal_table (sm_services m)"
    by (auto simp: services_ok_def normal_table_def saveable_normal)
  have e: "\<exists>s. (n, s) \<in> set (sm_services m) \<and> pause_of s' = pause_of s \<and> saveable s' = saveable s \<and> sv_name s' = sv_name s"
    if "(n, s') \<in> set (sm_services (updateRequestServiceMap m))" for n s'
    using that update_in_set [OF wf nt] by fastforce
  have "services_ok (r_channels r) (sm_services (updateRequestServiceMap m))"
    using e ok(1) unfolding services_ok_def by metis
  moreover have "apart (sm_services (updateRequestServiceMap m))"
    by (rule apart_image [OF ok(2)]) (use e in blast)
  ultimately show ?thesis using c update_sm_ok [OF wf nm nt cf] by (simp add: rt_ok_def)
qed

lemma Set_rt_ok_apart:
  assumes ok: "rt_ok r" and sv: "saveable s'" and c: "ctl_ok (pause_of s') (r_channels r)"
    and free: "CheckAvailability (r_services r) (sv_name s') (sv_options s') = None"
    and held: "\<And>k x. (k, x) \<in> set (sm_services (r_services r)) \<Longrightarrow> k \<noteq> sv_name s' \<Longrightarrow>
      held_channel (pause_of x) = None \<or> held_channel (pause_of s') \<noteq> held_channel (pause_of x)"
  shows "rt_ok (r\<lparr>r_services := ServiceMap_Set s' (r_services r)\<rparr>)"
proof -
  let ?t = "map_put (sv_name s') s' (sm_services (r_services r))"
  from ok have sm: "sm_ok (r_services r)" and ap: "apart (sm_services (r_services r))"
    and cl: "channels_ok (r_channels r)" by (simp_all add: rt_ok_def)
  then have wf: "wf_map (sm_services (r_services r))" by (simp add: sm_ok_def)
  note put_conflict_free [OF sm free]
  moreover have "services_ok (r_channels r) ?t"
    by (rule services_ok_put [OF wf]) (use sv c rt_okD(1-3) [OF ok] in auto)
  moreover have "apart ?t" by (rule apart_put [OF wf ap held])
  ultimately show ?thesis unfolding ServiceMap_Set_def using wf cl
    by (intro update_rt_ok) (simp_all add: wf_map_put)
qed

lemma Set_rt_ok:
  assumes ok: "rt_ok r" and "saveable s'" "ctl_ok (pause_of s') (r_channels r)"
    and "CheckAvailability (r_services r) (sv_name s') (sv_options s') = None"
    and held: "held_channel (pause_of s') = None \<or>
      (\<exists>s. (sv_name s', s) \<in> set (sm_services (r_services r)) \<and> pause_of s' = pause_of s)"
  shows "rt_ok (r\<lparr>r_services := ServiceMap_Set s' (r_services r)\<rparr>)"
  by (rule Set_rt_ok_apart [OF assms(1-4)]) (use held rt_okD(4) [OF ok] in metis)

lemma Remove_rt_ok:
  assumes ok: "rt_ok r"
  shows "rt_ok (r\<lparr>r_services := ServiceMap_Remove name (r_services r)\<rparr>)"
proof -
  let ?t = "map_delete name (sm_services (r_services r))"
  from ok have sm: "sm_ok (r_services r)" and ap: "apart (sm_services (r_services r))"
    and so: "services_ok (r_channels r) (sm_services (r_services r))"
    and cl: "channels_ok (r_channels r)" by (simp_all add: rt_ok_def)
  have "apart ?t" by (rule apart_image [OF ap]) (auto simp: map_delete_def)
  moreover from so have "services_ok (r_channels r) ?t" unfolding services_ok_def map_delete_def by auto
  moreover have "conflict_free ?t" "wf_map ?t" using sm by (auto simp: sm_ok_def intro: delete_conflict_free)
  ultimately show ?thesis unfolding ServiceMap_Remove_def using cl by (intro update_rt_ok) simp_all
qed

lemma RemoveService_rt_ok:
  assumes ok: "rt_ok r"
  shows "\<exists>err r'. RemoveService env name r = Returns (err, r') \<and> rt_ok r'"
  unfolding RemoveService_def
proof (rule on_service_rt_ok [OF ok])
  fix s assume "(name, s) \<in> set (sm_services (r_services r))"
  with saveable_active [OF rt_okD(1) [OF ok]] obtain lb where "sv_active s = Some lb" by blast
  then show "\<exists>err r'. bind_outcome (Service_Dispose s) (\<lambda>s'. Returns (None,
      r\<lparr>r_services := ServiceMap_Remove (sv_name s') (r_services r)\<rparr>)) = Returns (err, r') \<and> rt_ok r'"
    using Remove_rt_ok [OF ok] by (simp add: Service_Dispose_def)
qed

subsection \<open>Deploying\<close>

text \<open>Options whose certificate and error pages can be loaded.\<close>

definition options_load :: "Environment \<Rightarrow> ServiceOptions \<Rightarrow> bool" where
  "options_load env so \<longleftrightarrow>
     (case createCertManager env so of Inl _ \<Rightarrow> False
      | Inr c \<Rightarrow> (case createMiddleware env so c of Inl _ \<Rightarrow> False | Inr _ \<Rightarrow> True))"

lemma NewService_fails: "\<not> options_load env so \<Longrightarrow> \<exists>err s. NewService env name so topts = (Some err, s)"
  by (auto simp: options_load_def NewService_def initialize_def split: sum.splits)

lemma install_returns:
  assumes "CheckAvailability (r_services r) name options = None" "getService r = (Inr service, r')"
    and "UpdateLoadBalancer lb slot service = (replaced, service')"
    and "rt_ok (r'\<lparr>r_services := ServiceMap_Set service' (r_services r')\<rparr>)"
  obtains x where "installLoadBalancer env name slot lb options getService r =
    Returns (Inr replaced, r'\<lparr>r_services := ServiceMap_Set service' (r_services r'), r_saved := x\<rparr>)"
proof -
  from save_returns [OF assms(4), of env] obtain x where
    "saveStateSnapshot env (r'\<lparr>r_services := ServiceMap_Set service' (r_services r')\<rparr>) =
       Returns (r'\<lparr>r_services := ServiceMap_Set service' (r_services r'), r_saved := x\<rparr>)" by auto
  with assms that show ?thesis by (simp add: installLoadBalancer_def)
qed

lemma install_refused:
  assumes "rt_ok r" "CheckAvailability (r_services r) name options \<noteq> None
    \<or> CheckAvailability (r_services r) name options = None \<and> getService r = (Inl err, r)"
  obtains err' x where "installLoadBalancer env name slot lb options getService r = Returns (Inl err', r\<lparr>r_saved := x\<rparr>)"
proof -
  from save_returns [OF assms(1), of env] obtain x where "saveStateSnapshot env r = Returns (r\<lparr>r_saved := x\<rparr>)" .
  with assms(2) that show ?thesis by (cases "CheckAvailability (r_services r) name options")
      (auto simp: installLoadBalancer_def)
qed

text \<open>The service a deployment installs: a new one, or the old one with its options replaced; its
  balancer is the new one.\<close>

lemma deployed_service:
  assumes ok: "rt_ok r" and lb: "valid_balancer lb" and no: "normal_options options" and ld: "options_load env options"
    and free: "CheckAvailability (r_services r) name options = None"
  obtains s r' replaced s' where "createOrUpdateService env name options targetOptions r = (Inr s, r')"
    and "UpdateLoadBalancer lb TargetSlotActive s = (replaced, s')"
    and "replaced = (case ServiceMap_Get (r_services r) name of None \<Rightarrow> None | Some o' \<Rightarrow> sv_active o')"
    and "sv_name s' = name" "sv_options s' = options" "sv_active s' = Some lb"
    and "r'\<lparr>r_services := ServiceMap_Set s' (r_services r')\<rparr> = r\<lparr>r_services := ServiceMap_Set s' (r_services r)\<rparr>"
    and "rt_ok (r\<lparr>r_services := ServiceMap_Set s' (r_services r)\<rparr>)"
proof (cases "ServiceMap_Get (r_services r) name")
  case None
  from ld obtain c m where n: "NewService env name options targetOptions =
    (None, \<lparr>sv_name = name, sv_options = options, sv_targetOptions = targetOptions, sv_active = None, sv_rollout = None,
       sv_pauseController = Some NewPauseController, sv_rolloutController = None, sv_certManager = c, sv_middleware = m\<rparr>)"
    (is "_ = (None, ?s)")
    by (auto simp: NewService_def initialize_def options_load_def split: sum.splits)
  let ?s' = "?s\<lparr>sv_active := Some lb\<rparr>"
  have p: "pause_of ?s' = NewPauseController" by (simp add: pause_of_def)
  have "rt_ok (r\<lparr>r_services := ServiceMap_Set ?s' (r_services r)\<rparr>)"
    by (rule Set_rt_ok [OF ok])
       (use ok lb no free p in \<open>simp_all add: saveable_def NewPauseController_def ctl_ok_def held_channel_def rt_ok_def channels_ok_def\<close>)
  with None n that [of ?s r None ?s'] show ?thesis by (simp add: createOrUpdateService_def UpdateLoadBalancer_def)
next
  case (Some s0)
  note m = rt_ok_Get [OF ok Some] and d = rt_okD [OF ok rt_ok_Get [OF ok Some]]
  from ld obtain c mw where u: "UpdateOptions env options targetOptions s0 =
    (None, s0\<lparr>sv_options := options, sv_targetOptions := targetOptions, sv_certManager := c, sv_middleware := mw\<rparr>)"
    (is "_ = (None, ?s)")
    by (auto simp: UpdateOptions_def initialize_def options_load_def split: sum.splits)
  let ?s' = "?s\<lparr>sv_active := Some lb\<rparr>"
  have p: "pause_of ?s' = pause_of s0" by (simp add: pause_of_def)
  have "rt_ok (r\<lparr>r_services := ServiceMap_Set ?s' (r_services r)\<rparr>)"
    by (rule Set_rt_ok [OF ok]) (use lb no free p d m in \<open>auto simp: saveable_def\<close>)
  moreover have "(put_service ?s r)\<lparr>r_services := ServiceMap_Set ?s' (r_services (put_service ?s r))\<rparr> =
      r\<lparr>r_services := ServiceMap_Set ?s' (r_services r)\<rparr>"
    by (simp add: put_service_def ServiceMap_Set_def updateRequestServiceMap_def syncTLSOptionsFromRootDomain_def map_put_put)
  moreover have "createOrUpdateService env name options targetOptions r = (Inr ?s, put_service ?s r)"
    using Some u by (simp add: createOrUpdateService_def)
  moreover have "UpdateLoadBalancer lb TargetSlotActive ?s = (sv_active s0, ?s')"
    by (simp add: UpdateLoadBalancer_def)
  ultimately show ?thesis using d(3) Some by (intro that [of ?s "put_service ?s r" "sv_active s0" ?s']) (simp_all only: option.case, simp_all)
qed

lemma Get_after_Set:
  assumes "sm_ok m" "normal_options (sv_options s)"
  shows "\<exists>s'. ServiceMap_Get (ServiceMap_Set s m) (sv_name s) = Some s' \<and> sv_active s' = sv_active s
    \<and> sv_rollout s' = sv_rollout s \<and> so_Hosts (sv_options s') = so_Hosts (sv_options s)
    \<and> so_PathPrefixes (sv_options s') = so_PathPrefixes (sv_options s)"
proof -
  let ?m = "m\<lparr>sm_services := map_put (sv_name s) s (sm_services m)\<rparr>"
  from assms have wf: "wf_map (sm_services m)" by (simp add: sm_ok_def)
  from assms have "normal_table (sm_services ?m)"
    unfolding normal_table_def by (simp, intro table_put_all [OF wf]) (simp_all add: sm_ok_def normal_table_def)
  from update_services(2) [of ?m "sv_name s", OF _ this] wf
  have "map_of (sm_services (updateRequestServiceMap ?m)) (sv_name s) =
      Some (sync_service (build_index (sm_services ?m)) (sm_services ?m) s)" by (simp add: wf_map_put)
  then show ?thesis unfolding ServiceMap_Get_def ServiceMap_Set_def
    by (intro exI conjI, assumption) simp_all
qed

lemma store_le_trans: "store_le a b \<Longrightarrow> store_le b c \<Longrightarrow> store_le a c"
  unfolding store_le_def by blast

lemma DrainAll_done:
  assumes "t \<in> set (lb_all lb)" "t_state t \<noteq> TargetStateDraining" "q \<in> t_inflight t"
    and "\<And>u. u \<in> set (lb_all lb) \<Longrightarrow> t_inflight u \<subseteq> dom st"
  shows "request_done (DrainAll lb st) q"
proof -
  have le: "store_le st (Target_Drain u st)" for u st
    unfolding Target_Drain_def by (auto intro: store_le_trans [OF store_le_cancel store_le_cancel])
  have dn: "request_done (Target_Drain t st) q" if "t_inflight t \<subseteq> dom st" for st
  proof -
    have "t_inflight t \<subseteq> dom (cancel_requests if_hijacked (t_inflight t) st)"
      using that store_le_cancel [of st if_hijacked "t_inflight t"] by (auto simp: store_le_def)
    with assms(2,3) show ?thesis
      by (simp add: Target_Drain_def pendingRequestsToCancel_def cancel_requests_done)
  qed
  have "request_done (foldl (\<lambda>st t. Target_Drain t st) st us) q"
    if "t \<in> set us \<or> request_done st q" "\<forall>u \<in> set us. t_inflight u \<subseteq> dom st" for us st
    using that
  proof (induction us arbitrary: st)
    case Nil
    then show ?case by simp
  next
    case (Cons u us)
    from le [of st u] have "\<forall>v \<in> set us. t_inflight v \<subseteq> dom (Target_Drain u st)"
      "request_done st q \<Longrightarrow> request_done (Target_Drain u st) q"
      using Cons.prems(2) by (fastforce simp: store_le_def)+
    with Cons.prems dn [of st] show ?case by (auto intro: Cons.IH)
  qed
  with assms(1,4) show ?thesis unfolding DrainAll_def by blast
qed

text \<open>What a deployment may do: succeed, with the new balancer in place and the old one drained, or
  fail and change nothing but the saved state.\<close>

definition deploy_result ::
  "(nat \<times> bool) list \<Rightarrow> string \<Rightarrow> string list \<Rightarrow> string list \<Rightarrow> ServiceOptions \<Rightarrow> Router \<Rightarrow> go_error option \<Rightarrow> Router \<Rightarrow> bool" where
  "deploy_result reports name ws rs options r err r' \<longleftrightarrow>
     (case err of
        Some _ \<Rightarrow> r_services r' = r_services r \<and> r_requests r' = r_requests r
      | None \<Rightarrow> (\<forall>i < length ws + length rs. (i, True) \<in> set reports)
          \<and> (\<exists>s lb. ServiceMap_Get (r_services r') name = Some s \<and> sv_active s = Some lb
               \<and> TargetList_Names (WriteTargets lb) = ws \<and> TargetList_Names (ReadTargets lb) = rs
               \<and> so_Hosts (sv_options s) = so_Hosts options \<and> so_PathPrefixes (sv_options s) = so_PathPrefixes options)
          \<and> r_requests r' = (case ServiceMap_Get (r_services r) name of
                 Some old \<Rightarrow> (case sv_active old of Some lb \<Rightarrow> DrainAll (Dispose lb) (r_requests r) | None \<Rightarrow> r_requests r)
               | None \<Rightarrow> r_requests r))"

lemma rt_ok_retire [simp]: "rt_ok (retire x r) = rt_ok r" "r_services (retire x r) = r_services r"
  by (simp_all add: retire_def split: option.splits)

lemma DeployService_ok:
  assumes ok: "rt_ok r"
    and adm: "ServiceMap_Get (r_services r) name = None \<or> options_load env (Normalize opts)"
  shows "\<exists>err r'. DeployService env reports name ws rs opts topts timeout r = Returns (err, r')
    \<and> rt_ok r' \<and> deploy_result reports name ws rs (Normalize opts) r err r'"
proof (cases "createLoadBalancer reports ws rs (Normalize opts) topts timeout")
  case (Inl err)
  with ok show ?thesis by (simp add: DeployService_def deploy_result_def)
next
  case (Inr lb)
  note cb = created_balancer [OF Inr]
  let ?o = "Normalize opts" and ?get = "createOrUpdateService env name (Normalize opts) topts"
  show ?thesis
  proof (cases "CheckAvailability (r_services r) name ?o = None \<and> options_load env ?o")
    case True
    from deployed_service [OF ok cb(1) Normalize_normal True [THEN conjunct2] True [THEN conjunct1]]
    obtain s r' replaced s' where g: "?get r = (Inr s, r')"
      and u: "UpdateLoadBalancer lb TargetSlotActive s = (replaced, s')"
      and rep: "replaced = (case ServiceMap_Get (r_services r) name of None \<Rightarrow> None | Some o' \<Rightarrow> sv_active o')"
      and s': "sv_name s' = name" "sv_options s' = ?o" "sv_active s' = Some lb"
      and e: "r'\<lparr>r_services := ServiceMap_Set s' (r_services r')\<rparr> = r\<lparr>r_services := ServiceMap_Set s' (r_services r)\<rparr>"
      and rt: "rt_ok (r\<lparr>r_services := ServiceMap_Set s' (r_services r)\<rparr>)" by metis
    from install_returns [where env = env and getService = ?get, OF True [THEN conjunct1] g u] rt e obtain x where
      i: "installLoadBalancer env name TargetSlotActive lb ?o ?get r =
        Returns (Inr replaced, r\<lparr>r_services := ServiceMap_Set s' (r_services r), r_saved := x\<rparr>)" by metis
    from ok have "sm_ok (r_services r)" by (simp add: rt_ok_def)
    from Get_after_Set [OF this, of s'] Normalize_normal s' obtain s2 where
      "ServiceMap_Get (ServiceMap_Set s' (r_services r)) name = Some s2" "sv_active s2 = Some lb"
      "so_Hosts (sv_options s2) = so_Hosts ?o" "so_PathPrefixes (sv_options s2) = so_PathPrefixes ?o" by auto
    then have "deploy_result reports name ws rs ?o r None
        (retire replaced (r\<lparr>r_services := ServiceMap_Set s' (r_services r), r_saved := x\<rparr>))"
      using cb rep by (auto simp: deploy_result_def retire_def split: option.splits)
    with i Inr rt show ?thesis by (simp add: DeployService_def finish_deploy_def)
  next
    case False
    have "\<exists>err. ?get r = (Inl err, r)" if "CheckAvailability (r_services r) name ?o = None"
      using False that adm NewService_fails [of env ?o name topts] by (auto simp: createOrUpdateService_def)
    then obtain err where "CheckAvailability (r_services r) name ?o \<noteq> None
        \<or> CheckAvailability (r_services r) name ?o = None \<and> ?get r = (Inl err, r)" by blast
    from install_refused [where getService = ?get, OF ok this] obtain err' x where
      "installLoadBalancer env name TargetSlotActive lb ?o ?get r = Returns (Inl err', r\<lparr>r_saved := x\<rparr>)" .
    with Inr ok show ?thesis by (simp add: DeployService_def finish_deploy_def deploy_result_def)
  qed
qed

lemma SetRolloutTargets_ok:
  assumes ok: "rt_ok r"
  shows "\<exists>err r'. SetRolloutTargets env reports name ws rs timeout r = Returns (err, r') \<and> rt_ok r'"
proof (cases "ServiceMap_Get (r_services r) name")
  case None
  with ok show ?thesis by (simp add: SetRolloutTargets_def)
next
  case (Some s)
  note m = rt_ok_Get [OF ok Some] and d = rt_okD [OF ok rt_ok_Get [OF ok Some]]
  let ?get = "\<lambda>r' :: Router. (Inr s :: Service result, r')"
  show ?thesis
  proof (cases "createLoadBalancer reports ws rs (sv_options s) (sv_targetOptions s) timeout")
    case (Inl err)
    with Some ok show ?thesis by (simp add: SetRolloutTargets_def)
  next
    case (Inr lb)
    have u: "UpdateLoadBalancer lb TargetSlotRollout s = (sv_rollout s, s\<lparr>sv_rollout := Some lb\<rparr>)"
      by (simp add: UpdateLoadBalancer_def)
    from ok have sm: "sm_ok (r_services r)" by (simp add: rt_ok_def)
    have own: "bound (sm_services (r_services r)) host p n \<Longrightarrow> host \<in> set (so_Hosts (sv_options s)) \<Longrightarrow>
        p \<in> set (so_PathPrefixes (sv_options s)) \<Longrightarrow> n = name" for host p n
    proof -
      assume "bound (sm_services (r_services r)) host p n" "host \<in> set (so_Hosts (sv_options s))"
        "p \<in> set (so_PathPrefixes (sv_options s))"
      moreover from this m have "bound (sm_services (r_services r)) host p name" by (auto simp: bound_def)
      ultimately show "n = name" using sm by (auto simp: sm_ok_def conflict_free_def)
    qed
    then have free: "CheckAvailability (r_services r) name (sv_options s) = None"
      unfolding CheckAvailability_iff [OF sm] by blast
    have "pause_of (s\<lparr>sv_rollout := Some lb\<rparr>) = pause_of s" by (simp add: pause_of_def)
    then have "rt_ok (r\<lparr>r_services := ServiceMap_Set (s\<lparr>sv_rollout := Some lb\<rparr>) (r_services r)\<rparr>)"
      by (intro Set_rt_ok [OF ok]) (use created_balancer(1) [OF Inr] d free m in \<open>auto simp: saveable_def\<close>)
    from install_returns [where env = env and getService = ?get, OF free refl u this] this
    obtain x where "installLoadBalancer env name TargetSlotRollout lb (sv_options s) ?get r = Returns (Inr (sv_rollout s),
        r\<lparr>r_services := ServiceMap_Set (s\<lparr>sv_rollout := Some lb\<rparr>) (r_services r), r_saved := x\<rparr>)" by blast
    with Some Inr \<open>rt_ok (r\<lparr>r_services := _\<rparr>)\<close> show ?thesis by (simp add: SetRolloutTargets_def finish_deploy_def)
  qed
qed

subsection \<open>Serving requests\<close>

lemma valid_balancer_kinds: "named_kinds (lb_all lb') = named_kinds (lb_all lb) \<Longrightarrow> valid_balancer lb' = valid_balancer lb"
proof -
  assume k: "named_kinds (lb_all lb') = named_kinds (lb_all lb)"
  then have "fst ` set (named_kinds (lb_all lb')) = fst ` set (named_kinds (lb_all lb))"
    "length (named_kinds (lb_all lb')) = length (named_kinds (lb_all lb))" by simp_all
  then have "t_address ` set (lb_all lb') = t_address ` set (lb_all lb)" "length (lb_all lb') = length (lb_all lb)"
    by (simp_all add: named_kinds_def image_image)
  then show ?thesis unfolding valid_balancer_def by (metis (no_types, opaque_lifting) image_iff length_0_conv)
qed

lemma claim_named_kinds:
  assumes "claimTarget now rid req (lb, st) = (res, lb', st')"
  shows "named_kinds (lb_all lb') = named_kinds (lb_all lb)"
proof -
  obtain o' lb1 where n: "nextTarget (isReadRequest lb req \<and> \<not> hasWriteCookie now req) lb = (o', lb1)" by fastforce
  with nextTarget_kept [OF n] assms show ?thesis
    by (auto simp: claimTarget_def Target_StartRequest_def Let_def split: option.splits if_splits
        intro!: named_kinds_update)
qed

lemma StartRequest_named_kinds:
  assumes "LoadBalancer_StartRequest now rid req (lb, st) = (a, lb', st')"
  shows "named_kinds (lb_all lb') = named_kinds (lb_all lb)"
  using assms by (auto simp: LoadBalancer_StartRequest_def split: sum.splits prod.splits dest: claim_named_kinds)

lemma startLoadBalancerRequest_kept:
  assumes "saveable s" "startLoadBalancerRequest now rid req (s, st) = Returns (a, s', st')"
  shows "saveable s' \<and> sv_name s' = sv_name s \<and> sv_options s' = sv_options s
    \<and> sv_pauseController s' = sv_pauseController s"
  using assms
  by (auto simp: startLoadBalancerRequest_def saveable_def split: TargetSlot.splits option.splits prod.splits
      dest!: StartRequest_named_kinds valid_balancer_kinds)

lemma serviceRequest_kept:
  assumes "saveable s"
  obtains a s' st' where "serviceRequestWithTarget now rid req (s, st) = Returns (a, s', st')"
    and "saveable s'" "sv_name s' = sv_name s" "sv_options s' = sv_options s"
      "sv_pauseController s' = sv_pauseController s"
proof -
  from saveable_active [OF assms] obtain lb where "sv_active s = Some lb" ..
  from startLoadBalancerRequest_returns [OF this, of now rid req st] obtain d s' st' where
    r: "startLoadBalancerRequest now rid req (s, st) = Returns (Balanced (loadBalancerForRequest s req) d, s', st')" .
  with startLoadBalancerRequest_kept [OF assms r] saveable_pause [OF assms] assms
  have "\<exists>a s' st'. serviceRequestWithTarget now rid req (s, st) = Returns (a, s', st') \<and> saveable s'
      \<and> sv_name s' = sv_name s \<and> sv_options s' = sv_options s \<and> sv_pauseController s' = sv_pauseController s"
    by (auto simp: serviceRequestWithTarget_def split: PauseVerdict.splits)
  with that show ?thesis by blast
qed

lemma ServeHTTP_ok:
  assumes ok: "rt_ok r"
  shows "\<exists>a r'. Router_ServeHTTP env now rid req r = Returns (a, r') \<and> rt_ok r'"
proof (cases "ServiceForRequest (r_services r) req")
  case None
  with ok show ?thesis by (simp add: Router_ServeHTTP_def)
next
  case (Some np)
  obtain n p where np: "np = (n, p)" by fastforce
  show ?thesis
  proof (cases "ServiceMap_Get (r_services r) n")
    case None
    with Some np ok show ?thesis by (simp add: Router_ServeHTTP_def)
  next
    case s: (Some s)
    note m = rt_ok_Get [OF ok s] and d = rt_okD [OF ok rt_ok_Get [OF ok s]]
    from serviceRequest_kept [OF d(1)] obtain a s' st' where
      k: "serviceRequestWithTarget now rid (routed_request s p req) (s, r_requests r) = Returns (a, s', st')"
        "saveable s'" "sv_name s' = sv_name s" "sv_options s' = sv_options s"
        "sv_pauseController s' = sv_pauseController s" by metis
    have "rt_ok (put_service s' (r\<lparr>r_requests := st'\<rparr>))"
      by (rule put_rt_ok_same [of _ n s]) (use ok k m d in simp_all)
    with Some np s k ok show ?thesis by (auto simp: Router_ServeHTTP_def Let_def)
  qed
qed

subsection \<open>A restart\<close>

lemma new_rt_ok: "rt_ok (NewRouter saved)"
  by (auto simp: rt_ok_def NewRouter_def NewServiceMap_ok channels_ok_def services_ok_def apart_def)
    (simp_all add: NewServiceMap_def)

definition named :: "Service list \<Rightarrow> service_table" where
  "named ss = map (\<lambda>s. (sv_name s, s)) ss"

lemma bound_named:
  "bound (named ss) host p n \<longleftrightarrow>
     (\<exists>s \<in> set ss. sv_name s = n \<and> host \<in> set (so_Hosts (sv_options s)) \<and> p \<in> set (so_PathPrefixes (sv_options s)))"
  by (auto simp: bound_def named_def)

lemma bound_prefix: "bound (named ss) host p n \<Longrightarrow> bound (named (ss @ [s])) host p n"
  by (auto simp: bound_named)

lemma conflict_free_prefix: "conflict_free (named (ss @ [s])) \<Longrightarrow> conflict_free (named ss)"
  unfolding conflict_free_def by (meson bound_prefix)

lemma prefix_free:
  assumes "sm_ok m" "bound (sm_services m) = bound (named ss)" "conflict_free (named (ss @ [s]))"
  shows "CheckAvailability m (sv_name s) (sv_options s) = None"
proof -
  have "bound (named (ss @ [s])) host p (sv_name s)"
    if "host \<in> set (so_Hosts (sv_options s))" "p \<in> set (so_PathPrefixes (sv_options s))" for host p
    using that by (auto simp: bound_named)
  then show ?thesis
    unfolding CheckAvailability_iff [OF assms(1)] assms(2) using assms(3) [unfolded conflict_free_def] bound_prefix by blast
qed

lemma set_all_services:
  assumes "distinct (map sv_name ss)" "conflict_free (named ss)" "\<forall>s \<in> set ss. normal_options (sv_options s)"
  shows "sm_ok (foldl (\<lambda>m s. ServiceMap_Set s m) NewServiceMap ss)
    \<and> bound (sm_services (foldl (\<lambda>m s. ServiceMap_Set s m) NewServiceMap ss)) = bound (named ss)"
  using assms
proof (induction ss rule: rev_induct)
  case Nil
  then show ?case by (simp add: NewServiceMap_ok) (simp add: NewServiceMap_def named_def)
next
  case (snoc s ss)
  let ?m = "foldl (\<lambda>m s. ServiceMap_Set s m) NewServiceMap ss"
  from snoc conflict_free_prefix have ok: "sm_ok ?m" and b: "bound (sm_services ?m) = bound (named ss)" by auto
  from prefix_free [OF ok b snoc.prems(2)] ok snoc.prems(3) have "sm_ok (ServiceMap_Set s ?m)" by (simp add: Set_sm_ok)
  moreover have "\<forall>x \<in> set ss. sv_name x \<noteq> sv_name s" using snoc.prems(1) by (simp add: image_iff) metis
  then have "bound (sm_services (ServiceMap_Set s ?m)) host p n = bound (named (ss @ [s])) host p n" for host p n
    using Set_bound [OF ok, of s host p n] snoc.prems(3) by (auto simp: b bound_named)
  ultimately show ?case by (simp add: fun_eq_iff)
qed

text \<open>Services whose controllers are not paused, put into an empty router.\<close>

lemma set_all_rt_ok:
  assumes "rt_ok r" "r_services r = NewServiceMap"
    "distinct (map sv_name ss)" "conflict_free (named ss)" "\<forall>s \<in> set ss. saveable s \<and> pc_State (pause_of s) \<noteq> PauseStatePaused"
  shows "rt_ok (r\<lparr>r_services := foldl (\<lambda>m s. ServiceMap_Set s m) NewServiceMap ss\<rparr>)"
  using assms(3-)
proof (induction ss rule: rev_induct)
  case Nil
  with assms(1,2) show ?case by (metis Router.surjective Router.update_convs(1) foldl_Nil)
next
  case (snoc s ss)
  let ?m = "foldl (\<lambda>m s. ServiceMap_Set s m) NewServiceMap ss"
  note cf = conflict_free_prefix [OF snoc.prems(2)]
  have "\<forall>s \<in> set ss. normal_options (sv_options s)" using snoc.prems(3) by (auto simp: saveable_def)
  with set_all_services [of ss] snoc.prems(1) cf have m: "sm_ok ?m" "bound (sm_services ?m) = bound (named ss)" by auto
  from snoc cf have ok: "rt_ok (r\<lparr>r_services := ?m\<rparr>)" by simp
  then have "ctl_ok (pause_of s) (r_channels r)" "held_channel (pause_of s) = None"
    using snoc.prems(3) by (simp_all add: ctl_ok_def held_channel_def rt_ok_def channels_ok_def)
  with Set_rt_ok [OF ok, of s] prefix_free [OF m snoc.prems(2)] snoc.prems(3) show ?case by simp
qed

lemma routes_to_bound:
  assumes "bound t = bound t'"
  shows "routes_to t host path n p = routes_to t' host path n p"
proof -
  have "host_key t host = host_key t' host" by (simp add: host_key_def host_bound_def assms)
  then show ?thesis by (simp add: routes_to_def assms)
qed

lemma bound_options:
  "bound t host p n \<longleftrightarrow> (\<exists>so. (n, so) \<in> set (map (\<lambda>(n, s). (n, sv_options s)) t)
     \<and> host \<in> set (so_Hosts so) \<and> p \<in> set (so_PathPrefixes so))"
  by (force simp: bound_def)

lemma same_routes:
  assumes "sm_ok m" "sm_ok m'" "bound (sm_services m) = bound (sm_services m')"
  shows "serviceFor (sm_requests m) host path = serviceFor (sm_requests m') host path"
proof -
  have "serviceFor (sm_requests m) host path = Some (n, p) \<longleftrightarrow> serviceFor (sm_requests m') host path = Some (n, p)"
    for n p using assms by (simp add: sm_ok_route routes_to_bound [OF assms(3)])
  then show ?thesis by (metis not_None_eq surj_pair)
qed

lemma options_load_initialize: "options_load env (sv_options s) \<Longrightarrow> fst (initialize env s) = None"
  by (auto simp: options_load_def initialize_def split: sum.splits)

lemma reborn_valid: "valid_balancer lb \<Longrightarrow> valid_balancer (reborn s lb)"
proof -
  assume v: "valid_balancer lb"
  have "named_kinds (lb_all (reborn s lb)) = map (\<lambda>n. (n, False)) (TargetList_Names (WriteTargets lb))
      @ map (\<lambda>n. (n, True)) (TargetList_Names (ReadTargets lb))"
    by (simp add: reborn_def) (simp add: named_kinds_def)
  then have k: "map fst (named_kinds (lb_all (reborn s lb))) = TargetList_Names (WriteTargets lb) @ TargetList_Names (ReadTargets lb)"
    by (simp add: comp_def)
  then have "map t_address (lb_all (reborn s lb)) = TargetList_Names (WriteTargets lb) @ TargetList_Names (ReadTargets lb)"
    by (simp add: named_kinds_def comp_def)
  moreover from this have "t_address ` set (lb_all (reborn s lb)) = set (TargetList_Names (WriteTargets lb) @ TargetList_Names (ReadTargets lb))"
    by (metis list.set_map)
  moreover have "TargetList_Names (WriteTargets lb) @ TargetList_Names (ReadTargets lb) \<noteq> []"
    using v names_empty_iff [of lb] by (auto simp: valid_balancer_def)
  ultimately show ?thesis
    using valid_names [OF v] unfolding valid_balancer_def list_all_iff by (metis image_eqI list.map_disc_iff)
qed

lemma unmarshal_marshalled:
  assumes "\<forall>(n, s) \<in> set t. saveable s \<and> options_load env (sv_options s)" "marshal_all t = Returns mss"
  shows "\<exists>ss. unmarshal_all env mss h = Returns (Inr ss, h)
    \<and> map (\<lambda>s. (sv_name s, sv_options s, pc_State (pause_of s))) ss
        = map (\<lambda>(n, s). (sv_name s, sv_options s, pc_State (pause_of s))) t
    \<and> (\<forall>s \<in> set ss. saveable s)
    \<and> map Service_MarshalJSON ss = map (\<lambda>(n, s). Service_MarshalJSON s) t"
  using assms
proof (induction t arbitrary: mss h)
  case Nil
  then show ?case by simp
next
  case (Cons x t)
  obtain n s where x: "x = (n, s)" by fastforce
  with Cons.prems obtain ms mss' where m: "Service_MarshalJSON s = Returns ms" "marshal_all t = Returns mss'"
    "mss = ms # mss'" by auto
  from Cons.prems x have s: "saveable s" "fst (initialize env s) = None"
    by (auto intro: options_load_initialize)
  from saveable_active [OF s(1)] obtain lb where a: "sv_active s = Some lb" ..
  obtain c k p' where p': "save_pause p' = save_pause (pause_of s)" and u: "Service_UnmarshalJSON env ms h = Returns (Inr
      (s\<lparr>sv_active := Some (reborn s lb), sv_rollout := map_option (reborn s) (sv_rollout s),
         sv_pauseController := Some p', sv_certManager := c, sv_middleware := k\<rparr>), h)" (is "_ = Returns (Inr ?s', h)")
    by (rule unmarshal_saved [OF s(1) m(1) s(2) a saveable_pause [OF s(1)], of h])
  have "saveable ?s'" using s(1) p' a saveable_pause [OF s(1)] reborn_valid
    by (auto simp: saveable_def save_pause_def split: option.splits)
  moreover have "pc_State (pause_of ?s') = pc_State (pause_of s)" using p' by (simp add: pause_of_def save_pause_def)
  moreover have "Service_MarshalJSON ?s' = Service_MarshalJSON s"
    using p' a saveable_pause [OF s(1)] by (simp add: Service_MarshalJSON_def split: option.splits)
  moreover from Cons.IH [of mss' h] Cons.prems m x obtain ss where
    "unmarshal_all env mss' h = Returns (Inr ss, h)" "\<forall>s \<in> set ss. saveable s"
    "map (\<lambda>s. (sv_name s, sv_options s, pc_State (pause_of s))) ss = map (\<lambda>(n, s). (sv_name s, sv_options s, pc_State (pause_of s))) t"
    "map Service_MarshalJSON ss = map (\<lambda>(n, s). Service_MarshalJSON s) t"
    by auto
  ultimately show ?case using u m x by auto
qed

text \<open>The router that a new process restores from the file an old one wrote.\<close>

definition restart :: "Environment \<Rightarrow> Router \<Rightarrow> (go_error option \<times> Router) outcome" where
  "restart env r = bind_outcome (saveStateSnapshot env r) (\<lambda>r1. RestoreLastSavedState env (NewRouter (r_saved r1)))"

lemma marshalled_restores:
  assumes t: "wf_map t" "\<forall>(n, s) \<in> set t. sv_name s = n" "conflict_free t"
    and all: "\<forall>(n, s) \<in> set t. saveable s \<and> options_load env (sv_options s)"
    and mss: "marshal_all t = Returns mss"
  obtains ss where "RestoreLastSavedState env (NewRouter (Some mss)) =
       Returns (None, (NewRouter (Some mss))\<lparr>r_services := foldl (\<lambda>m s. ServiceMap_Set s m) NewServiceMap ss\<rparr>)"
    "distinct (map sv_name ss)" "conflict_free (named ss)" "bound (named ss) = bound t"
    "\<forall>s \<in> set ss. saveable s \<and> (\<exists>(n, s') \<in> set t. pc_State (pause_of s) = pc_State (pause_of s'))"
    "map Service_MarshalJSON ss = map (\<lambda>(n, s). Service_MarshalJSON s) t"
proof -
  from unmarshal_marshalled [OF all mss, of "r_channels (NewRouter (Some mss))"] obtain ss where
    ss: "unmarshal_all env mss (r_channels (NewRouter (Some mss))) = Returns (Inr ss, r_channels (NewRouter (Some mss)))"
    and eq: "map (\<lambda>s. (sv_name s, sv_options s, pc_State (pause_of s))) ss = map (\<lambda>(n, s). (sv_name s, sv_options s, pc_State (pause_of s))) t"
    and sv: "\<forall>s \<in> set ss. saveable s"
    and ms: "map Service_MarshalJSON ss = map (\<lambda>(n, s). Service_MarshalJSON s) t" by blast
  have names: "map (\<lambda>(n, s). (sv_name s, sv_options s)) t = map (\<lambda>(n, s). (n, sv_options s)) t"
    using t(2) by auto
  have pairs: "map (\<lambda>s. (sv_name s, sv_options s)) ss = map (\<lambda>(n, s). (sv_name s, sv_options s)) t"
    using arg_cong [OF eq, of "map (\<lambda>(n, o', p). (n, o'))"] by (simp add: comp_def split_def)
  then have "map (\<lambda>(n, s). (n, sv_options s)) (named ss) = map (\<lambda>(n, s). (n, sv_options s)) t"
    using names by (simp add: named_def comp_def)
  then have b: "bound (named ss) = bound t" unfolding fun_eq_iff bound_options by simp
  have "map fst (map (\<lambda>s. (sv_name s, sv_options s)) ss) = keys t"
    unfolding pairs names by (simp add: keys_def comp_def split_def)
  with t(1) have d: "distinct (map sv_name ss)" by (simp add: wf_map_def comp_def)
  have "\<exists>(n, s') \<in> set t. pc_State (pause_of s) = pc_State (pause_of s')" if "s \<in> set ss" for s
  proof -
    from that have "(sv_name s, sv_options s, pc_State (pause_of s)) \<in> set (map (\<lambda>s. (sv_name s, sv_options s, pc_State (pause_of s))) ss)" by simp
    then show ?thesis unfolding eq by auto
  qed
  moreover have "conflict_free (named ss)" using t(3) by (simp add: conflict_free_def b)
  moreover have "RestoreLastSavedState env (NewRouter (Some mss)) =
      Returns (None, (NewRouter (Some mss))\<lparr>r_services := foldl (\<lambda>m s. ServiceMap_Set s m) NewServiceMap ss\<rparr>)"
    using ss by (simp add: RestoreLastSavedState_def NewRouter_def)
  ultimately show ?thesis using that [of ss] b d sv ms by simp
qed

lemma restart_restores:
  assumes ok: "rt_ok r" and w: "env_state_writable env"
    and l: "\<forall>(n, s) \<in> set (sm_services (r_services r)). options_load env (sv_options s)"
  obtains mss ss where "saveStateSnapshot env r = Returns (r\<lparr>r_saved := Some mss\<rparr>)"
    "RestoreLastSavedState env (NewRouter (Some mss)) =
       Returns (None, (NewRouter (Some mss))\<lparr>r_services := foldl (\<lambda>m s. ServiceMap_Set s m) NewServiceMap ss\<rparr>)"
    "distinct (map sv_name ss)" "conflict_free (named ss)" "bound (named ss) = bound (sm_services (r_services r))"
    "\<forall>s \<in> set ss. saveable s \<and> (\<exists>(n, s') \<in> set (sm_services (r_services r)). pc_State (pause_of s) = pc_State (pause_of s'))"
proof -
  let ?t = "sm_services (r_services r)"
  from ok have t: "wf_map ?t" "\<forall>(n, s) \<in> set ?t. sv_name s = n" "conflict_free ?t" by (simp_all add: rt_ok_def sm_ok_def)
  have all: "\<forall>(n, s) \<in> set ?t. saveable s \<and> options_load env (sv_options s)"
    using rt_okD(1) [OF ok] l by fastforce
  then obtain mss where mss: "marshal_all ?t = Returns mss"
    using marshal_all_returns [of ?t] by blast
  show ?thesis
    by (rule marshalled_restores [OF t all mss]) (use that mss w in \<open>simp add: saveStateSnapshot_def\<close>)
qed

lemma restart_ok:
  assumes ok: "rt_ok r" and w: "env_state_writable env"
    and l: "\<forall>(n, s) \<in> set (sm_services (r_services r)). options_load env (sv_options s)"
    and p: "\<forall>(n, s) \<in> set (sm_services (r_services r)). pc_State (pause_of s) \<noteq> PauseStatePaused"
  shows "\<exists>r'. restart env r = Returns (None, r') \<and> rt_ok r'"
proof -
  obtain mss ss where r: "saveStateSnapshot env r = Returns (r\<lparr>r_saved := Some mss\<rparr>)"
    "RestoreLastSavedState env (NewRouter (Some mss)) =
       Returns (None, (NewRouter (Some mss))\<lparr>r_services := foldl (\<lambda>m s. ServiceMap_Set s m) NewServiceMap ss\<rparr>)"
    and ss: "distinct (map sv_name ss)" "conflict_free (named ss)"
      "\<forall>s \<in> set ss. saveable s \<and> (\<exists>(n, s') \<in> set (sm_services (r_services r)). pc_State (pause_of s) = pc_State (pause_of s'))"
    by (rule restart_restores [OF ok w l])
  from ss(3) p have "\<forall>s \<in> set ss. saveable s \<and> pc_State (pause_of s) \<noteq> PauseStatePaused" by fastforce
  from set_all_rt_ok [OF new_rt_ok _ ss(1,2) this] r show ?thesis by (simp add: restart_def NewRouter_def)
qed

subsection \<open>The router at work\<close>

datatype command =
    CmdDeploy "(nat \<times> bool) list" string "string list" "string list" ServiceOptions TargetOptions duration
  | CmdRolloutDeploy "(nat \<times> bool) list" string "string list" "string list" duration
  | CmdRolloutSet string int "string list"
  | CmdRolloutStop string
  | CmdPause string duration
  | CmdStop string string
  | CmdResume string
  | CmdRemove string

fun exec :: "Environment \<Rightarrow> command \<Rightarrow> Router \<Rightarrow> (go_error option \<times> Router) outcome" where
  "exec env (CmdDeploy reports name ws rs opts topts timeout) = DeployService env reports name ws rs opts topts timeout"
| "exec env (CmdRolloutDeploy reports name ws rs timeout) = SetRolloutTargets env reports name ws rs timeout"
| "exec env (CmdRolloutSet name n allow) = Router_SetRolloutSplit env name n allow"
| "exec env (CmdRolloutStop name) = Router_StopRollout env name"
| "exec env (CmdPause name t) = PauseService env name t"
| "exec env (CmdStop name msg) = StopService env name msg"
| "exec env (CmdResume name) = ResumeService env name"
| "exec env (CmdRemove name) = RemoveService env name"

text \<open>The one restriction: options of a deployment that replaces a service can be loaded.\<close>

fun admissible :: "Environment \<Rightarrow> command \<Rightarrow> Router \<Rightarrow> bool" where
  "admissible env (CmdDeploy reports name ws rs opts topts timeout) r \<longleftrightarrow>
     ServiceMap_Get (r_services r) name = None \<or> options_load env (Normalize opts)"
| "admissible env _ r \<longleftrightarrow> True"

text \<open>Restarts with no service paused (a restored paused service cannot be resumed) and with
  options that still load.\<close>

definition can_restart :: "Environment \<Rightarrow> Router \<Rightarrow> bool" where
  "can_restart env r \<longleftrightarrow>
     (\<forall>(n, s) \<in> set (sm_services (r_services r)). options_load env (sv_options s) \<and> pc_State (pause_of s) \<noteq> PauseStatePaused)"

inductive router_step :: "Router \<Rightarrow> Router \<Rightarrow> bool" where
  router_command: "admissible env cmd r \<Longrightarrow> exec env cmd r = Returns (err, r') \<Longrightarrow> router_step r r'"
| router_request: "Router_ServeHTTP env now rid req r = Returns (a, r') \<Longrightarrow> router_step r r'"
| router_restart: "env_state_writable env \<Longrightarrow> can_restart env r \<Longrightarrow> restart env r = Returns (err, r') \<Longrightarrow> router_step r r'"

definition router_start :: "Router \<Rightarrow> bool" where
  "router_start r \<longleftrightarrow> (\<exists>saved. r = NewRouter saved)"

lemma exec_ok: "rt_ok r \<Longrightarrow> admissible env cmd r \<Longrightarrow> \<exists>err r'. exec env cmd r = Returns (err, r') \<and> rt_ok r'"
proof (induction env cmd r rule: admissible.induct)
  case (1 env reports name ws rs opts topts timeout r)
  then have "ServiceMap_Get (r_services r) name = None \<or> options_load env (Normalize opts)" by simp
  from DeployService_ok [OF 1(1) this] show ?case by fastforce
qed (simp_all add: SetRolloutTargets_ok rollout_rt_ok control_rt_ok RemoveService_rt_ok)

lemma router_step_ok: "router_step r r' \<Longrightarrow> rt_ok r \<Longrightarrow> rt_ok r'"
proof (induction rule: router_step.induct)
  case (router_command env cmd r err r')
  with exec_ok [of r env cmd] show ?case by auto
next
  case (router_request env now rid req r a r')
  with ServeHTTP_ok [of r env now rid req] show ?case by auto
next
  case (router_restart env r err r')
  then have "\<forall>(n, s) \<in> set (sm_services (r_services r)). options_load env (sv_options s)"
    "\<forall>(n, s) \<in> set (sm_services (r_services r)). pc_State (pause_of s) \<noteq> PauseStatePaused"
    unfolding can_restart_def by auto
  from restart_ok [OF router_restart.prems router_restart.hyps(1) this] router_restart.hyps(3) show ?case by auto
qed

lemma router_start_ok: "router_start r \<Longrightarrow> rt_ok r"
  by (auto simp: router_start_def new_rt_ok)

interpretation routing: kept_invariant router_start router_step rt_ok
  by unfold_locales (auto intro: router_start_ok router_step_ok)


text \<open>C3: a deployment with loadable options either fails, and then leaves every service and every
  request as it was, or succeeds: only after each of its targets reported healthy, with the service
  then bound to the normalised hosts and prefixes and served by exactly the given targets, and with
  the replaced targets drained.\<close>

theorem deploy_all_or_nothing:
  assumes "reach router_start router_step r" and "admissible env (CmdDeploy reports name ws rs opts topts timeout) r"
  shows "\<exists>err r'. DeployService env reports name ws rs opts topts timeout r = Returns (err, r')
    \<and> deploy_result reports name ws rs (Normalize opts) r err r'"
  using DeployService_ok [OF routing.reach_inv [OF assms(1)], of name env opts reports ws rs topts timeout] assms(2)
  by auto

subsection \<open>A failed redeployment\<close>

definition ex_deploy :: "string \<Rightarrow> ServiceOptions \<Rightarrow> Router \<Rightarrow> (go_error option \<times> Router) outcome" where
  "ex_deploy name so = DeployService example_environment [(0, True)] name [name @ ''-1''] [] so example_options 30"

definition ex_web_options :: ServiceOptions where
  "ex_web_options = defaultServiceOptions\<lparr>so_Hosts := [''app'']\<rparr>"

definition ex_bad_options :: ServiceOptions where
  "ex_bad_options = defaultServiceOptions\<lparr>so_Hosts := [''*.app''], so_TLSEnabled := True\<rparr>"

definition ex_api_options :: ServiceOptions where
  "ex_api_options = defaultServiceOptions\<lparr>so_Hosts := [''api'']\<rparr>"

definition ex_router1 :: Router where
  "ex_router1 = (case ex_deploy ''web'' ex_web_options (NewRouter None) of Returns (_, r) \<Rightarrow> r | Panics _ \<Rightarrow> NewRouter None)"

definition ex_router2 :: Router where
  "ex_router2 = (case ex_deploy ''web'' ex_bad_options ex_router1 of Returns (_, r) \<Rightarrow> r | Panics _ \<Rightarrow> NewRouter None)"

definition ex_router3 :: Router where
  "ex_router3 = (case ex_deploy ''api'' ex_api_options ex_router2 of Returns (_, r) \<Rightarrow> r | Panics _ \<Rightarrow> NewRouter None)"

fun failed_with :: "(go_error option \<times> Router) outcome \<Rightarrow> go_error option \<Rightarrow> bool" where
  "failed_with (Returns (e, r)) err = (e = err)"
| "failed_with (Panics m) err = False"

text \<open>A redeployment whose options cannot be loaded is not harmless: it reports its error, but the
  service keeps the rejected options. Here a service for \<open>app\<close> is redeployed with a wildcard host and
  automatic TLS, which is refused; it is still routed, until the next deployment of another service
  rebuilds the index, after which requests for \<open>app\<close> find no service.\<close>

theorem failed_redeploy_reroutes:
  "failed_with (ex_deploy ''web'' ex_web_options (NewRouter None)) None
   \<and> failed_with (ex_deploy ''web'' ex_bad_options ex_router1) (Some ErrorAutomaticTLSDoesNotSupportWildcards)
   \<and> ServiceForRequest (r_services ex_router2) (get_request ''app'' ''/'') = Some (''web'', ''/'')
   \<and> failed_with (ex_deploy ''api'' ex_api_options ex_router2) None
   \<and> ServiceForRequest (r_services ex_router3) (get_request ''app'' ''/'') = None"
  by code_simp

subsection \<open>Routing after a restart\<close>

text \<open>A restart keeps the routing: from the state the router saved, with certificates and error
  pages that still load, a fresh router restores a consistent map that sends every host and path to
  the same service and prefix as before.\<close>

theorem restart_keeps_routing:
  assumes "reach router_start router_step r" and "env_state_writable env"
    and "\<forall>(n, s) \<in> set (sm_services (r_services r)). options_load env (sv_options s)"
  shows "\<exists>r1 r2. saveStateSnapshot env r = Returns r1
    \<and> RestoreLastSavedState env (NewRouter (r_saved r1)) = Returns (None, r2)
    \<and> sm_ok (r_services r2)
    \<and> serviceFor (sm_requests (r_services r2)) host path = serviceFor (sm_requests (r_services r)) host path"
proof -
  from assms(1) have ok: "rt_ok r" by (rule routing.reach_inv)
  then have sm: "sm_ok (r_services r)" by (simp add: rt_ok_def)
  obtain mss ss where r: "saveStateSnapshot env r = Returns (r\<lparr>r_saved := Some mss\<rparr>)"
    "RestoreLastSavedState env (NewRouter (Some mss)) =
       Returns (None, (NewRouter (Some mss))\<lparr>r_services := foldl (\<lambda>m s. ServiceMap_Set s m) NewServiceMap ss\<rparr>)"
    and ss: "distinct (map sv_name ss)" "conflict_free (named ss)" "bound (named ss) = bound (sm_services (r_services r))"
      "\<forall>s \<in> set ss. saveable s"
    by (rule restart_restores [OF ok assms(2,3)]) blast
  from ss(4) have "\<forall>s \<in> set ss. normal_options (sv_options s)" by (auto simp: saveable_def)
  with set_all_services [OF ss(1,2)] ss(3) have m: "sm_ok (foldl (\<lambda>m s. ServiceMap_Set s m) NewServiceMap ss)"
    "bound (sm_services (foldl (\<lambda>m s. ServiceMap_Set s m) NewServiceMap ss)) = bound (sm_services (r_services r))" by simp_all
  from same_routes [OF m(1) sm m(2)] m(1) r show ?thesis by simp
qed

subsection \<open>Examples\<close>

definition ex_deploy_web :: command where
  "ex_deploy_web = CmdDeploy [(0, True)] ''web'' [''web-1''] [] ex_web_options example_options 30"

lemma ex_fresh: "reach router_start router_step (NewRouter None)"
  by (rule reach.reach_start) (auto simp: router_start_def)

lemma ex_admissible: "admissible example_environment ex_deploy_web (NewRouter None)"
  by (simp add: ex_deploy_web_def NewRouter_def NewServiceMap_def ServiceMap_Get_def)

lemma ex_router1_reach: "reach router_start router_step ex_router1"
proof (rule reach.reach_step [OF ex_fresh])
  obtain err r' where "exec example_environment ex_deploy_web (NewRouter None) = Returns (err, r')"
    using exec_ok [OF router_start_ok ex_admissible] by (auto simp: router_start_def)
  moreover from this have "ex_router1 = r'" by (simp add: ex_router1_def ex_deploy_def ex_deploy_web_def)
  ultimately show "router_step (NewRouter None) ex_router1"
    using router_step.router_command [OF ex_admissible] by blast
qed


theorem deploy_all_or_nothing_witness:
  "\<exists>err r'. DeployService example_environment [(0, True)] ''web'' [''web-1''] [] ex_web_options example_options 30
       (NewRouter None) = Returns (err, r')
    \<and> deploy_result [(0, True)] ''web'' [''web-1''] [] (Normalize ex_web_options) (NewRouter None) err r'"
  by (rule deploy_all_or_nothing [OF ex_fresh ex_admissible [unfolded ex_deploy_web_def]])

theorem restart_keeps_routing_witness:
  "\<exists>r1 r2. saveStateSnapshot example_environment ex_router1 = Returns r1
    \<and> RestoreLastSavedState example_environment (NewRouter (r_saved r1)) = Returns (None, r2)
    \<and> serviceFor (sm_requests (r_services r2)) ''app'' ''/x'' = Some (''web'', ''/'')"
proof -
  have "list_all (\<lambda>e. options_load example_environment (sv_options (snd e))) (sm_services (r_services ex_router1))
      \<and> serviceFor (sm_requests (r_services ex_router1)) ''app'' ''/x'' = Some (''web'', ''/'')"
    by code_simp
  then have l: "\<forall>(n, s) \<in> set (sm_services (r_services ex_router1)). options_load example_environment (sv_options s)"
    and f: "serviceFor (sm_requests (r_services ex_router1)) ''app'' ''/x'' = Some (''web'', ''/'')"
    by (auto simp: list_all_iff)
  have "env_state_writable example_environment" by (simp add: example_environment_def)
  from restart_keeps_routing [OF ex_router1_reach this l, of "''app''" "''/x''"] f show ?thesis by auto
qed

end
