(* ===== verification/Ports.thy ===== *)
theory Ports
  imports Options
begin

section \<open>Port allocation\<close>

text \<open>
  Models \<open>internal/server/port_allocator.go\<close>: the UDP ports given to services, singly or as RTP/RTCP
  pairs, with the sockets that hold them. Allocations are shared (both ports of a pair point to one
  allocation), so they live in a heap and the table of allocated ports holds addresses. What the
  operating system lets the process bind is an argument: \<open>probe\<close> when \<open>isPortAvailable\<close> tries a port,
  \<open>bindable\<close> when the port is bound for good; a port that the process holds itself is never bindable.
  A loop over the table visits its keys in an order that is an argument too.
\<close>

subsection \<open>Data\<close>

record PortRange =
  pr_Start :: int
  pr_End :: int
  pr_Step :: int

record PortConfig =
  pc_RTPPortRange :: PortRange
  pc_RTCPPortRange :: PortRange
  pc_AllocationTTL :: duration
  pc_RTCPPolicy :: string
  pc_CleanupInterval :: duration

record PortAllocation =
  al_ServiceName :: string
  al_RTPPort :: int
  al_RTCPPort :: int
  al_AllocatedAt :: instant
  al_ExpiresAt :: instant
  al_Target :: nat
  al_Protocol :: string
  al_InUse :: bool

record PortAllocator =
  pa_config :: PortConfig
  pa_allocated :: "int \<rightharpoonup> nat"
  pa_heap :: "nat \<Rightarrow> PortAllocation"
  pa_next :: nat
  pa_listeners :: "int set"
  pa_sockets :: "int set"
  pa_shutdown :: bool

text \<open>\<open>pa_listeners\<close> are the keys of the map of listeners, \<open>pa_sockets\<close> the ports on which the allocator
  has a socket open, and \<open>pa_shutdown\<close> says that the shutdown channel is closed.\<close>

text \<open>The errors of the UDP part of the proxy.\<close>

datatype udp_error =
    NoAdjacentPairs int int
  | NoRTPPorts int int
  | NoRTCPPorts int int
  | NoUDPPorts int int
  | BindFailed int
  | PortNotAllocated int
  | ResolveFailed string
  | ConnectionFailed string
  | TargetCreateFailed string
  | TargetStartFailed string
  | TargetNotHealthy string
  | TargetHasNoConnection string
  | ForwardFailed string
  | NoHealthyTargetsFor string
  | PairAllocationFailed string
  | NoPortsAllocated string
  | NoServiceOnPort int

definition DefaultPortAllocationTTL :: int where
  "DefaultPortAllocationTTL = 300"

definition DefaultCleanupInterval :: int where
  "DefaultCleanupInterval = 30"

definition seconds :: "int \<Rightarrow> duration" where
  "seconds n = n * 1000000000"

definition no_allocation :: PortAllocation where
  "no_allocation = \<lparr>al_ServiceName = [], al_RTPPort = 0, al_RTCPPort = 0, al_AllocatedAt = 0, al_ExpiresAt = 0,
     al_Target = 0, al_Protocol = [], al_InUse = False\<rparr>"

definition with_defaults :: "PortConfig \<Rightarrow> PortConfig" where
  "with_defaults c =
     (let c1 = (if pc_AllocationTTL c = 0 then c\<lparr>pc_AllocationTTL := seconds DefaultPortAllocationTTL\<rparr> else c);
          c2 = (if pc_CleanupInterval c1 = 0 then c1\<lparr>pc_CleanupInterval := seconds DefaultCleanupInterval\<rparr> else c1);
          c3 = (if pc_RTCPPolicy c2 = [] then c2\<lparr>pc_RTCPPolicy := ''adjacent''\<rparr> else c2);
          c4 = (if pr_Step (pc_RTPPortRange c3) = 0
                then c3\<lparr>pc_RTPPortRange := (pc_RTPPortRange c3)\<lparr>pr_Step := 2\<rparr>\<rparr> else c3)
      in if pr_Step (pc_RTCPPortRange c4) = 0
         then c4\<lparr>pc_RTCPPortRange := (pc_RTCPPortRange c4)\<lparr>pr_Step := 1\<rparr>\<rparr> else c4)"

definition NewPortAllocator :: "PortConfig \<Rightarrow> PortAllocator" where
  "NewPortAllocator config =
     \<lparr>pa_config = with_defaults config, pa_allocated = Map.empty, pa_heap = (\<lambda>_. no_allocation), pa_next = 0,
      pa_listeners = {}, pa_sockets = {}, pa_shutdown = False\<rparr>"

subsection \<open>Binding\<close>

type_synonym ports = "int \<Rightarrow> bool"

definition ListenPacket :: "ports \<Rightarrow> int \<Rightarrow> PortAllocator \<Rightarrow> PortAllocator option" where
  "ListenPacket bindable port pa =
     (if bindable port \<and> port \<notin> pa_sockets pa then Some (pa\<lparr>pa_sockets := insert port (pa_sockets pa)\<rparr>) else None)"

definition close_socket :: "int \<Rightarrow> PortAllocator \<Rightarrow> PortAllocator" where
  "close_socket port pa = pa\<lparr>pa_sockets := pa_sockets pa - {port}\<rparr>"

definition isPortAvailable :: "ports \<Rightarrow> PortAllocator \<Rightarrow> int \<Rightarrow> bool" where
  "isPortAvailable probe pa port \<longleftrightarrow>
     (if pa_allocated pa port \<noteq> None then False
      else case ListenPacket probe port pa of None \<Rightarrow> False | Some _ \<Rightarrow> True)"

text \<open>The ports that \<open>for port := start; port < end; port += step\<close> visits. A step that is not positive
  would not end the loop; the proxy's only configuration has steps 2 and 1.\<close>

function ports_below :: "int \<Rightarrow> int \<Rightarrow> int \<Rightarrow> int list" where
  "ports_below port end' step =
     (if port < end' \<and> 0 < step then port # ports_below (port + step) end' step else [])"
  by auto
termination
  by (relation "measure (\<lambda>(port, end', step). nat (end' - port))") auto

declare ports_below.simps [simp del]

text \<open>Putting a new allocation and its listeners into the tables.\<close>

definition install :: "PortAllocation \<Rightarrow> PortAllocator \<Rightarrow> nat \<times> PortAllocator" where
  "install al pa =
     (let a = pa_next pa;
          ports = (if al_RTCPPort al = 0 then {al_RTPPort al} else {al_RTPPort al, al_RTCPPort al})
      in (a, pa\<lparr>pa_heap := (pa_heap pa)(a := al), pa_next := a + 1,
                pa_allocated := (\<lambda>p. if p \<in> ports then Some a else pa_allocated pa p),
                pa_listeners := pa_listeners pa \<union> ports\<rparr>))"

subsection \<open>Allocation\<close>

fun adjacent_loop :: "ports \<Rightarrow> ports \<Rightarrow> int list \<Rightarrow> PortAllocator \<Rightarrow> (int \<times> PortAllocator) option" where
  "adjacent_loop probe bindable [] pa = None"
| "adjacent_loop probe bindable (port # rest) pa =
     (if \<not> isPortAvailable probe pa port \<or> \<not> isPortAvailable probe pa (port + 1)
      then adjacent_loop probe bindable rest pa
      else case ListenPacket bindable port pa of
          None \<Rightarrow> adjacent_loop probe bindable rest pa
        | Some pa1 \<Rightarrow> (case ListenPacket bindable (port + 1) pa1 of
              None \<Rightarrow> adjacent_loop probe bindable rest (close_socket port pa1)
            | Some pa2 \<Rightarrow> Some (port, pa2)))"

definition webrtc_allocation :: "instant \<Rightarrow> string \<Rightarrow> nat \<Rightarrow> int \<Rightarrow> int \<Rightarrow> PortAllocator \<Rightarrow> PortAllocation" where
  "webrtc_allocation now serviceName target rtpPort rtcpPort pa =
     \<lparr>al_ServiceName = serviceName, al_RTPPort = rtpPort, al_RTCPPort = rtcpPort, al_AllocatedAt = now,
      al_ExpiresAt = now + pc_AllocationTTL (pa_config pa), al_Target = target, al_Protocol = ''webrtc'', al_InUse = True\<rparr>"

type_synonym allocated = "(udp_error + nat) \<times> PortAllocator"

definition allocateAdjacentPair :: "ports \<Rightarrow> ports \<Rightarrow> instant \<Rightarrow> string \<Rightarrow> nat \<Rightarrow> PortAllocator \<Rightarrow> allocated" where
  "allocateAdjacentPair probe bindable now serviceName target pa =
     (let rtpRange = pc_RTPPortRange (pa_config pa)
      in case adjacent_loop probe bindable (ports_below (pr_Start rtpRange) (pr_End rtpRange) (pr_Step rtpRange)) pa of
           None \<Rightarrow> (Inl (NoAdjacentPairs (pr_Start rtpRange) (pr_End rtpRange)), pa)
         | Some (port, pa1) \<Rightarrow>
             (let (a, pa2) = install (webrtc_allocation now serviceName target port (port + 1) pa1) pa1 in (Inr a, pa2)))"

text \<open>The search loop of \<open>allocateSeparateRanges\<close>: the first available port that can be bound, 0 if there
  is none.\<close>

fun bind_first :: "ports \<Rightarrow> ports \<Rightarrow> int list \<Rightarrow> PortAllocator \<Rightarrow> int \<times> PortAllocator" where
  "bind_first probe bindable [] pa = (0, pa)"
| "bind_first probe bindable (port # rest) pa =
     (if isPortAvailable probe pa port
      then (case ListenPacket bindable port pa of
              None \<Rightarrow> bind_first probe bindable rest pa
            | Some pa1 \<Rightarrow> (port, pa1))
      else bind_first probe bindable rest pa)"

definition allocateSeparateRanges :: "ports \<Rightarrow> ports \<Rightarrow> instant \<Rightarrow> string \<Rightarrow> nat \<Rightarrow> PortAllocator \<Rightarrow> allocated" where
  "allocateSeparateRanges probe bindable now serviceName target pa =
     (let rtpRange = pc_RTPPortRange (pa_config pa);
          rtcpRange = pc_RTCPPortRange (pa_config pa);
          (rtpPort, pa1) = bind_first probe bindable [pr_Start rtpRange .. pr_End rtpRange] pa
      in if rtpPort = 0 then (Inl (NoRTPPorts (pr_Start rtpRange) (pr_End rtpRange)), pa1)
         else (let (rtcpPort, pa2) = bind_first probe bindable [pr_Start rtcpRange .. pr_End rtcpRange] pa1
               in if rtcpPort = 0
                  then (Inl (NoRTCPPorts (pr_Start rtcpRange) (pr_End rtcpRange)), close_socket rtpPort pa2)
                  else (let (a, pa3) = install (webrtc_allocation now serviceName target rtpPort rtcpPort pa2) pa2
                        in (Inr a, pa3))))"

definition AllocateRTPRTCPPair :: "ports \<Rightarrow> ports \<Rightarrow> instant \<Rightarrow> string \<Rightarrow> nat \<Rightarrow> PortAllocator \<Rightarrow> allocated" where
  "AllocateRTPRTCPPair probe bindable now serviceName target pa =
     (let policy = pc_RTCPPolicy (pa_config pa)
      in if policy = ''adjacent'' then allocateAdjacentPair probe bindable now serviceName target pa
         else if policy = ''separate-range'' then allocateSeparateRanges probe bindable now serviceName target pa
         else if policy = ''auto'' then
           (case allocateAdjacentPair probe bindable now serviceName target pa of
              (Inl _, pa1) \<Rightarrow> allocateSeparateRanges probe bindable now serviceName target pa1
            | (Inr a, pa1) \<Rightarrow> (Inr a, pa1))
         else allocateAdjacentPair probe bindable now serviceName target pa)"

definition allocateSpecificPort :: "ports \<Rightarrow> instant \<Rightarrow> string \<Rightarrow> nat \<Rightarrow> int \<Rightarrow> PortAllocator \<Rightarrow> allocated" where
  "allocateSpecificPort bindable now serviceName target port pa =
     (case ListenPacket bindable port pa of
        None \<Rightarrow> (Inl (BindFailed port), pa)
      | Some pa1 \<Rightarrow>
          (let (a, pa2) = install \<lparr>al_ServiceName = serviceName, al_RTPPort = port, al_RTCPPort = 0, al_AllocatedAt = now,
                 al_ExpiresAt = now + pc_AllocationTTL (pa_config pa1), al_Target = target, al_Protocol = ''udp'',
                 al_InUse = True\<rparr> pa1
           in (Inr a, pa2)))"

definition AllocateUDPPort :: "ports \<Rightarrow> ports \<Rightarrow> instant \<Rightarrow> string \<Rightarrow> nat \<Rightarrow> int \<Rightarrow> PortAllocator \<Rightarrow> allocated" where
  "AllocateUDPPort probe bindable now serviceName target preferredPort pa =
     (if preferredPort > 0 \<and> isPortAvailable probe pa preferredPort
      then allocateSpecificPort bindable now serviceName target preferredPort pa
      else (let rtpRange = pc_RTPPortRange (pa_config pa)
            in case List.find (isPortAvailable probe pa) [pr_Start rtpRange .. pr_End rtpRange] of
                 Some port \<Rightarrow> allocateSpecificPort bindable now serviceName target port pa
               | None \<Rightarrow> (Inl (NoUDPPorts (pr_Start rtpRange) (pr_End rtpRange)), pa)))"

subsection \<open>Deallocation\<close>

definition close_listener :: "int \<Rightarrow> PortAllocator \<Rightarrow> PortAllocator" where
  "close_listener port pa =
     (if port \<in> pa_listeners pa then (close_socket port pa)\<lparr>pa_listeners := pa_listeners pa - {port}\<rparr> else pa)"

definition close_listeners :: "PortAllocation \<Rightarrow> PortAllocator \<Rightarrow> PortAllocator" where
  "close_listeners al pa =
     (let pa1 = close_listener (al_RTPPort al) pa
      in if al_RTCPPort al > 0 then close_listener (al_RTCPPort al) pa1 else pa1)"

definition forget :: "int \<Rightarrow> PortAllocator \<Rightarrow> PortAllocator" where
  "forget port pa = pa\<lparr>pa_allocated := (pa_allocated pa)(port := None)\<rparr>"

definition release :: "PortAllocation \<Rightarrow> PortAllocator \<Rightarrow> PortAllocator" where
  "release al pa =
     (let pa1 = close_listeners al pa;
          pa2 = (if al_RTCPPort al > 0 then forget (al_RTCPPort al) pa1 else pa1)
      in forget (al_RTPPort al) pa2)"

definition DeallocatePort :: "int \<Rightarrow> PortAllocator \<Rightarrow> udp_error option \<times> PortAllocator" where
  "DeallocatePort port pa =
     (case pa_allocated pa port of
        None \<Rightarrow> (Some (PortNotAllocated port), pa)
      | Some a \<Rightarrow> (None, release (pa_heap pa a) pa))"

definition nil_dereference :: string where
  "nil_dereference = ''invalid memory address or nil pointer dereference''"

fun deallocate_loop :: "int list \<Rightarrow> PortAllocator \<Rightarrow> PortAllocator outcome" where
  "deallocate_loop [] pa = Returns pa"
| "deallocate_loop (port # rest) pa =
     (case pa_allocated pa port of
        None \<Rightarrow> Panics nil_dereference
      | Some a \<Rightarrow> deallocate_loop rest (forget port (close_listeners (pa_heap pa a) pa)))"

definition held_by :: "(PortAllocation \<Rightarrow> bool) \<Rightarrow> PortAllocator \<Rightarrow> int \<Rightarrow> bool" where
  "held_by P pa port \<longleftrightarrow> (case pa_allocated pa port of None \<Rightarrow> False | Some a \<Rightarrow> P (pa_heap pa a))"

definition DeallocateService :: "int list \<Rightarrow> string \<Rightarrow> PortAllocator \<Rightarrow> PortAllocator outcome" where
  "DeallocateService order serviceName pa =
     deallocate_loop (filter (held_by (\<lambda>al. al_ServiceName al = serviceName) pa) order) pa"

fun cleanup_loop :: "int list \<Rightarrow> PortAllocator \<Rightarrow> PortAllocator outcome" where
  "cleanup_loop [] pa = Returns pa"
| "cleanup_loop (port # rest) pa =
     (case pa_allocated pa port of
        None \<Rightarrow> Panics nil_dereference
      | Some a \<Rightarrow> cleanup_loop rest (release (pa_heap pa a) pa))"

definition expired :: "instant \<Rightarrow> PortAllocation \<Rightarrow> bool" where
  "expired now al \<longleftrightarrow> \<not> al_InUse al \<and> now > al_ExpiresAt al"

definition cleanupExpiredAllocations :: "int list \<Rightarrow> instant \<Rightarrow> PortAllocator \<Rightarrow> PortAllocator outcome" where
  "cleanupExpiredAllocations order now pa = cleanup_loop (filter (held_by (expired now) pa) order) pa"

definition ExtendAllocation :: "instant \<Rightarrow> int \<Rightarrow> duration \<Rightarrow> PortAllocator \<Rightarrow> udp_error option \<times> PortAllocator" where
  "ExtendAllocation now port d pa =
     (case pa_allocated pa port of
        None \<Rightarrow> (Some (PortNotAllocated port), pa)
      | Some a \<Rightarrow> (None, pa\<lparr>pa_heap := (pa_heap pa)(a := (pa_heap pa a)\<lparr>al_ExpiresAt := now + d\<rparr>)\<rparr>))"

definition PortAllocator_Stop :: "PortAllocator \<Rightarrow> PortAllocator outcome" where
  "PortAllocator_Stop pa =
     (if pa_shutdown pa then Panics ''close of closed channel''
      else Returns (pa\<lparr>pa_shutdown := True, pa_sockets := pa_sockets pa - pa_listeners pa, pa_listeners := {},
                       pa_allocated := Map.empty\<rparr>))"

text \<open>The write \<open>allocation.InUse = false\<close> that a deployment makes to the allocations it replaces.\<close>

definition mark_unused :: "nat \<Rightarrow> PortAllocator \<Rightarrow> PortAllocator" where
  "mark_unused a pa = pa\<lparr>pa_heap := (pa_heap pa)(a := (pa_heap pa a)\<lparr>al_InUse := False\<rparr>)\<rparr>"

subsection \<open>Queries\<close>

definition GetAllocation :: "int \<Rightarrow> PortAllocator \<Rightarrow> PortAllocation option" where
  "GetAllocation port pa = map_option (pa_heap pa) (pa_allocated pa port)"

definition GetAllocatedPorts :: "int list \<Rightarrow> int list" where
  "GetAllocatedPorts order = sort order"

fun distinct_allocations :: "PortAllocator \<Rightarrow> int list \<Rightarrow> nat list \<Rightarrow> nat list" where
  "distinct_allocations pa [] seen = []"
| "distinct_allocations pa (port # rest) seen =
     (case pa_allocated pa port of
        None \<Rightarrow> distinct_allocations pa rest seen
      | Some a \<Rightarrow> if a \<in> set seen then distinct_allocations pa rest seen
                  else a # distinct_allocations pa rest (a # seen))"

definition GetServiceAllocations :: "int list \<Rightarrow> string \<Rightarrow> PortAllocator \<Rightarrow> nat list" where
  "GetServiceAllocations order serviceName pa =
     distinct_allocations pa (filter (held_by (\<lambda>al. al_ServiceName al = serviceName) pa) order) []"

definition GetListener :: "int \<Rightarrow> PortAllocator \<Rightarrow> bool" where
  "GetListener port pa \<longleftrightarrow> port \<in> pa_listeners pa"

record PortStats =
  st_total_allocations :: nat
  st_udp_ports :: nat
  st_webrtc_pairs :: nat
  st_services :: nat
  st_ports_in_use :: nat

definition GetStats :: "int list \<Rightarrow> PortAllocator \<Rightarrow> PortStats" where
  "GetStats order pa =
     (let as = map (pa_heap pa) (distinct_allocations pa order []);
          pairs = filter (\<lambda>al. al_Protocol al = ''webrtc'' \<and> al_RTCPPort al > 0) as
      in \<lparr>st_total_allocations = length as, st_udp_ports = length as - length pairs,
          st_webrtc_pairs = length pairs, st_services = length (remdups (map al_ServiceName as)),
          st_ports_in_use = length order\<rparr>)"

subsection \<open>The tables stay consistent\<close>

definition owned :: "PortAllocation \<Rightarrow> int set" where
  "owned al = (if al_RTCPPort al > 0 then {al_RTPPort al, al_RTCPPort al} else {al_RTPPort al})"

text \<open>Every allocated port belongs to its allocation, an allocation holds all of its ports or none, and
  exactly the allocated ports have a listener.\<close>

definition tables_ok :: "PortAllocator \<Rightarrow> bool" where
  "tables_ok pa \<longleftrightarrow>
     (\<forall>p a. pa_allocated pa p = Some a \<longrightarrow> a < pa_next pa \<and> p \<in> owned (pa_heap pa a)
        \<and> (\<forall>q \<in> owned (pa_heap pa a). pa_allocated pa q = Some a))
     \<and> pa_listeners pa = dom (pa_allocated pa) \<and> finite (dom (pa_allocated pa))"

definition ranges_ok :: "PortConfig \<Rightarrow> bool" where
  "ranges_ok c \<longleftrightarrow> 0 < pr_Start (pc_RTPPortRange c) \<and> 0 < pr_Start (pc_RTCPPortRange c)"

definition ports_ok :: "PortAllocator \<Rightarrow> bool" where
  "ports_ok pa \<longleftrightarrow> tables_ok pa \<and> pa_sockets pa = pa_listeners pa \<and> ranges_ok (pa_config pa)"

lemma allocatedD:
  assumes "tables_ok pa" "pa_allocated pa p = Some a"
  shows "a < pa_next pa" "p \<in> owned (pa_heap pa a)" "q \<in> owned (pa_heap pa a) \<Longrightarrow> pa_allocated pa q = Some a"
  using assms unfolding tables_ok_def by blast+

lemma tables_listeners: "tables_ok pa \<Longrightarrow> pa_listeners pa = dom (pa_allocated pa) \<and> finite (dom (pa_allocated pa))"
  unfolding tables_ok_def by blast

lemma owned_finite [simp]: "finite (owned al)"
  by (simp add: owned_def)

lemma install_tables:
  assumes "tables_ok pa" "owned al \<inter> dom (pa_allocated pa) = {}" "0 \<le> al_RTCPPort al" "install al pa = (a, pa')"
  shows "tables_ok pa'" "pa_sockets pa' = pa_sockets pa" "pa_config pa' = pa_config pa"
    "pa_heap pa' a = al" "pa_allocated pa' = (\<lambda>p. if p \<in> owned al then Some a else pa_allocated pa p)"
    "a = pa_next pa" "pa_heap pa' = (pa_heap pa)(a := al)" "pa_listeners pa' = pa_listeners pa \<union> owned al"
    "pa_shutdown pa' = pa_shutdown pa"
proof -
  have o: "owned al = (if al_RTCPPort al = 0 then {al_RTPPort al} else {al_RTPPort al, al_RTCPPort al})"
    using assms(3) by (auto simp: owned_def)
  from assms(4) have "a = fst (install al pa)" and pa': "pa' = snd (install al pa)" by simp_all
  then have a: "a = pa_next pa" by (simp add: install_def Let_def)
  show eqs: "pa_sockets pa' = pa_sockets pa" "pa_config pa' = pa_config pa"
    "pa_heap pa' a = al" "pa_allocated pa' = (\<lambda>p. if p \<in> owned al then Some a else pa_allocated pa p)"
    "a = pa_next pa" "pa_heap pa' = (pa_heap pa)(a := al)" "pa_listeners pa' = pa_listeners pa \<union> owned al"
    "pa_shutdown pa' = pa_shutdown pa"
    unfolding a pa' by (simp_all add: install_def o Let_def)
  have n: "pa_next pa' = pa_next pa + 1" by (simp add: pa' install_def Let_def)
  have d: "dom (pa_allocated pa') = dom (pa_allocated pa) \<union> owned al"
    by (auto simp: eqs(4) dom_def split: if_splits)
  have "b < pa_next pa' \<and> p \<in> owned (pa_heap pa' b) \<and> (\<forall>q \<in> owned (pa_heap pa' b). pa_allocated pa' q = Some b)"
    if p: "pa_allocated pa' p = Some b" for p b
  proof (cases "p \<in> owned al")
    case True
    with p eqs(4) have b: "b = a" by simp
    from True show ?thesis unfolding b eqs(3) n by (simp add: eqs(4,5))
  next
    case False
    with p eqs(4) have "pa_allocated pa p = Some b" by simp
    note b = allocatedD [OF assms(1) this]
    from assms(2) b(3) have "q \<notin> owned al" if "q \<in> owned (pa_heap pa b)" for q using that by blast
    with b(3) have "\<forall>q \<in> owned (pa_heap pa b). pa_allocated pa' q = Some b" by (simp add: eqs(4))
    moreover from b(1) eqs(5,6) have "pa_heap pa' b = pa_heap pa b" by simp
    ultimately show ?thesis using b(1,2) n by simp
  qed
  moreover have "pa_listeners pa' = dom (pa_allocated pa')" "finite (dom (pa_allocated pa'))"
    using tables_listeners [OF assms(1)] by (simp_all add: d eqs(7))
  ultimately show "tables_ok pa'" unfolding tables_ok_def by blast
qed

subsubsection \<open>Binding ports\<close>

definition sockets_with :: "int set \<Rightarrow> PortAllocator \<Rightarrow> PortAllocator" where
  "sockets_with S pa = pa\<lparr>pa_sockets := pa_sockets pa \<union> S\<rparr>"

lemma sockets_with_fields [simp]:
  "pa_config (sockets_with S pa) = pa_config pa" "pa_allocated (sockets_with S pa) = pa_allocated pa"
  "pa_heap (sockets_with S pa) = pa_heap pa" "pa_next (sockets_with S pa) = pa_next pa"
  "pa_listeners (sockets_with S pa) = pa_listeners pa" "pa_sockets (sockets_with S pa) = pa_sockets pa \<union> S"
  "pa_shutdown (sockets_with S pa) = pa_shutdown pa" "tables_ok (sockets_with S pa) = tables_ok pa"
  "sockets_with S (sockets_with T pa) = sockets_with (S \<union> T) pa"
  by (auto simp: sockets_with_def tables_ok_def ac_simps)

lemma ListenPacket_Some:
  "ListenPacket bindable p pa = Some pa' \<longleftrightarrow> bindable p \<and> p \<notin> pa_sockets pa \<and> pa' = sockets_with {p} pa"
  by (auto simp: ListenPacket_def sockets_with_def)

lemma ListenPacket_None: "ListenPacket bindable p pa = None \<longleftrightarrow> \<not> (bindable p \<and> p \<notin> pa_sockets pa)"
  by (simp add: ListenPacket_def)

lemma isPortAvailable_iff:
  "isPortAvailable probe pa p \<longleftrightarrow> p \<notin> dom (pa_allocated pa) \<and> probe p \<and> p \<notin> pa_sockets pa"
  by (auto simp: isPortAvailable_def ListenPacket_def)

lemma close_opened: "p \<notin> pa_sockets pa \<Longrightarrow> close_socket p (sockets_with {p} pa) = pa"
  by (cases pa) (auto simp: close_socket_def sockets_with_def)

text \<open>A pair that can be taken, and what the search over the candidate pairs finds.\<close>

definition pair_free :: "ports \<Rightarrow> ports \<Rightarrow> PortAllocator \<Rightarrow> int \<Rightarrow> bool" where
  "pair_free probe bindable pa p \<longleftrightarrow> isPortAvailable probe pa p \<and> isPortAvailable probe pa (p + 1)
     \<and> bindable p \<and> bindable (p + 1)"

lemma adjacent_loop_finds:
  "adjacent_loop probe bindable ps pa =
     map_option (\<lambda>p. (p, sockets_with {p, p + 1} pa)) (List.find (pair_free probe bindable pa) ps)"
proof (induction ps)
  case Nil
  then show ?case by simp
next
  case (Cons p ps)
  show ?case
  proof (cases "isPortAvailable probe pa p \<and> isPortAvailable probe pa (p + 1)")
    case True
    then have n: "p \<notin> pa_sockets pa" "p + 1 \<notin> pa_sockets pa" by (simp_all add: isPortAvailable_iff)
    have l1: "ListenPacket bindable p pa = (if bindable p then Some (sockets_with {p} pa) else None)"
      using n by (simp add: ListenPacket_def sockets_with_def)
    have l2: "ListenPacket bindable (p + 1) (sockets_with {p} pa) =
        (if bindable (p + 1) then Some (sockets_with {p + 1} (sockets_with {p} pa)) else None)"
      using n by (simp add: ListenPacket_def sockets_with_def)
    have "{p + 1} \<union> {p} = {p, p + 1}" by auto
    then show ?thesis
      using Cons True by (simp add: l1 l2 close_opened [OF n(1)] pair_free_def)
  next
    case False
    with Cons show ?thesis by (auto simp: pair_free_def)
  qed
qed

lemma bind_first_cases:
  assumes "bind_first probe bindable ps pa = (p, pa')"
  shows "(p = 0 \<and> pa' = pa \<and> (\<forall>q \<in> set ps. \<not> (isPortAvailable probe pa q \<and> bindable q)))
    \<or> (p \<in> set ps \<and> isPortAvailable probe pa p \<and> bindable p \<and> pa' = sockets_with {p} pa)"
  using assms
proof (induction ps)
  case Nil
  then show ?case by simp
next
  case (Cons q ps)
  then show ?case
    by (auto simp: ListenPacket_def sockets_with_def isPortAvailable_iff split: if_splits option.splits)
qed

subsubsection \<open>Allocating\<close>

text \<open>What a successful allocation does: the new allocation holds its ports, which were free before,
  every other port is as it was, and the tables are consistent.\<close>

definition grants :: "PortAllocator \<Rightarrow> string \<Rightarrow> nat \<Rightarrow> nat \<Rightarrow> PortAllocator \<Rightarrow> bool" where
  "grants pa serviceName target a pa' \<longleftrightarrow>
     ports_ok pa' \<and> owned (pa_heap pa' a) \<inter> dom (pa_allocated pa) = {}
     \<and> pa_allocated pa' = (\<lambda>p. if p \<in> owned (pa_heap pa' a) then Some a else pa_allocated pa p)
     \<and> pa_heap pa' = (pa_heap pa)(a := pa_heap pa' a) \<and> a = pa_next pa
     \<and> al_ServiceName (pa_heap pa' a) = serviceName \<and> al_Target (pa_heap pa' a) = target
     \<and> al_InUse (pa_heap pa' a) \<and> pa_config pa' = pa_config pa"

lemma ports_ok_disjoint: "ports_ok pa \<Longrightarrow> isPortAvailable probe pa p \<longleftrightarrow> p \<notin> dom (pa_allocated pa) \<and> probe p"
  by (auto simp: isPortAvailable_iff ports_ok_def dest: tables_listeners)

lemma install_grants:
  assumes ok: "ports_ok pa" and free: "owned al \<inter> dom (pa_allocated pa) = {}" and nn: "0 \<le> al_RTCPPort al"
    and i: "install al (sockets_with (owned al) pa) = (a, pa')" and u: "al_InUse al"
  shows "grants pa (al_ServiceName al) (al_Target al) a pa'" "pa_heap pa' a = al"
proof -
  from ok have t: "tables_ok (sockets_with (owned al) pa)" by (simp add: ports_ok_def)
  from free have f: "owned al \<inter> dom (pa_allocated (sockets_with (owned al) pa)) = {}" by simp
  note it = install_tables [OF t f nn i]
  show h: "pa_heap pa' a = al" by (rule it(4))
  have "pa_sockets pa' = pa_listeners pa'" "ranges_ok (pa_config pa')"
    using ok by (simp_all add: it ports_ok_def)
  with it(1) have ok': "ports_ok pa'" by (simp add: ports_ok_def)
  have e: "pa_allocated pa' = (\<lambda>p. if p \<in> owned al then Some a else pa_allocated pa p)" "pa_heap pa' = (pa_heap pa)(a := al)"
    "a = pa_next pa" "pa_config pa' = pa_config pa"
    using it unfolding sockets_with_fields by simp_all
  show "grants pa (al_ServiceName al) (al_Target al) a pa'"
    unfolding grants_def h using ok' free e u by blast
qed

lemma ports_below_bounds: "p \<in> set (ports_below s e k) \<Longrightarrow> s \<le> p \<and> p < e"
  by (induction s e k rule: ports_below.induct) (subst (asm) ports_below.simps, fastforce split: if_splits)

lemma find_ports_positive: "ports_ok pa \<Longrightarrow> 0 < pr_Start (pc_RTPPortRange (pa_config pa)) \<and> 0 < pr_Start (pc_RTCPPortRange (pa_config pa))"
  by (simp add: ports_ok_def ranges_ok_def)

lemma allocateAdjacentPair_cases:
  assumes ok: "ports_ok pa" and r: "allocateAdjacentPair probe bindable now s t pa = (res, pa')"
  shows "case res of
      Inl e \<Rightarrow> pa' = pa \<and> List.find (pair_free probe bindable pa) (ports_below (pr_Start (pc_RTPPortRange (pa_config pa)))
                 (pr_End (pc_RTPPortRange (pa_config pa))) (pr_Step (pc_RTPPortRange (pa_config pa)))) = None
    | Inr a \<Rightarrow> grants pa s t a pa' \<and> al_RTCPPort (pa_heap pa' a) = al_RTPPort (pa_heap pa' a) + 1
        \<and> List.find (pair_free probe bindable pa) (ports_below (pr_Start (pc_RTPPortRange (pa_config pa)))
                 (pr_End (pc_RTPPortRange (pa_config pa))) (pr_Step (pc_RTPPortRange (pa_config pa)))) = Some (al_RTPPort (pa_heap pa' a))"
proof -
  let ?r = "pc_RTPPortRange (pa_config pa)"
  let ?f = "List.find (pair_free probe bindable pa) (ports_below (pr_Start ?r) (pr_End ?r) (pr_Step ?r))"
  show ?thesis
  proof (cases ?f)
    case None
    with r show ?thesis by (auto simp: allocateAdjacentPair_def adjacent_loop_finds Let_def)
  next
    case (Some p)
    let ?al = "webrtc_allocation now s t p (p + 1) pa"
    from find_Some_prop [OF Some] have p: "p \<in> set (ports_below (pr_Start ?r) (pr_End ?r) (pr_Step ?r))" "pair_free probe bindable pa p"
      by simp_all
    with ports_below_bounds find_ports_positive [OF ok] have pos: "0 < p" by fastforce
    then have o: "owned ?al = {p, p + 1}" by (simp add: owned_def webrtc_allocation_def)
    have free: "owned ?al \<inter> dom (pa_allocated pa) = {}"
      using p(2) unfolding o by (auto simp: pair_free_def isPortAvailable_iff)
    have w: "webrtc_allocation now s t p (p + 1) (sockets_with {p, p + 1} pa) = ?al"
      by (simp add: webrtc_allocation_def)
    from Some r w obtain a where a: "install ?al (sockets_with (owned ?al) pa) = (a, pa')" "res = Inr a"
      by (auto simp: allocateAdjacentPair_def adjacent_loop_finds Let_def o split: prod.splits)
    have "0 \<le> al_RTCPPort ?al" "al_InUse ?al" using pos by (simp_all add: webrtc_allocation_def)
    note g = install_grants [OF ok free this(1) a(1) this(2)]
    with a(2) Some show ?thesis by (simp add: webrtc_allocation_def)
  qed
qed

lemma allocateSeparateRanges_cases:
  assumes ok: "ports_ok pa" and r: "allocateSeparateRanges probe bindable now s t pa = (res, pa')"
  shows "case res of Inl e \<Rightarrow> pa' = pa
    | Inr a \<Rightarrow> grants pa s t a pa' \<and> 0 < al_RTCPPort (pa_heap pa' a)
        \<and> al_RTCPPort (pa_heap pa' a) \<noteq> al_RTPPort (pa_heap pa' a)"
proof -
  let ?R = "pc_RTPPortRange (pa_config pa)" and ?C = "pc_RTCPPortRange (pa_config pa)"
  obtain p pa1 where b1: "bind_first probe bindable [pr_Start ?R..pr_End ?R] pa = (p, pa1)" by fastforce
  show ?thesis
  proof (cases "p = 0")
    case True
    with bind_first_cases [OF b1] find_ports_positive [OF ok] have "pa1 = pa" by auto
    with True b1 r show ?thesis by (auto simp: allocateSeparateRanges_def Let_def)
  next
    case False
    with bind_first_cases [OF b1] find_ports_positive [OF ok] have p: "0 < p" "isPortAvailable probe pa p"
      "pa1 = sockets_with {p} pa" by auto
    obtain q pa2 where b2: "bind_first probe bindable [pr_Start ?C..pr_End ?C] pa1 = (q, pa2)" by fastforce
    show ?thesis
    proof (cases "q = 0")
      case True
      with bind_first_cases [OF b2] find_ports_positive [OF ok] have "pa2 = pa1" by auto
      with True False b1 b2 r p show ?thesis
        by (auto simp: allocateSeparateRanges_def Let_def isPortAvailable_iff close_opened)
    next
      case q0: False
      with bind_first_cases [OF b2] find_ports_positive [OF ok] have q: "0 < q" "isPortAvailable probe pa1 q"
        "pa2 = sockets_with {q} pa1" by auto
      let ?al = "webrtc_allocation now s t p q pa"
      from p(3) q(2) have ne: "q \<noteq> p" and qf: "q \<notin> dom (pa_allocated pa)" by (auto simp: isPortAvailable_iff)
      have o: "owned ?al = {p, q}" using q(1) by (simp add: owned_def webrtc_allocation_def)
      have free: "owned ?al \<inter> dom (pa_allocated pa) = {}"
        using p(2) qf unfolding o by (auto simp: isPortAvailable_iff)
      have "pa2 = sockets_with (owned ?al) pa" using p(3) q(3) by (simp add: o insert_commute)
      moreover have "webrtc_allocation now s t p q pa2 = ?al" using p(3) q(3) by (simp add: webrtc_allocation_def)
      ultimately obtain a where a: "install ?al (sockets_with (owned ?al) pa) = (a, pa')" "res = Inr a"
        using r b1 b2 False q0 by (auto simp: allocateSeparateRanges_def Let_def split: prod.splits)
      have "0 \<le> al_RTCPPort ?al" "al_InUse ?al" using q(1) by (simp_all add: webrtc_allocation_def)
      note g = install_grants [OF ok free this(1) a(1) this(2)]
      with a(2) ne q(1) show ?thesis by (simp add: webrtc_allocation_def)
    qed
  qed
qed

lemma AllocateRTPRTCPPair_cases:
  assumes ok: "ports_ok pa" and r: "AllocateRTPRTCPPair probe bindable now s t pa = (res, pa')"
  shows "case res of Inl e \<Rightarrow> pa' = pa
    | Inr a \<Rightarrow> grants pa s t a pa' \<and> 0 < al_RTCPPort (pa_heap pa' a)
        \<and> al_RTCPPort (pa_heap pa' a) \<noteq> al_RTPPort (pa_heap pa' a)"
proof -
  have adj: "case res of Inl e \<Rightarrow> pa' = pa
    | Inr a \<Rightarrow> grants pa s t a pa' \<and> 0 < al_RTCPPort (pa_heap pa' a)
        \<and> al_RTCPPort (pa_heap pa' a) \<noteq> al_RTPPort (pa_heap pa' a)"
    if "allocateAdjacentPair probe bindable now s t pa = (res, pa')" for res pa'
    using allocateAdjacentPair_cases [OF ok that] find_ports_positive [OF ok]
    by (cases res) (fastforce dest!: find_Some_prop ports_below_bounds)+
  note sep = allocateSeparateRanges_cases [OF ok]
  obtain r1 pa1 where a1: "allocateAdjacentPair probe bindable now s t pa = (r1, pa1)" by fastforce
  consider "(res, pa') = (r1, pa1)" | "allocateSeparateRanges probe bindable now s t pa = (res, pa')"
    using r a1 adj [OF a1] by (cases r1) (auto simp: AllocateRTPRTCPPair_def Let_def split: if_splits)
  then show ?thesis
  proof cases
    case 1
    with a1 show ?thesis by (intro adj) simp
  qed (rule sep)
qed

lemma allocateSpecificPort_cases:
  assumes ok: "ports_ok pa" and fr: "p \<notin> dom (pa_allocated pa)"
    and r: "allocateSpecificPort bindable now s t p pa = (res, pa')"
  shows "case res of Inl e \<Rightarrow> pa' = pa \<and> e = BindFailed p \<and> \<not> bindable p
    | Inr a \<Rightarrow> grants pa s t a pa' \<and> owned (pa_heap pa' a) = {p}"
proof (cases "bindable p")
  case True
  let ?al = "\<lparr>al_ServiceName = s, al_RTPPort = p, al_RTCPPort = 0, al_AllocatedAt = now,
      al_ExpiresAt = now + pc_AllocationTTL (pa_config pa), al_Target = t, al_Protocol = ''udp'', al_InUse = True\<rparr>"
  have o: "owned ?al = {p}" by (simp add: owned_def)
  from ok fr have "p \<notin> pa_sockets pa" using tables_listeners by (auto simp: ports_ok_def)
  with True have "ListenPacket bindable p pa = Some (sockets_with {p} pa)" by (simp add: ListenPacket_Some)
  with r obtain a where a: "install ?al (sockets_with (owned ?al) pa) = (a, pa')" "res = Inr a"
    by (auto simp: allocateSpecificPort_def o split: prod.splits)
  have "owned ?al \<inter> dom (pa_allocated pa) = {}" using fr unfolding o by blast
  from install_grants [OF ok this _ a(1)] a(2) o show ?thesis by simp
next
  case False
  with r show ?thesis by (auto simp: allocateSpecificPort_def ListenPacket_def)
qed

lemma AllocateUDPPort_cases:
  assumes ok: "ports_ok pa" and r: "AllocateUDPPort probe bindable now s t preferred pa = (res, pa')"
  shows "case res of Inl e \<Rightarrow> pa' = pa
    | Inr a \<Rightarrow> grants pa s t a pa' \<and> owned (pa_heap pa' a) = {al_RTPPort (pa_heap pa' a)}"
proof -
  have *: "case res of Inl e \<Rightarrow> pa' = pa
    | Inr a \<Rightarrow> grants pa s t a pa' \<and> owned (pa_heap pa' a) = {al_RTPPort (pa_heap pa' a)}"
    if "isPortAvailable probe pa p" "allocateSpecificPort bindable now s t p pa = (res, pa')" for p
    using allocateSpecificPort_cases [OF ok _ that(2)] that(1) ports_ok_disjoint [OF ok]
    by (cases res) (auto simp: owned_def split: if_splits)
  show ?thesis
    using r * by (auto simp: AllocateUDPPort_def Let_def split: if_splits option.splits dest: find_Some_prop)
qed

subsubsection \<open>Freeing\<close>

definition free_ports :: "int set \<Rightarrow> PortAllocator \<Rightarrow> PortAllocator" where
  "free_ports S pa = pa\<lparr>pa_allocated := (\<lambda>p. if p \<in> S then None else pa_allocated pa p),
     pa_listeners := pa_listeners pa - S, pa_sockets := pa_sockets pa - S\<rparr>"

lemma free_ports_fields [simp]:
  "pa_allocated (free_ports S pa) p = (if p \<in> S then None else pa_allocated pa p)"
  "pa_heap (free_ports S pa) = pa_heap pa" "pa_next (free_ports S pa) = pa_next pa"
  "pa_config (free_ports S pa) = pa_config pa" "pa_listeners (free_ports S pa) = pa_listeners pa - S"
  "pa_sockets (free_ports S pa) = pa_sockets pa - S" "pa_shutdown (free_ports S pa) = pa_shutdown pa"
  "free_ports {} pa = pa"
  by (simp_all add: free_ports_def)

lemma free_ports_twice [simp]: "free_ports S (free_ports T pa) = free_ports (S \<union> T) pa"
  by (rule PortAllocator.equality) (auto simp: fun_eq_iff)

text \<open>A set of ports that contains an allocation's ports all or not at all.\<close>

definition whole :: "PortAllocator \<Rightarrow> int set \<Rightarrow> bool" where
  "whole pa S \<longleftrightarrow> (\<forall>p a. p \<in> S \<and> pa_allocated pa p = Some a \<longrightarrow> owned (pa_heap pa a) \<subseteq> S)"

lemma free_ports_ok:
  assumes "ports_ok pa" "whole pa S"
  shows "ports_ok (free_ports S pa)"
proof -
  from assms(1) have t: "tables_ok pa" by (simp add: ports_ok_def)
  have d: "dom (pa_allocated (free_ports S pa)) = dom (pa_allocated pa) - S"
    by (auto simp: dom_def)
  have "a < pa_next pa \<and> p \<in> owned (pa_heap pa a) \<and> (\<forall>q \<in> owned (pa_heap pa a). pa_allocated (free_ports S pa) q = Some a)"
    if p: "pa_allocated (free_ports S pa) p = Some a" for p a
  proof -
    from p have p': "p \<notin> S" "pa_allocated pa p = Some a" by (simp_all split: if_splits)
    note b = allocatedD [OF t p'(2)]
    have "q \<notin> S" if "q \<in> owned (pa_heap pa a)" for q
      using assms(2) b(2) b(3) [OF that] p'(1) unfolding whole_def by blast
    with b show ?thesis by simp
  qed
  moreover have "pa_listeners pa - S = dom (pa_allocated (free_ports S pa))" "finite (dom (pa_allocated (free_ports S pa)))"
    using tables_listeners [OF t] by (simp_all add: d)
  ultimately have "tables_ok (free_ports S pa)" unfolding tables_ok_def free_ports_fields(2,3,5) by blast
  with assms(1) show ?thesis by (simp add: ports_ok_def)
qed

lemma close_listeners_sub:
  assumes "pa_sockets pa = pa_listeners pa"
  shows "close_listeners al pa = pa\<lparr>pa_listeners := pa_listeners pa - owned al, pa_sockets := pa_sockets pa - owned al\<rparr>"
  using assms by (cases pa) (auto simp: close_listeners_def close_listener_def close_socket_def owned_def Let_def)

lemma release_frees:
  assumes "ports_ok pa"
  shows "release al pa = free_ports (owned al) pa"
proof -
  from assms have "pa_sockets pa = pa_listeners pa" by (simp add: ports_ok_def)
  then show ?thesis
    by (auto simp: release_def Let_def close_listeners_sub forget_def free_ports_def owned_def fun_eq_iff)
qed

lemma owned_whole: "ports_ok pa \<Longrightarrow> pa_allocated pa p = Some a \<Longrightarrow> whole pa (owned (pa_heap pa a))"
  unfolding whole_def ports_ok_def by (metis allocatedD(3) option.inject subsetI)

lemma DeallocatePort_frees:
  assumes "ports_ok pa" "pa_allocated pa p = Some a"
  shows "DeallocatePort p pa = (None, free_ports (owned (pa_heap pa a)) pa)"
  using assms by (simp add: DeallocatePort_def release_frees)

text \<open>The loop of \<open>DeallocateService\<close> closes both listeners of a pair at its first port and forgets the
  ports one by one.\<close>

definition partly_freed :: "int set \<Rightarrow> int set \<Rightarrow> PortAllocator \<Rightarrow> PortAllocator" where
  "partly_freed D S pa = pa\<lparr>pa_allocated := (\<lambda>p. if p \<in> D then None else pa_allocated pa p),
     pa_listeners := pa_listeners pa - S, pa_sockets := pa_sockets pa - S\<rparr>"

lemma deallocate_loop_frees:
  assumes "pa_sockets pa = pa_listeners pa" "distinct ps" "set ps \<inter> D = {}" "set ps \<subseteq> dom (pa_allocated pa)"
  shows "deallocate_loop ps (partly_freed D S pa) =
    Returns (partly_freed (D \<union> set ps) (S \<union> (\<Union>p \<in> set ps. owned (pa_heap pa (the (pa_allocated pa p))))) pa)"
  using assms(2-)
proof (induction ps arbitrary: D S)
  case Nil
  then show ?case by simp
next
  case (Cons p ps)
  then obtain a where a: "pa_allocated pa p = Some a" by auto
  have s: "pa_sockets (partly_freed D S pa) = pa_listeners (partly_freed D S pa)"
    using assms(1) by (simp add: partly_freed_def)
  have "forget p (close_listeners (pa_heap pa a) (partly_freed D S pa)) = partly_freed (insert p D) (S \<union> owned (pa_heap pa a)) pa"
    unfolding close_listeners_sub [OF s]
    by (rule PortAllocator.equality) (auto simp: forget_def partly_freed_def fun_eq_iff)
  moreover have "pa_allocated (partly_freed D S pa) p = Some a" "pa_heap (partly_freed D S pa) = pa_heap pa"
    using a Cons.prems by (simp_all add: partly_freed_def)
  ultimately show ?case using Cons.prems Cons.IH [of "insert p D" "S \<union> owned (pa_heap pa a)"]
    by (simp add: a Un_assoc)
qed

lemma deallocate_all:
  assumes ok: "ports_ok pa" and "distinct ps" "set ps \<subseteq> dom (pa_allocated pa)" and w: "whole pa (set ps)"
  shows "deallocate_loop ps pa = Returns (free_ports (set ps) pa)"
proof -
  from ok have t: "tables_ok pa" and s: "pa_sockets pa = pa_listeners pa" by (simp_all add: ports_ok_def)
  have "owned (pa_heap pa (the (pa_allocated pa p))) \<subseteq> set ps \<and> p \<in> owned (pa_heap pa (the (pa_allocated pa p)))"
    if "p \<in> set ps" for p
  proof -
    from that assms(3) obtain a where a: "pa_allocated pa p = Some a" by auto
    with w that have "owned (pa_heap pa a) \<subseteq> set ps" unfolding whole_def by blast
    with a allocatedD(2) [OF t a] show ?thesis by simp
  qed
  then have "(\<Union>p \<in> set ps. owned (pa_heap pa (the (pa_allocated pa p)))) = set ps" by blast
  with deallocate_loop_frees [OF s assms(2), of "{}" "{}"] assms(3)
  show ?thesis by (simp add: partly_freed_def free_ports_def)
qed

text \<open>The ports whose allocation has a property form a whole set.\<close>

lemma held_by_whole: "ports_ok pa \<Longrightarrow> whole pa {p. held_by P pa p}"
  unfolding whole_def held_by_def ports_ok_def
  by (auto split: option.splits dest: allocatedD(3))

lemma held_by_dom: "held_by P pa p \<Longrightarrow> p \<in> dom (pa_allocated pa)"
  by (auto simp: held_by_def split: option.splits)

lemma DeallocateService_frees:
  assumes "ports_ok pa" "distinct order" "set order = dom (pa_allocated pa)"
  shows "DeallocateService order s pa = Returns (free_ports {p. held_by (\<lambda>al. al_ServiceName al = s) pa p} pa)"
proof -
  let ?P = "held_by (\<lambda>al. al_ServiceName al = s) pa"
  have s: "set (filter ?P order) = {p. ?P p}" using assms(3) held_by_dom by fastforce
  show ?thesis
    unfolding DeallocateService_def s [symmetric]
    by (rule deallocate_all [OF assms(1)]) (use assms s held_by_whole [OF assms(1)] held_by_dom in auto)
qed

subsubsection \<open>Expiry\<close>

lemma cleanup_loop_panics:
  "ports_ok pa \<Longrightarrow> q \<in> set ps \<Longrightarrow> pa_allocated pa q = None \<Longrightarrow> cleanup_loop ps pa = Panics nil_dereference"
proof (induction ps arbitrary: pa)
  case Nil
  then show ?case by simp
next
  case (Cons p ps)
  show ?case
  proof (cases "pa_allocated pa p")
    case None
    then show ?thesis by simp
  next
    case (Some a)
    with Cons have "q \<in> set ps" by auto
    with Cons.prems Cons.IH [OF free_ports_ok [OF Cons.prems(1) owned_whole [OF Cons.prems(1) Some]]] Some
    show ?thesis by (simp add: release_frees)
  qed
qed

lemma cleanup_loop_singles:
  assumes "ports_ok pa" "distinct ps" "\<forall>p \<in> set ps. \<exists>a. pa_allocated pa p = Some a \<and> owned (pa_heap pa a) = {p}"
  shows "cleanup_loop ps pa = Returns (free_ports (set ps) pa)"
  using assms
proof (induction ps arbitrary: pa)
  case Nil
  then show ?case by simp
next
  case (Cons p ps)
  then obtain a where a: "pa_allocated pa p = Some a" "owned (pa_heap pa a) = {p}" by auto
  from free_ports_ok [OF Cons.prems(1) owned_whole [OF Cons.prems(1) a(1)]] a(2) have "ports_ok (free_ports {p} pa)" by simp
  moreover have "\<forall>q \<in> set ps. \<exists>b. pa_allocated (free_ports {p} pa) q = Some b \<and> owned (pa_heap (free_ports {p} pa) b) = {q}"
    using Cons.prems(2,3) by auto
  ultimately have "cleanup_loop ps (free_ports {p} pa) = Returns (free_ports (set ps) (free_ports {p} pa))"
    using Cons.IH Cons.prems(2) by simp
  with a Cons.prems(1) show ?case by (simp add: release_frees)
qed

lemma whole_without:
  assumes t: "tables_ok pa" and w: "whole pa (insert r S)" and r: "pa_allocated pa r = Some b" "owned (pa_heap pa b) = {r}"
  shows "whole (free_ports {r} pa) S"
  unfolding whole_def
proof (intro allI impI, elim conjE)
  fix p a
  assume p: "p \<in> S" and "pa_allocated (free_ports {r} pa) p = Some a"
  then have "p \<noteq> r" and a: "pa_allocated pa p = Some a" by (simp_all split: if_splits)
  have "r \<notin> owned (pa_heap pa a)"
  proof
    assume "r \<in> owned (pa_heap pa a)"
    from allocatedD(3) [OF t a this] r have "owned (pa_heap pa a) = {r}" by simp
    with allocatedD(2) [OF t a] \<open>p \<noteq> r\<close> show False by simp
  qed
  with w p a show "owned (pa_heap (free_ports {r} pa) a) \<subseteq> S" unfolding whole_def by auto
qed

lemma cleanup_loop_pair:
  assumes "ports_ok pa" "distinct ps" "whole pa (set ps)" "p \<in> set ps" "pa_allocated pa p = Some a" "owned (pa_heap pa a) \<noteq> {p}"
  shows "cleanup_loop ps pa = Panics nil_dereference"
  using assms
proof (induction ps arbitrary: pa)
  case Nil
  then show ?case by simp
next
  case (Cons r ps)
  show ?case
  proof (cases "pa_allocated pa r")
    case None
    then show ?thesis by simp
  next
    case (Some b)
    let ?o = "owned (pa_heap pa b)"
    from Cons.prems(1) have t: "tables_ok pa" by (simp add: ports_ok_def)
    have ok: "ports_ok (free_ports ?o pa)" by (rule free_ports_ok [OF Cons.prems(1) owned_whole [OF Cons.prems(1) Some]])
    have "cleanup_loop ps (free_ports ?o pa) = Panics nil_dereference"
    proof (cases "?o = {r}")
      case True
      have ne: "p \<noteq> r"
      proof
        assume "p = r"
        with Some Cons.prems(5) have "a = b" by simp
        with \<open>p = r\<close> True Cons.prems(6) show False by simp
      qed
      have "whole (free_ports ?o pa) (set ps)"
        using whole_without [OF t _ Some True] Cons.prems(3) True by simp
      moreover from Cons.prems(4,5) ne True have "p \<in> set ps" "pa_allocated (free_ports ?o pa) p = Some a" by auto
      ultimately show ?thesis
        using Cons.prems(2,6) by (intro Cons.IH [OF ok]) simp_all
    next
      case False
      with allocatedD(2) [OF t Some] obtain q where q: "q \<in> ?o" "q \<noteq> r" by blast
      moreover from Cons.prems(3) Some q have "q \<in> set ps" unfolding whole_def by fastforce
      ultimately show ?thesis using cleanup_loop_panics [OF ok] by simp
    qed
    with Some Cons.prems(1) show ?thesis by (simp add: release_frees)
  qed
qed

subsection \<open>Reachable allocators\<close>

text \<open>The operations in any order, with any behaviour of the operating system.\<close>

inductive port_step :: "PortAllocator \<Rightarrow> PortAllocator \<Rightarrow> bool" where
  pair: "AllocateRTPRTCPPair probe bindable now s t pa = (res, pa') \<Longrightarrow> port_step pa pa'"
| udp: "AllocateUDPPort probe bindable now s t preferred pa = (res, pa') \<Longrightarrow> port_step pa pa'"
| dealloc: "DeallocatePort p pa = (err, pa') \<Longrightarrow> port_step pa pa'"
| dealloc_service: "distinct order \<Longrightarrow> set order = dom (pa_allocated pa) \<Longrightarrow>
    DeallocateService order s pa = Returns pa' \<Longrightarrow> port_step pa pa'"
| cleanup: "distinct order \<Longrightarrow> set order = dom (pa_allocated pa) \<Longrightarrow>
    cleanupExpiredAllocations order now pa = Returns pa' \<Longrightarrow> port_step pa pa'"
| extend: "ExtendAllocation now p d pa = (err, pa') \<Longrightarrow> port_step pa pa'"
| unused: "port_step pa (mark_unused a pa)"
| stop: "PortAllocator_Stop pa = Returns pa' \<Longrightarrow> port_step pa pa'"

definition ports_start :: "PortAllocator \<Rightarrow> bool" where
  "ports_start pa \<longleftrightarrow> (\<exists>config. ranges_ok config \<and> pa = NewPortAllocator config)"

lemma with_defaults_ranges: "ranges_ok (with_defaults c) = ranges_ok c"
  by (simp add: with_defaults_def ranges_ok_def Let_def)

lemma ports_start_ok: "ports_start pa \<Longrightarrow> ports_ok pa"
  by (auto simp: ports_start_def ports_ok_def tables_ok_def NewPortAllocator_def with_defaults_ranges)

text \<open>Writes to an allocation that keep its ports.\<close>

lemma heap_write_ok:
  assumes "ports_ok pa" "owned al = owned (pa_heap pa a)"
  shows "ports_ok (pa\<lparr>pa_heap := (pa_heap pa)(a := al)\<rparr>)"
proof -
  let ?pa = "pa\<lparr>pa_heap := (pa_heap pa)(a := al)\<rparr>"
  from assms(1) have t: "tables_ok pa" by (simp add: ports_ok_def)
  have o: "owned (pa_heap ?pa b) = owned (pa_heap pa b)" for b using assms(2) by simp
  have f: "pa_allocated ?pa = pa_allocated pa" "pa_next ?pa = pa_next pa" "pa_listeners ?pa = pa_listeners pa" by simp_all
  have "tables_ok ?pa"
    using t unfolding tables_ok_def o f .
  with assms(1) show ?thesis by (simp add: ports_ok_def)
qed

lemma cleanup_cases:
  assumes "ports_ok pa" "distinct order" "set order = dom (pa_allocated pa)"
  shows "cleanupExpiredAllocations order now pa =
    (if \<exists>p a. pa_allocated pa p = Some a \<and> expired now (pa_heap pa a) \<and> owned (pa_heap pa a) \<noteq> {p}
     then Panics nil_dereference else Returns (free_ports {p. held_by (expired now) pa p} pa))"
proof -
  let ?ps = "filter (held_by (expired now) pa) order"
  have s: "set ?ps = {p. held_by (expired now) pa p}" using assms(3) held_by_dom by fastforce
  note w = held_by_whole [OF assms(1), of "expired now"]
  have d: "distinct ?ps" using assms(2) by simp
  show ?thesis
  proof (cases "\<exists>p a. pa_allocated pa p = Some a \<and> expired now (pa_heap pa a) \<and> owned (pa_heap pa a) \<noteq> {p}")
    case True
    then obtain p a where pa: "pa_allocated pa p = Some a" "expired now (pa_heap pa a)" "owned (pa_heap pa a) \<noteq> {p}" by blast
    then have "p \<in> set ?ps" unfolding s by (simp add: held_by_def)
    with cleanup_loop_pair [OF assms(1) d w [folded s] this pa(1,3)] True show ?thesis
      by (simp only: cleanupExpiredAllocations_def if_True)
  next
    case False
    then have "\<forall>p \<in> set ?ps. \<exists>a. pa_allocated pa p = Some a \<and> owned (pa_heap pa a) = {p}"
      unfolding s by (auto simp: held_by_def split: option.splits)
    from cleanup_loop_singles [OF assms(1) d this] show ?thesis
      unfolding cleanupExpiredAllocations_def s by (simp only: False if_False)
  qed
qed

lemma port_step_ok: "port_step pa pa' \<Longrightarrow> ports_ok pa \<Longrightarrow> ports_ok pa'"
proof (induction rule: port_step.induct)
  case (pair probe bindable now s t pa res pa')
  with AllocateRTPRTCPPair_cases [OF pair(2,1)] show ?case by (cases res) (auto simp: grants_def)
next
  case (udp probe bindable now s t preferred pa res pa')
  with AllocateUDPPort_cases [OF udp(2,1)] show ?case by (cases res) (auto simp: grants_def)
next
  case (dealloc p pa err pa')
  then show ?case
    by (cases "pa_allocated pa p") (auto simp: DeallocatePort_def release_frees intro!: free_ports_ok owned_whole)
next
  case (dealloc_service order pa s pa')
  with DeallocateService_frees show ?case by (auto intro!: free_ports_ok held_by_whole)
next
  case (cleanup order pa now pa')
  with cleanup_cases show ?case by (auto intro!: free_ports_ok held_by_whole split: if_splits)
next
  case (extend now p d pa err pa')
  then show ?case by (auto simp: ExtendAllocation_def owned_def intro!: heap_write_ok split: option.splits)
next
  case (unused pa a)
  then show ?case unfolding mark_unused_def by (intro heap_write_ok) (simp_all add: owned_def)
next
  case (stop pa pa')
  then have "pa' = pa\<lparr>pa_shutdown := True, pa_sockets := pa_sockets pa - pa_listeners pa, pa_listeners := {},
      pa_allocated := Map.empty\<rparr>" "pa_sockets pa = pa_listeners pa" "ranges_ok (pa_config pa)"
    by (simp_all add: PortAllocator_Stop_def ports_ok_def split: if_splits)
  then show ?case by (simp add: ports_ok_def tables_ok_def)
qed

interpretation porting: kept_invariant ports_start port_step ports_ok
  by unfold_locales (auto intro: ports_start_ok port_step_ok)

text \<open>C26: in every state that the operations can reach, in any order and whatever ports the operating
  system refuses: each allocated port is a port of its allocation, an allocation holds both its ports
  or neither, exactly the allocated ports have a listener and an open socket (no socket leaks), and
  freeing a service does not panic.\<close>

theorem ports_consistent:
  assumes "reach ports_start port_step pa"
  shows "(\<forall>p a. pa_allocated pa p = Some a \<longrightarrow> p \<in> owned (pa_heap pa a) \<and> (\<forall>q \<in> owned (pa_heap pa a). pa_allocated pa q = Some a))
    \<and> pa_listeners pa = dom (pa_allocated pa) \<and> pa_sockets pa = dom (pa_allocated pa)
    \<and> (\<forall>order s. distinct order \<and> set order = dom (pa_allocated pa) \<longrightarrow> returns (DeallocateService order s pa))"
proof -
  from porting.reach_inv [OF assms] have ok: "ports_ok pa" .
  then have t: "tables_ok pa" and s: "pa_sockets pa = pa_listeners pa" by (simp_all add: ports_ok_def)
  have "\<forall>p a. pa_allocated pa p = Some a \<longrightarrow> p \<in> owned (pa_heap pa a) \<and> (\<forall>q \<in> owned (pa_heap pa a). pa_allocated pa q = Some a)"
    using allocatedD(2,3) [OF t] by blast
  moreover have "pa_listeners pa = dom (pa_allocated pa)" using tables_listeners [OF t] by blast
  moreover have "returns (DeallocateService order s pa)" if "distinct order" "set order = dom (pa_allocated pa)" for order s
    using DeallocateService_frees [OF ok that] by simp
  ultimately show ?thesis unfolding s by blast
qed

text \<open>\<open>AllocateRTPRTCPPair\<close> either changes nothing and fails, or gives the service two different ports
  that were free and leaves every other port as it was. With the adjacent policy it takes the first
  free pair of the range, and fails exactly when there is none.\<close>

theorem pair_allocation:
  assumes "reach ports_start port_step pa"
  shows "((\<exists>e. AllocateRTPRTCPPair probe bindable now s t pa = (Inl e, pa))
      \<or> (\<exists>a pa'. AllocateRTPRTCPPair probe bindable now s t pa = (Inr a, pa') \<and> grants pa s t a pa'
           \<and> al_RTCPPort (pa_heap pa' a) \<noteq> al_RTPPort (pa_heap pa' a) \<and> 0 < al_RTCPPort (pa_heap pa' a)))
    \<and> (pc_RTCPPolicy (pa_config pa) = ''adjacent'' \<longrightarrow>
       (let r = pc_RTPPortRange (pa_config pa)
        in case List.find (pair_free probe bindable pa) (ports_below (pr_Start r) (pr_End r) (pr_Step r)) of
             None \<Rightarrow> AllocateRTPRTCPPair probe bindable now s t pa = (Inl (NoAdjacentPairs (pr_Start r) (pr_End r)), pa)
           | Some p \<Rightarrow> \<exists>a pa'. AllocateRTPRTCPPair probe bindable now s t pa = (Inr a, pa')
               \<and> al_RTPPort (pa_heap pa' a) = p \<and> al_RTCPPort (pa_heap pa' a) = p + 1))"
    (is "?fresh \<and> (_ \<longrightarrow> ?first)")
proof -
  from porting.reach_inv [OF assms] have ok: "ports_ok pa" .
  obtain res pa' where r: "AllocateRTPRTCPPair probe bindable now s t pa = (res, pa')" by fastforce
  from AllocateRTPRTCPPair_cases [OF ok r] r have "?fresh" by (cases res) auto
  moreover have "?first" if pol: "pc_RTCPPolicy (pa_config pa) = ''adjacent''"
  proof -
    from pol r have a: "allocateAdjacentPair probe bindable now s t pa = (res, pa')" by (simp add: AllocateRTPRTCPPair_def)
    show ?thesis
    proof (cases res)
      case (Inl e)
      with allocateAdjacentPair_cases [OF ok a] a r show ?thesis
        by (simp add: Let_def) (simp add: allocateAdjacentPair_def adjacent_loop_finds Let_def)
    next
      case (Inr b)
      with allocateAdjacentPair_cases [OF ok a] r show ?thesis by (simp add: Let_def)
    qed
  qed
  ultimately show ?thesis by blast
qed

text \<open>Allocating a pair and deallocating either of its ports gives back the tables as they were;
  deallocating a service frees exactly the ports of its allocations, in whatever order the loop over
  the table runs.\<close>

theorem deallocation_exact:
  assumes "reach ports_start port_step pa"
  shows "(\<forall>a pa' p. AllocateRTPRTCPPair probe bindable now s t pa = (Inr a, pa') \<and> p \<in> owned (pa_heap pa' a) \<longrightarrow>
      (\<exists>pa''. DeallocatePort p pa' = (None, pa'') \<and> pa_allocated pa'' = pa_allocated pa
         \<and> pa_listeners pa'' = pa_listeners pa \<and> pa_sockets pa'' = pa_sockets pa))
    \<and> (distinct order \<and> set order = dom (pa_allocated pa) \<longrightarrow>
      (\<exists>pa'. DeallocateService order s pa = Returns pa'
         \<and> (\<forall>p. pa_allocated pa' p = (if held_by (\<lambda>al. al_ServiceName al = s) pa p then None else pa_allocated pa p))
         \<and> pa_sockets pa' = dom (pa_allocated pa')))"
proof (intro conjI allI impI, elim conjE)
  from porting.reach_inv [OF assms] have ok: "ports_ok pa" .
  then have l: "pa_listeners pa = dom (pa_allocated pa)" "pa_sockets pa = pa_listeners pa"
    using tables_listeners by (auto simp: ports_ok_def)
  {
    fix a pa' p
    assume "AllocateRTPRTCPPair probe bindable now s t pa = (Inr a, pa')" and p: "p \<in> owned (pa_heap pa' a)"
    then have g: "grants pa s t a pa'" using AllocateRTPRTCPPair_cases [OF ok] by fastforce
    let ?o = "owned (pa_heap pa' a)"
    from g have ok': "ports_ok pa'" and fresh: "?o \<inter> dom (pa_allocated pa) = {}"
      and al: "pa_allocated pa' = (\<lambda>q. if q \<in> ?o then Some a else pa_allocated pa q)" by (auto simp: grants_def)
    then have l': "pa_listeners pa' = dom (pa_allocated pa')" "pa_sockets pa' = pa_listeners pa'"
      using tables_listeners by (auto simp: ports_ok_def)
    have d: "dom (pa_allocated pa') = dom (pa_allocated pa) \<union> ?o" by (auto simp: al dom_def split: if_splits)
    from al p have "pa_allocated pa' p = Some a" by simp
    then have "DeallocatePort p pa' = (None, free_ports ?o pa')" by (rule DeallocatePort_frees [OF ok'])
    moreover have "pa_allocated pa q = None" if "q \<in> ?o" for q using fresh that by blast
    then have "pa_allocated (free_ports ?o pa') = pa_allocated pa" by (simp add: fun_eq_iff al)
    moreover have "pa_listeners pa' - ?o = pa_listeners pa" unfolding l' l d using fresh by blast
    ultimately show "\<exists>pa''. DeallocatePort p pa' = (None, pa'') \<and> pa_allocated pa'' = pa_allocated pa
         \<and> pa_listeners pa'' = pa_listeners pa \<and> pa_sockets pa'' = pa_sockets pa"
      using l l' by (intro exI [of _ "free_ports ?o pa'"]) simp
  next
    assume "distinct order \<and> set order = dom (pa_allocated pa)"
    with DeallocateService_frees [OF ok, of order s] l show "\<exists>pa'. DeallocateService order s pa = Returns pa'
         \<and> (\<forall>p. pa_allocated pa' p = (if held_by (\<lambda>al. al_ServiceName al = s) pa p then None else pa_allocated pa p))
         \<and> pa_sockets pa' = dom (pa_allocated pa')"
      by (auto simp: dom_def)
  }
qed

text \<open>C36: the periodic cleanup frees exactly the unused, expired single ports, but it panics as soon as an
  unused, expired RTP/RTCP pair is among them: the first port's turn removes both ports, and the second
  port's turn dereferences a nil allocation.\<close>

theorem cleanup_panics_on_pairs:
  assumes "reach ports_start port_step pa" and "distinct order" and "set order = dom (pa_allocated pa)"
  shows "cleanupExpiredAllocations order now pa =
    (if \<exists>p a. pa_allocated pa p = Some a \<and> expired now (pa_heap pa a) \<and> owned (pa_heap pa a) \<noteq> {p}
     then Panics nil_dereference else Returns (free_ports {p. held_by (expired now) pa p} pa))"
  using porting.reach_inv [OF assms(1)] assms(2,3) by (rule cleanup_cases)

subsection \<open>Examples\<close>

definition ex_ports :: PortConfig where
  "ex_ports = \<lparr>pc_RTPPortRange = \<lparr>pr_Start = 10000, pr_End = 10006, pr_Step = 2\<rparr>,
     pc_RTCPPortRange = \<lparr>pr_Start = 20001, pr_End = 20003, pr_Step = 1\<rparr>, pc_AllocationTTL = 0, pc_RTCPPolicy = [],
     pc_CleanupInterval = 0\<rparr>"

text \<open>Port 10001 is taken by another program, so the first pair is 10002 and 10003.\<close>

definition ex_bindable :: ports where
  "ex_bindable p \<longleftrightarrow> p \<noteq> 10001"

definition ex_granted :: PortAllocator where
  "ex_granted = snd (AllocateRTPRTCPPair ex_bindable ex_bindable 5 ''call'' 0 (NewPortAllocator ex_ports))"

lemmas ex_port_simps = ex_ports_def NewPortAllocator_def with_defaults_def AllocateRTPRTCPPair_def allocateAdjacentPair_def
  ports_below.simps isPortAvailable_def ListenPacket_def ex_bindable_def close_socket_def install_def webrtc_allocation_def Let_def
  seconds_def DefaultPortAllocationTTL_def DefaultCleanupInterval_def

lemma ex_pair: "AllocateRTPRTCPPair ex_bindable ex_bindable 5 ''call'' 0 (NewPortAllocator ex_ports) = (Inr 0, ex_granted)"
  unfolding ex_granted_def by (simp add: ex_port_simps)

lemma ex_granted_simps:
  "pa_allocated ex_granted = (\<lambda>p. if p \<in> {10002, 10003} then Some 0 else None)"
  "al_RTPPort (pa_heap ex_granted 0) = 10002" "al_RTCPPort (pa_heap ex_granted 0) = 10003"
  "al_ServiceName (pa_heap ex_granted 0) = ''call''" "al_ExpiresAt (pa_heap ex_granted 0) = 300000000005"
  by (simp_all add: ex_granted_def ex_port_simps fun_eq_iff)

lemma ex_new_reached: "reach ports_start port_step (NewPortAllocator ex_ports)"
proof (rule reach_start)
  have "ranges_ok ex_ports" by (simp add: ranges_ok_def ex_ports_def)
  then show "ports_start (NewPortAllocator ex_ports)" unfolding ports_start_def by blast
qed

lemma ex_granted_reached: "reach ports_start port_step ex_granted"
  by (rule reach_step [OF ex_new_reached port_step.pair [OF ex_pair]])

theorem ports_consistent_witness: "pa_sockets ex_granted = {10002, 10003}"
proof -
  have "dom (pa_allocated ex_granted) = {10002, 10003}" by (auto simp: ex_granted_simps dom_def)
  with ports_consistent [OF ex_granted_reached] show ?thesis by argo
qed

theorem pair_allocation_witness:
  "\<exists>a pa'. AllocateRTPRTCPPair ex_bindable ex_bindable 5 ''call'' 0 (NewPortAllocator ex_ports) = (Inr a, pa')
     \<and> al_RTPPort (pa_heap pa' a) = 10002 \<and> al_RTCPPort (pa_heap pa' a) = 10003"
proof -
  have "pc_RTCPPolicy (pa_config (NewPortAllocator ex_ports)) = ''adjacent''"
    "List.find (pair_free ex_bindable ex_bindable (NewPortAllocator ex_ports)) (ports_below 10000 10006 2) = Some 10002"
    "pc_RTPPortRange (pa_config (NewPortAllocator ex_ports)) = \<lparr>pr_Start = 10000, pr_End = 10006, pr_Step = 2\<rparr>"
    by (simp_all add: ex_port_simps pair_free_def)
  with pair_allocation [OF ex_new_reached, of ex_bindable ex_bindable 5 "''call''" 0] show ?thesis by (simp add: Let_def)
qed

theorem deallocation_exact_witness:
  "\<exists>pa. DeallocatePort 10003 ex_granted = (None, pa) \<and> pa_allocated pa = Map.empty"
proof -
  have "10003 \<in> owned (pa_heap ex_granted 0)" by (simp add: owned_def ex_granted_simps)
  with deallocation_exact [OF ex_new_reached, of ex_bindable ex_bindable 5 "''call''" 0 "[]"] ex_pair
  show ?thesis by (fastforce simp: NewPortAllocator_def)
qed

theorem cleanup_panics_on_pairs_witness:
  "cleanupExpiredAllocations [10003, 10002] 300000000006 (mark_unused 0 ex_granted) = Panics nil_dereference"
proof -
  let ?pa = "mark_unused 0 ex_granted"
  have r: "reach ports_start port_step ?pa" by (rule reach_step [OF ex_granted_reached port_step.unused])
  have o: "set [10003, 10002 :: int] = dom (pa_allocated ?pa)" by (auto simp: mark_unused_def ex_granted_simps dom_def)
  have "\<exists>p a. pa_allocated ?pa p = Some a \<and> expired 300000000006 (pa_heap ?pa a) \<and> owned (pa_heap ?pa a) \<noteq> {p}"
    by (intro exI [of _ 10002] exI [of _ 0]) (simp add: mark_unused_def ex_granted_simps expired_def owned_def)
  then show ?thesis using cleanup_panics_on_pairs [OF r _ o, of 300000000006] by simp
qed

end
