(* ===== verification/UdpTargets.thy ===== *)
theory UdpTargets
  imports Ports
begin

section \<open>UDP targets\<close>

text \<open>
  Models \<open>internal/server/udp_target.go\<close>: the record of a target, creating, starting and stopping it,
  forwarding a packet to it, and its health check. Address resolution and the outcomes of socket
  operations are arguments. The second part interleaves the health-check goroutine with \<open>Stop\<close>, which
  waits for that goroutine while it holds the target's mutex.
\<close>

record UDPTarget =
  ut_url :: string
  ut_addr :: string
  ut_conn :: bool
  ut_healthy :: bool
  ut_stop :: bool
  ut_stopped :: bool

text \<open>\<open>ut_conn\<close> says that the target has a connection; \<open>ut_stop\<close> and \<open>ut_stopped\<close> that the channels of its
  health check are closed.\<close>

definition NewUDPTarget :: "(string \<rightharpoonup> string) \<Rightarrow> string \<Rightarrow> udp_error + UDPTarget" where
  "NewUDPTarget resolve targetURL =
     (case resolve targetURL of
        None \<Rightarrow> Inl (ResolveFailed targetURL)
      | Some addr \<Rightarrow> Inr \<lparr>ut_url = targetURL, ut_addr = addr, ut_conn = False, ut_healthy = False,
                           ut_stop = False, ut_stopped = False\<rparr>)"

definition UDPTarget_Start :: "bool \<Rightarrow> UDPTarget \<Rightarrow> udp_error option \<times> UDPTarget" where
  "UDPTarget_Start listens t =
     (if listens then (None, t\<lparr>ut_conn := True\<rparr>) else (Some (ConnectionFailed (ut_url t)), t))"

text \<open>\<open>Stop\<close> of a target whose health check is waiting for its next round.\<close>

definition UDPTarget_Stop :: "UDPTarget \<Rightarrow> UDPTarget outcome" where
  "UDPTarget_Stop t =
     (if ut_stop t then Panics ''close of closed channel''
      else Returns (t\<lparr>ut_conn := False, ut_stop := True, ut_stopped := True\<rparr>))"

definition ForwardPacket :: "bool \<Rightarrow> UDPTarget \<Rightarrow> udp_error option" where
  "ForwardPacket written t =
     (if \<not> ut_healthy t then Some (TargetNotHealthy (ut_url t))
      else if \<not> ut_conn t then Some (TargetHasNoConnection (ut_url t))
      else if \<not> written then Some (ForwardFailed (ut_url t))
      else None)"

text \<open>The packet that is sent back, given what the read from the target's connection returns.\<close>

definition handleResponse :: "string \<Rightarrow> byte list option \<Rightarrow> UDPTarget \<Rightarrow> (string \<times> byte list) option" where
  "handleResponse clientAddr response t =
     (if \<not> ut_conn t then None
      else case response of None \<Rightarrow> None | Some data \<Rightarrow> Some (clientAddr, take 65536 data))"

definition performCheck :: "bool \<Rightarrow> bool \<Rightarrow> bool \<Rightarrow> bool" where
  "performCheck conn written answered \<longleftrightarrow> (if \<not> conn then False else if \<not> written then False else answered)"

definition UDPHealthCheck_check :: "bool \<Rightarrow> bool \<Rightarrow> UDPTarget \<Rightarrow> UDPTarget" where
  "UDPHealthCheck_check written answered t = t\<lparr>ut_healthy := performCheck (ut_conn t) written answered\<rparr>"

subsection \<open>The health check and Stop interleaved\<close>

text \<open>Where the health-check goroutine is: before its start, in the select statement, about to take
  the read lock in \<open>performCheck\<close>, talking to the target (no lock held, having seen whether there is a
  connection), about to take the lock to publish its result, or finished. \<open>Stop\<close> holds the mutex from
  its first statement until it returns; every other critical section is a single step.\<close>

datatype CheckPhase = Unstarted | Selecting | Reading | Probing bool | Publishing bool | Finished

datatype StopPhase = NotStopping | AwaitingStopped | StopReturned

record UdpSys =
  us_target :: UDPTarget
  us_check :: CheckPhase
  us_stopping :: StopPhase

definition mutex_free :: "UdpSys \<Rightarrow> bool" where
  "mutex_free s \<longleftrightarrow> us_stopping s \<noteq> AwaitingStopped"

inductive udp_step :: "UdpSys \<Rightarrow> UdpSys \<Rightarrow> bool" where
  started: "us_check s = Unstarted \<Longrightarrow> mutex_free s \<Longrightarrow> UDPTarget_Start True (us_target s) = (None, t) \<Longrightarrow>
    udp_step s (s\<lparr>us_target := t, us_check := Reading\<rparr>)"
| look: "us_check s = Reading \<Longrightarrow> mutex_free s \<Longrightarrow> udp_step s (s\<lparr>us_check := Probing (ut_conn (us_target s))\<rparr>)"
| probe: "us_check s = Probing conn \<Longrightarrow> udp_step s (s\<lparr>us_check := Publishing (performCheck conn written answered)\<rparr>)"
| publish: "us_check s = Publishing h \<Longrightarrow> mutex_free s \<Longrightarrow>
    udp_step s (s\<lparr>us_target := (us_target s)\<lparr>ut_healthy := h\<rparr>, us_check := Selecting\<rparr>)"
| tick: "us_check s = Selecting \<Longrightarrow> udp_step s (s\<lparr>us_check := Reading\<rparr>)"
| quit: "us_check s = Selecting \<Longrightarrow> ut_stop (us_target s) \<Longrightarrow>
    udp_step s (s\<lparr>us_target := (us_target s)\<lparr>ut_stopped := True\<rparr>, us_check := Finished\<rparr>)"
| stop_begin: "us_stopping s = NotStopping \<Longrightarrow> \<not> ut_stop (us_target s) \<Longrightarrow>
    udp_step s (s\<lparr>us_target := (us_target s)\<lparr>ut_conn := False, ut_stop := True\<rparr>, us_stopping := AwaitingStopped\<rparr>)"
| stop_end: "us_stopping s = AwaitingStopped \<Longrightarrow> ut_stopped (us_target s) \<Longrightarrow>
    udp_step s (s\<lparr>us_stopping := StopReturned\<rparr>)"

inductive_cases udp_stepE: "udp_step s s'"

definition udp_start :: "UdpSys \<Rightarrow> bool" where
  "udp_start s \<longleftrightarrow> us_check s = Unstarted \<and> us_stopping s = NotStopping
     \<and> \<not> ut_stop (us_target s) \<and> \<not> ut_stopped (us_target s)"

text \<open>The goroutine has finished exactly when it has closed the channel that \<open>Stop\<close> waits for.\<close>

definition udp_inv :: "UdpSys \<Rightarrow> bool" where
  "udp_inv s \<longleftrightarrow> (ut_stopped (us_target s) \<longleftrightarrow> us_check s = Finished)
     \<and> (us_stopping s = NotStopping \<longleftrightarrow> \<not> ut_stop (us_target s))
     \<and> (us_stopping s = StopReturned \<longrightarrow> us_check s = Finished)"

lemma udp_start_inv: "udp_start s \<Longrightarrow> udp_inv s"
  by (simp add: udp_start_def udp_inv_def)

lemma udp_step_inv: "udp_inv s \<Longrightarrow> udp_step s s' \<Longrightarrow> udp_inv s'"
  by (erule udp_stepE) (auto simp: udp_inv_def mutex_free_def UDPTarget_Start_def)

interpretation stopping: kept_invariant udp_start udp_step udp_inv
  by unfold_locales (auto intro: udp_start_inv udp_step_inv)

text \<open>A \<open>Stop\<close> that found the goroutine inside a check.\<close>

definition wedged :: "UdpSys \<Rightarrow> bool" where
  "wedged s \<longleftrightarrow> us_stopping s = AwaitingStopped \<and> us_check s \<notin> {Selecting, Finished} \<and> \<not> ut_stopped (us_target s)"

lemma wedged_step: "wedged s \<Longrightarrow> udp_step s s' \<Longrightarrow> wedged s'"
  by (erule udp_stepE) (auto simp: wedged_def mutex_free_def)

lemma wedged_forever: "udp_step\<^sup>*\<^sup>* s s' \<Longrightarrow> wedged s \<Longrightarrow> wedged s'"
  by (induction rule: rtranclp_induct) (auto intro: wedged_step)

lemma udp_steps2: "udp_step a b \<Longrightarrow> udp_step b c \<Longrightarrow> udp_step\<^sup>*\<^sup>* a c"
  by (simp add: rtranclp.rtrancl_into_rtrancl)

lemma udp_steps3: "udp_step a b \<Longrightarrow> udp_step b c \<Longrightarrow> udp_step c d \<Longrightarrow> udp_step\<^sup>*\<^sup>* a d"
  by (simp add: rtranclp.rtrancl_into_rtrancl)

lemma stop_from_select:
  assumes "us_check s = Selecting" "us_stopping s = NotStopping" "UDPTarget_Stop (us_target s) = Returns t"
  shows "\<exists>s'. udp_step\<^sup>*\<^sup>* s s' \<and> us_stopping s' = StopReturned \<and> us_target s' = t"
proof -
  from assms(3) have t: "\<not> ut_stop (us_target s)" "t = (us_target s)\<lparr>ut_conn := False, ut_stop := True, ut_stopped := True\<rparr>"
    by (auto simp: UDPTarget_Stop_def split: if_splits)
  let ?s1 = "s\<lparr>us_target := (us_target s)\<lparr>ut_conn := False, ut_stop := True\<rparr>, us_stopping := AwaitingStopped\<rparr>"
  let ?s2 = "?s1\<lparr>us_target := (us_target ?s1)\<lparr>ut_stopped := True\<rparr>, us_check := Finished\<rparr>"
  have a: "udp_step s ?s1" using assms t by (intro stop_begin) simp_all
  have b: "udp_step ?s1 ?s2" using assms by (intro quit) simp_all
  have c: "udp_step ?s2 (?s2\<lparr>us_stopping := StopReturned\<rparr>)" by (intro stop_end) simp_all
  note udp_steps3 [OF a b c]
  then show ?thesis using t(2) by (intro exI [of _ "?s2\<lparr>us_stopping := StopReturned\<rparr>"]) simp
qed

text \<open>C35: stopping a target can wedge it for good. When \<open>Stop\<close> finds the health check between rounds, it
  can return, with the effect of the sequential definition. But while a check is running, \<open>Stop\<close> takes
  the mutex that the check needs to publish its result and waits for the check: such a state is
  reachable from every new target, and from it \<open>Stop\<close> never returns.\<close>

theorem udp_stop_wedges:
  "(us_check s = Selecting \<and> us_stopping s = NotStopping \<and> UDPTarget_Stop (us_target s) = Returns t \<longrightarrow>
      (\<exists>s'. udp_step\<^sup>*\<^sup>* s s' \<and> us_stopping s' = StopReturned \<and> us_target s' = t))
   \<and> (udp_start s0 \<longrightarrow> (\<exists>s1. udp_step\<^sup>*\<^sup>* s0 s1 \<and> us_stopping s1 = AwaitingStopped
        \<and> (\<forall>s2. udp_step\<^sup>*\<^sup>* s1 s2 \<longrightarrow> us_stopping s2 = AwaitingStopped)))"
proof (intro conjI impI)
  assume "us_check s = Selecting \<and> us_stopping s = NotStopping \<and> UDPTarget_Stop (us_target s) = Returns t"
  then show "\<exists>s'. udp_step\<^sup>*\<^sup>* s s' \<and> us_stopping s' = StopReturned \<and> us_target s' = t"
    using stop_from_select by blast
next
  assume s0: "udp_start s0"
  let ?t = "(us_target s0)\<lparr>ut_conn := True\<rparr>"
  let ?a = "s0\<lparr>us_target := ?t, us_check := Reading\<rparr>"
  let ?w = "?a\<lparr>us_target := (us_target ?a)\<lparr>ut_conn := False, ut_stop := True\<rparr>, us_stopping := AwaitingStopped\<rparr>"
  have a: "udp_step s0 ?a" using s0 by (intro started) (simp_all add: udp_start_def mutex_free_def UDPTarget_Start_def)
  have b: "udp_step ?a ?w" using s0 by (intro stop_begin) (simp_all add: udp_start_def)
  note udp_steps2 [OF a b]
  moreover have "wedged ?w" using s0 by (simp add: wedged_def udp_start_def)
  then have "\<forall>s2. udp_step\<^sup>*\<^sup>* ?w s2 \<longrightarrow> us_stopping s2 = AwaitingStopped"
    using wedged_forever by (auto simp: wedged_def)
  ultimately show "\<exists>s1. udp_step\<^sup>*\<^sup>* s0 s1 \<and> us_stopping s1 = AwaitingStopped
        \<and> (\<forall>s2. udp_step\<^sup>*\<^sup>* s1 s2 \<longrightarrow> us_stopping s2 = AwaitingStopped)"
    by (intro exI [of _ ?w]) simp
qed

definition ex_udp :: UDPTarget where
  "ex_udp = \<lparr>ut_url = ''10.0.0.1:5000'', ut_addr = ''10.0.0.1:5000'', ut_conn = False, ut_healthy = False,
     ut_stop = False, ut_stopped = False\<rparr>"

theorem udp_stop_wedges_witness:
  "\<exists>s1. udp_step\<^sup>*\<^sup>* \<lparr>us_target = ex_udp, us_check = Unstarted, us_stopping = NotStopping\<rparr> s1
     \<and> us_stopping s1 = AwaitingStopped"
  using udp_stop_wedges [of undefined undefined "\<lparr>us_target = ex_udp, us_check = Unstarted, us_stopping = NotStopping\<rparr>"]
  by (auto simp: udp_start_def ex_udp_def)

end
