(* ===== verification/Md5.thy ===== *)
theory Md5
  imports Prelude "HOL-Library.Word"
begin

section \<open>MD5\<close>

text \<open>
  \<open>md5.Sum\<close> of the Go standard library, which the session manager uses for session ids and for
  choosing a target: padding to blocks of 64 bytes, 64 rounds over 32-bit words for each block, and
  the digest as 16 bytes. The theorems about sessions do not depend on how the digest is computed;
  the examples evaluate nothing of it.
\<close>

unbundle bit_operations_syntax

definition md5_shifts :: "nat list" where
  "md5_shifts = [7, 12, 17, 22, 7, 12, 17, 22, 7, 12, 17, 22, 7, 12, 17, 22, 5, 9, 14, 20, 5, 9, 14, 20, 5, 9, 14, 20, 5, 9, 14, 20, 4, 11, 16, 23, 4, 11, 16, 23, 4, 11, 16, 23, 4, 11, 16, 23, 6, 10, 15, 21, 6, 10, 15, 21, 6, 10, 15, 21, 6, 10, 15, 21]"

definition md5_table :: "32 word list" where
  "md5_table =
    [0xd76aa478, 0xe8c7b756, 0x242070db, 0xc1bdceee, 0xf57c0faf, 0x4787c62a, 0xa8304613, 0xfd469501,
     0x698098d8, 0x8b44f7af, 0xffff5bb1, 0x895cd7be, 0x6b901122, 0xfd987193, 0xa679438e, 0x49b40821,
     0xf61e2562, 0xc040b340, 0x265e5a51, 0xe9b6c7aa, 0xd62f105d, 0x02441453, 0xd8a1e681, 0xe7d3fbc8,
     0x21e1cde6, 0xc33707d6, 0xf4d50d87, 0x455a14ed, 0xa9e3e905, 0xfcefa3f8, 0x676f02d9, 0x8d2a4c8a,
     0xfffa3942, 0x8771f681, 0x6d9d6122, 0xfde5380c, 0xa4beea44, 0x4bdecfa9, 0xf6bb4b60, 0xbebfbc70,
     0x289b7ec6, 0xeaa127fa, 0xd4ef3085, 0x04881d05, 0xd9d4d039, 0xe6db99e5, 0x1fa27cf8, 0xc4ac5665,
     0xf4292244, 0x432aff97, 0xab9423a7, 0xfc93a039, 0x655b59c3, 0x8f0ccc92, 0xffeff47d, 0x85845dd1,
     0x6fa87e4f, 0xfe2ce6e0, 0xa3014314, 0x4e0811a1, 0xf7537e82, 0xbd3af235, 0x2ad7d2bb, 0xeb86d391]"

type_synonym md5_state = "32 word \<times> 32 word \<times> 32 word \<times> 32 word"

definition md5_init :: md5_state where
  "md5_init = (0x67452301, 0xefcdab89, 0x98badcfe, 0x10325476)"

definition md5_mix :: "nat \<Rightarrow> 32 word \<Rightarrow> 32 word \<Rightarrow> 32 word \<Rightarrow> 32 word \<times> nat" where
  "md5_mix i b c d =
     (if i < 16 then ((b AND c) OR (NOT b AND d), i)
      else if i < 32 then ((d AND b) OR (NOT d AND c), (5 * i + 1) mod 16)
      else if i < 48 then (b XOR c XOR d, (3 * i + 5) mod 16)
      else (c XOR (b OR NOT d), (7 * i) mod 16))"

definition md5_round :: "32 word list \<Rightarrow> md5_state \<Rightarrow> nat \<Rightarrow> md5_state" where
  "md5_round block = (\<lambda>(a, b, c, d) i.
     let (f, g) = md5_mix i b c d
     in (d, b + word_rotl (md5_shifts ! i) (f + a + md5_table ! i + block ! g), b, c))"

definition md5_block :: "md5_state \<Rightarrow> 32 word list \<Rightarrow> md5_state" where
  "md5_block = (\<lambda>(a, b, c, d) block.
     let (a', b', c', d') = foldl (md5_round block) (a, b, c, d) [0..<64]
     in (a + a', b + b', c + c', d + d'))"

text \<open>Little-endian words and the padded message.\<close>

fun word_bytes :: "nat \<Rightarrow> nat \<Rightarrow> byte list" where
  "word_bytes 0 v = []"
| "word_bytes (Suc n) v = char_of (v mod 256) # word_bytes n (v div 256)"

fun bytes_value :: "byte list \<Rightarrow> nat" where
  "bytes_value [] = 0"
| "bytes_value (c # cs) = of_char c + 256 * bytes_value cs"

fun chunks :: "nat \<Rightarrow> 'a list \<Rightarrow> 'a list list" where
  "chunks n [] = []"
| "chunks n (x # xs) = (if n = 0 then [x # xs] else take n (x # xs) # chunks n (drop (n - 1) xs))"

definition md5_pad :: "string \<Rightarrow> byte list" where
  "md5_pad data =
     data @ [char_of (128 :: nat)] @ replicate ((119 - length data mod 64) mod 64) (char_of (0 :: nat))
       @ word_bytes 8 (8 * length data)"

definition md5_Sum :: "string \<Rightarrow> byte list" where
  "md5_Sum data =
     (let words = map (\<lambda>block. map (\<lambda>w. of_nat (bytes_value w)) (chunks 4 block)) (chunks 64 (md5_pad data));
          (a, b, c, d) = foldl md5_block md5_init words
      in concat (map (\<lambda>w. word_bytes 4 (unat w)) [a, b, c, d]))"

lemma length_word_bytes [simp]: "length (word_bytes n v) = n"
  by (induction n arbitrary: v) simp_all

lemma length_md5_Sum [simp]: "length (md5_Sum data) = 16"
  by (simp add: md5_Sum_def Let_def split: prod.split)

lemma md5_pad_blocks: "length (md5_pad data) mod 64 = 0"
proof -
  define r where "r = length data mod 64"
  then have r: "r < 64" by simp
  have "(119 - r) mod 64 = (if r \<le> 55 then 55 - r else 119 - r)"
    using r by (auto simp: mod_if)
  then have "(r + ((119 - r) mod 64 + 9)) mod 64 = 0" using r by auto
  then have "(length data + ((119 - r) mod 64 + 9)) mod 64 = 0"
    unfolding r_def by (simp only: mod_add_left_eq)
  then show ?thesis by (simp add: md5_pad_def r_def ac_simps)
qed

text \<open>\<open>fmt\<close>'s verb \<open>%x\<close> on bytes.\<close>

definition hex_digit :: "nat \<Rightarrow> byte" where
  "hex_digit n = ''0123456789abcdef'' ! n"

definition hex :: "byte list \<Rightarrow> string" where
  "hex bs = concat (map (\<lambda>b. let n = of_char b :: nat in [hex_digit (n div 16), hex_digit (n mod 16)]) bs)"

lemma length_hex [simp]: "length (hex bs) = 2 * length bs"
  by (induction bs) (simp_all add: hex_def Let_def)

end
