(* ===== verification/Sessions.thy ===== *)
theory Sessions
  imports UdpTargets Strconv Md5
begin

section \<open>UDP sessions\<close>

text \<open>
  Models \<open>internal/server/session_manager.go\<close>: the table of client sessions that keeps the packets of
  a flow on one target, draining and expiry of sessions, and their persistence. Targets are addresses
  into a heap of targets (\<^typ>\<open>nat \<Rightarrow> UDPTarget\<close>), which is an argument because other goroutines change it.
  The saves and deletions that the code starts with \<open>go\<close> are queued in \<open>sn_pending\<close> and carried out
  later, in any order. A loop over the table visits its keys in an order that is an argument.
\<close>

subsection \<open>Data\<close>

record SessionConfig =
  sc_IdleTimeout :: duration
  sc_CleanupInterval :: duration
  sc_StickinessEnabled :: bool
  sc_StickinessStrategy :: string
  sc_MaxSessions :: int
  sc_PersistenceEnabled :: bool
  sc_StorePath :: string

record FiveTuple =
  ft_SrcIP :: string
  ft_SrcPort :: int
  ft_DstIP :: string
  ft_DstPort :: int
  ft_Protocol :: string

datatype SessionState = SessionStateActive | SessionStateDraining | SessionStateExpired

datatype MetaValue = MetaTime instant | MetaText string

record UDPSession =
  se_ID :: string
  se_FiveTuple :: FiveTuple
  se_Target :: "nat option"
  se_TargetURL :: string
  se_ServiceName :: string
  se_CreatedAt :: instant
  se_LastSeen :: instant
  se_State :: SessionState
  se_Protocol :: string
  se_Metadata :: "string \<rightharpoonup> MetaValue"

record SessionDrainPolicy =
  dp_Strategy :: string
  dp_GracePeriod :: duration
  dp_MaxWaitTime :: duration
  dp_NotifyClients :: bool

type_synonym FileSessionStore = "string \<rightharpoonup> UDPSession"

datatype StoreAction = SaveAction UDPSession | DeleteAction string

record SessionManager =
  sn_sessions :: "string \<rightharpoonup> UDPSession"
  sn_store :: "FileSessionStore option"
  sn_config :: SessionConfig
  sn_pending :: "StoreAction list"
  sn_shutdown :: bool

definition SessionState_String :: "SessionState \<Rightarrow> string" where
  "SessionState_String s = (case s of
       SessionStateActive \<Rightarrow> ''active'' | SessionStateDraining \<Rightarrow> ''draining'' | SessionStateExpired \<Rightarrow> ''expired'')"

definition FiveTuple_String :: "FiveTuple \<Rightarrow> string" where
  "FiveTuple_String ft = ft_SrcIP ft @ '':'' @ FormatInt (ft_SrcPort ft) @ ''->'' @ ft_DstIP ft @ '':''
     @ FormatInt (ft_DstPort ft) @ ''/'' @ ft_Protocol ft"

definition FiveTuple_Hash :: "FiveTuple \<Rightarrow> string" where
  "FiveTuple_Hash ft =
     (let data = ft_SrcIP ft @ '':'' @ FormatInt (ft_SrcPort ft) @ '':'' @ ft_DstIP ft @ '':''
            @ FormatInt (ft_DstPort ft) @ '':'' @ ft_Protocol ft
      in hex (take 8 (md5_Sum data)))"

subsection \<open>The file store\<close>

text \<open>A stored session is what JSON encoding keeps of it: everything but the pointer to the target.\<close>

definition json_session :: "UDPSession \<Rightarrow> UDPSession" where
  "json_session s = s\<lparr>se_Target := None\<rparr>"

definition SaveSession :: "UDPSession \<Rightarrow> FileSessionStore \<Rightarrow> FileSessionStore" where
  "SaveSession session fs = fs(se_ID session \<mapsto> json_session session)"

definition DeleteSession :: "string \<Rightarrow> FileSessionStore \<Rightarrow> FileSessionStore" where
  "DeleteSession sessionID fs = fs(sessionID := None)"

definition LoadSessions :: "string list \<Rightarrow> FileSessionStore \<Rightarrow> UDPSession list" where
  "LoadSessions files fs = List.map_filter fs files"

fun run_action :: "StoreAction \<Rightarrow> FileSessionStore \<Rightarrow> FileSessionStore" where
  "run_action (SaveAction s) = SaveSession s"
| "run_action (DeleteAction i) = DeleteSession i"

text \<open>One of the queued goroutines runs.\<close>

definition run_pending :: "nat \<Rightarrow> SessionManager \<Rightarrow> SessionManager" where
  "run_pending k sm =
     (if k < length (sn_pending sm)
      then sm\<lparr>sn_store := map_option (run_action (sn_pending sm ! k)) (sn_store sm),
              sn_pending := take k (sn_pending sm) @ drop (Suc k) (sn_pending sm)\<rparr>
      else sm)"

definition persists :: "SessionManager \<Rightarrow> bool" where
  "persists sm \<longleftrightarrow> sc_PersistenceEnabled (sn_config sm) \<and> sn_store sm \<noteq> None"

definition queue_actions :: "StoreAction list \<Rightarrow> SessionManager \<Rightarrow> SessionManager" where
  "queue_actions as sm = (if persists sm then sm\<lparr>sn_pending := sn_pending sm @ as\<rparr> else sm)"

subsection \<open>Routing packets\<close>

definition generateSessionID :: "SessionConfig \<Rightarrow> FiveTuple \<Rightarrow> string" where
  "generateSessionID config ft =
     (if sc_StickinessStrategy config = ''source-ip'' then ''ip-'' @ hex (take 8 (md5_Sum (ft_SrcIP ft)))
      else if sc_StickinessStrategy config = ''source-port'' then
        ''port-'' @ hex (take 8 (md5_Sum (ft_SrcIP ft @ '':'' @ FormatInt (ft_SrcPort ft))))
      else ''5tuple-'' @ FiveTuple_Hash ft)"

definition selectTarget :: "SessionConfig \<Rightarrow> (nat \<Rightarrow> UDPTarget) \<Rightarrow> FiveTuple \<Rightarrow> nat list \<Rightarrow> nat option" where
  "selectTarget config T ft targets =
     (if length targets = 0 then None
      else (let healthyTargets = filter (\<lambda>t. ut_healthy (T t)) targets
            in if length healthyTargets = 0 then None
               else if sc_StickinessEnabled config then
                 (let hash = md5_Sum (generateSessionID config ft);
                      index = of_char (hash ! 0) mod length healthyTargets
                  in Some (healthyTargets ! index))
               else Some (healthyTargets ! 0)))"

definition detectProtocol :: "byte list \<Rightarrow> string" where
  "detectProtocol data =
     (let byte_at = (\<lambda>i. of_char (data ! i) :: nat)
      in if length data = 0 then ''udp''
         else if 12 \<le> length data \<and> byte_at 0 div 64 = 2 then ''rtp''
         else if 8 \<le> length data \<and> byte_at 0 div 64 = 2 \<and> 200 \<le> byte_at 1 \<and> byte_at 1 \<le> 204 then ''rtcp''
         else ''udp'')"

definition flow :: "string \<times> int \<Rightarrow> int \<Rightarrow> FiveTuple" where
  "flow addr dstPort = \<lparr>ft_SrcIP = fst addr, ft_SrcPort = snd addr, ft_DstIP = ''0.0.0.0'', ft_DstPort = dstPort,
     ft_Protocol = ''udp''\<rparr>"

definition new_session :: "instant \<Rightarrow> string \<Rightarrow> FiveTuple \<Rightarrow> string \<Rightarrow> UDPSession" where
  "new_session now sessionID ft serviceName =
     \<lparr>se_ID = sessionID, se_FiveTuple = ft, se_Target = None, se_TargetURL = [], se_ServiceName = serviceName,
      se_CreatedAt = now, se_LastSeen = 0, se_State = SessionStateActive, se_Protocol = detectProtocol [],
      se_Metadata = Map.empty\<rparr>"

definition put_session :: "string \<Rightarrow> UDPSession \<Rightarrow> SessionManager \<Rightarrow> SessionManager" where
  "put_session sessionID s sm = sm\<lparr>sn_sessions := (sn_sessions sm)(sessionID \<mapsto> s)\<rparr>"

type_synonym routed = "(udp_error + nat \<times> string) \<times> SessionManager"

text \<open>The second half of \<open>RoutePacket\<close>: a new target for a new or an existing session.\<close>

definition route_anew ::
  "instant \<Rightarrow> (nat \<Rightarrow> UDPTarget) \<Rightarrow> string \<Rightarrow> FiveTuple \<Rightarrow> string \<Rightarrow> nat list \<Rightarrow> UDPSession option \<Rightarrow> SessionManager \<Rightarrow> routed" where
  "route_anew now T sessionID ft serviceName targets session sm =
     (case selectTarget (sn_config sm) T ft targets of
        None \<Rightarrow> (Inl (NoHealthyTargetsFor serviceName), sm)
      | Some target \<Rightarrow>
          (let s = (case session of None \<Rightarrow> new_session now sessionID ft serviceName | Some s \<Rightarrow> s);
               s' = s\<lparr>se_Target := Some target, se_TargetURL := ut_url (T target), se_LastSeen := now\<rparr>
           in (Inr (target, sessionID), queue_actions [SaveAction s'] (put_session sessionID s' sm))))"

definition RoutePacket ::
  "instant \<Rightarrow> (nat \<Rightarrow> UDPTarget) \<Rightarrow> string \<times> int \<Rightarrow> int \<Rightarrow> string \<Rightarrow> nat list \<Rightarrow> SessionManager \<Rightarrow> routed" where
  "RoutePacket now T addr dstPort serviceName targets sm =
     (let ft = flow addr dstPort; sessionID = generateSessionID (sn_config sm) ft
      in case sn_sessions sm sessionID of
           None \<Rightarrow> route_anew now T sessionID ft serviceName targets None sm
         | Some s \<Rightarrow>
             if se_State s = SessionStateActive then
               (let s1 = s\<lparr>se_LastSeen := now\<rparr>; sm1 = put_session sessionID s1 sm
                in case se_Target s1 of
                     None \<Rightarrow> route_anew now T sessionID ft serviceName targets (Some s1) sm1
                   | Some t \<Rightarrow>
                       if ut_healthy (T t) then (Inr (t, sessionID), sm1)
                       else route_anew now T sessionID ft serviceName targets (Some s1) sm1)
             else route_anew now T sessionID ft serviceName targets (Some s) sm)"

subsection \<open>Queries\<close>

definition GetSession :: "string \<Rightarrow> SessionManager \<Rightarrow> UDPSession option" where
  "GetSession sessionID sm = sn_sessions sm sessionID"

definition session_matches :: "(UDPSession \<Rightarrow> bool) \<Rightarrow> SessionManager \<Rightarrow> string \<Rightarrow> bool" where
  "session_matches P sm i \<longleftrightarrow> (case sn_sessions sm i of None \<Rightarrow> False | Some s \<Rightarrow> P s)"

definition is_active :: "UDPSession \<Rightarrow> bool" where
  "is_active s \<longleftrightarrow> se_State s = SessionStateActive"

definition active_on :: "string \<Rightarrow> UDPSession \<Rightarrow> bool" where
  "active_on targetURL s \<longleftrightarrow> se_TargetURL s = targetURL \<and> se_State s = SessionStateActive"

definition GetActiveSessionCount :: "string list \<Rightarrow> SessionManager \<Rightarrow> nat" where
  "GetActiveSessionCount order sm = length (filter (session_matches is_active sm) order)"

definition GetSessionsForTarget :: "string list \<Rightarrow> string \<Rightarrow> SessionManager \<Rightarrow> string list" where
  "GetSessionsForTarget order targetURL sm = filter (session_matches (active_on targetURL) sm) order"

subsection \<open>Draining\<close>

definition update_sessions :: "(UDPSession \<Rightarrow> bool) \<Rightarrow> (UDPSession \<Rightarrow> UDPSession) \<Rightarrow> SessionManager \<Rightarrow> SessionManager" where
  "update_sessions P f sm =
     sm\<lparr>sn_sessions := (\<lambda>i. map_option (\<lambda>s. if P s then f s else s) (sn_sessions sm i))\<rparr>"

definition DrainTarget :: "string \<Rightarrow> SessionManager \<Rightarrow> SessionManager" where
  "DrainTarget targetURL = update_sessions (active_on targetURL) (\<lambda>s. s\<lparr>se_State := SessionStateDraining\<rparr>)"

definition sendWebRTCBye :: "instant \<Rightarrow> UDPSession \<Rightarrow> UDPSession" where
  "sendWebRTCBye now s = s\<lparr>se_Metadata := (se_Metadata s)(''bye_sent'' \<mapsto> MetaTime now,
     ''termination_reason'' \<mapsto> MetaText ''deployment_drain'')\<rparr>"

definition drainGracefully :: "SessionConfig \<Rightarrow> SessionDrainPolicy \<Rightarrow> instant \<Rightarrow> UDPSession \<Rightarrow> UDPSession" where
  "drainGracefully config policy now s =
     (let s1 = s\<lparr>se_State := SessionStateDraining\<rparr>;
          s2 = (if se_Protocol s1 \<in> {''webrtc'', ''rtp'', ''rtcp''} \<and> dp_NotifyClients policy
                then sendWebRTCBye now s1 else s1)
      in if dp_GracePeriod policy > 0
         then s2\<lparr>se_LastSeen := now + (- sc_IdleTimeout config + dp_GracePeriod policy)\<rparr> else s2)"

definition terminateImmediately :: "UDPSession \<Rightarrow> UDPSession" where
  "terminateImmediately s = s\<lparr>se_State := SessionStateExpired\<rparr>"

definition drainWithTimeout :: "SessionConfig \<Rightarrow> SessionDrainPolicy \<Rightarrow> instant \<Rightarrow> UDPSession \<Rightarrow> UDPSession" where
  "drainWithTimeout config policy now s =
     (let s1 = s\<lparr>se_State := SessionStateDraining\<rparr>
      in if dp_MaxWaitTime policy > 0
         then s1\<lparr>se_LastSeen := now + (- sc_IdleTimeout config + dp_MaxWaitTime policy)\<rparr> else s1)"

definition DrainTargetWithPolicy :: "instant \<Rightarrow> string \<Rightarrow> SessionDrainPolicy \<Rightarrow> SessionManager \<Rightarrow> SessionManager" where
  "DrainTargetWithPolicy now targetURL policy sm =
     update_sessions (active_on targetURL)
       (if dp_Strategy policy = ''graceful'' then drainGracefully (sn_config sm) policy now
        else if dp_Strategy policy = ''immediate'' then terminateImmediately
        else if dp_Strategy policy = ''timeout'' then drainWithTimeout (sn_config sm) policy now
        else drainGracefully (sn_config sm) policy now) sm"

subsection \<open>Expiry, persistence and shutdown\<close>

definition timed_out :: "SessionConfig \<Rightarrow> instant \<Rightarrow> UDPSession \<Rightarrow> bool" where
  "timed_out config now s \<longleftrightarrow> now - se_LastSeen s > sc_IdleTimeout config"

definition expires :: "SessionConfig \<Rightarrow> instant \<Rightarrow> UDPSession \<Rightarrow> bool" where
  "expires config now s \<longleftrightarrow> se_State s = SessionStateExpired \<or> timed_out config now s"

definition cleanupExpiredSessions :: "string list \<Rightarrow> instant \<Rightarrow> SessionManager \<Rightarrow> SessionManager" where
  "cleanupExpiredSessions order now sm =
     (let gone = filter (session_matches (expires (sn_config sm) now) sm) order
      in queue_actions (map DeleteAction gone)
           (sm\<lparr>sn_sessions := (\<lambda>i. if i \<in> set gone then None else sn_sessions sm i)\<rparr>))"

definition load_one :: "instant \<Rightarrow> SessionManager \<Rightarrow> UDPSession \<Rightarrow> SessionManager" where
  "load_one now m s = (if timed_out (sn_config m) now s then m else put_session (se_ID s) s m)"

definition loadPersistedSessions :: "string list \<Rightarrow> instant \<Rightarrow> SessionManager \<Rightarrow> SessionManager" where
  "loadPersistedSessions files now sm =
     (case sn_store sm of
        None \<Rightarrow> sm
      | Some fs \<Rightarrow> foldl (load_one now) sm (LoadSessions files fs))"

definition NewSessionManager :: "string list \<Rightarrow> instant \<Rightarrow> FileSessionStore \<Rightarrow> SessionConfig \<Rightarrow> SessionManager" where
  "NewSessionManager files now fs config =
     (let sm = \<lparr>sn_sessions = Map.empty, sn_store = None, sn_config = config, sn_pending = [], sn_shutdown = False\<rparr>
      in if sc_PersistenceEnabled config then loadPersistedSessions files now (sm\<lparr>sn_store := Some fs\<rparr>) else sm)"

definition persistAllSessions :: "string list \<Rightarrow> SessionManager \<Rightarrow> SessionManager" where
  "persistAllSessions order sm =
     (case sn_store sm of
        None \<Rightarrow> sm
      | Some fs \<Rightarrow> sm\<lparr>sn_store := Some (foldl (\<lambda>f s. SaveSession s f) fs
                       (filter is_active (List.map_filter (sn_sessions sm) order)))\<rparr>)"

definition SessionManager_Stop :: "string list \<Rightarrow> SessionManager \<Rightarrow> SessionManager outcome" where
  "SessionManager_Stop order sm =
     (if sn_shutdown sm then Panics ''close of closed channel''
      else Returns (let sm1 = sm\<lparr>sn_shutdown := True\<rparr>
                    in if persists sm1 then persistAllSessions order sm1 else sm1))"

subsection \<open>What happens to a session manager\<close>

datatype SessionEvent =
    PacketFrom instant "nat \<Rightarrow> UDPTarget" "string \<times> int" int string "nat list"
  | DrainOf string
  | DrainWith instant string SessionDrainPolicy
  | CleanupAt "string list" instant
  | StoreRuns nat

fun session_event :: "SessionEvent \<Rightarrow> SessionManager \<Rightarrow> SessionManager" where
  "session_event (PacketFrom now T addr dstPort serviceName targets) sm = snd (RoutePacket now T addr dstPort serviceName targets sm)"
| "session_event (DrainOf url) sm = DrainTarget url sm"
| "session_event (DrainWith now url policy) sm = DrainTargetWithPolicy now url policy sm"
| "session_event (CleanupAt order now) sm = cleanupExpiredSessions order now sm"
| "session_event (StoreRuns k) sm = run_pending k sm"

lemma selectTarget_Some:
  "selectTarget config T ft targets = Some t \<Longrightarrow> t \<in> set targets \<and> ut_healthy (T t)"
proof -
  assume a: "selectTarget config T ft targets = Some t"
  let ?h = "filter (\<lambda>t. ut_healthy (T t)) targets"
  have "?h ! (k mod length ?h) \<in> set ?h" if "?h \<noteq> []" for k using that by (intro nth_mem) simp
  moreover have "?h ! 0 \<in> set ?h" if "?h \<noteq> []" using that by (intro nth_mem) simp
  ultimately have "t \<in> set ?h" using a unfolding selectTarget_def Let_def by (metis length_0_conv option.distinct(1) option.inject)
  then show ?thesis by simp
qed

lemma selectTarget_None: "selectTarget config T ft targets = None \<longleftrightarrow> (\<forall>t \<in> set targets. \<not> ut_healthy (T t))"
  by (auto simp: selectTarget_def Let_def filter_empty_conv)

lemma queue_fields [simp]:
  "sn_sessions (queue_actions as sm) = sn_sessions sm" "sn_config (queue_actions as sm) = sn_config sm"
  "sn_store (queue_actions as sm) = sn_store sm" "sn_shutdown (queue_actions as sm) = sn_shutdown sm"
  by (simp_all add: queue_actions_def)

lemma put_fields [simp]:
  "sn_sessions (put_session i s sm) = (sn_sessions sm)(i \<mapsto> s)" "sn_config (put_session i s sm) = sn_config sm"
  "sn_store (put_session i s sm) = sn_store sm" "sn_pending (put_session i s sm) = sn_pending sm"
  "sn_shutdown (put_session i s sm) = sn_shutdown sm"
  by (simp_all add: put_session_def)

lemma update_sessions_fields [simp]:
  "sn_config (update_sessions P f sm) = sn_config sm" "sn_store (update_sessions P f sm) = sn_store sm"
  "sn_pending (update_sessions P f sm) = sn_pending sm"
  "sn_sessions (update_sessions P f sm) i = map_option (\<lambda>s. if P s then f s else s) (sn_sessions sm i)"
  by (simp_all add: update_sessions_def)

lemma run_pending_fields [simp]:
  "sn_config (run_pending k sm) = sn_config sm" "sn_sessions (run_pending k sm) = sn_sessions sm"
  by (simp_all add: run_pending_def)

text \<open>A session that stays on its live target, whatever targets the service has now.\<close>

definition sticks :: "SessionManager \<Rightarrow> (nat \<Rightarrow> UDPTarget) \<Rightarrow> string \<Rightarrow> nat \<Rightarrow> bool" where
  "sticks sm T i t \<longleftrightarrow> (\<exists>s. sn_sessions sm i = Some s \<and> is_active s \<and> se_Target s = Some t \<and> ut_healthy (T t))"

lemma route_anew_cases:
  assumes "route_anew now T i ft svc targets s sm = (res, sm')"
  shows "(res = Inl (NoHealthyTargetsFor svc) \<and> sm' = sm \<and> (\<forall>t \<in> set targets. \<not> ut_healthy (T t)))
    \<or> (\<exists>t s'. res = Inr (t, i) \<and> t \<in> set targets \<and> ut_healthy (T t) \<and> sn_sessions sm' = (sn_sessions sm)(i \<mapsto> s')
        \<and> se_Target s' = Some t \<and> se_TargetURL s' = ut_url (T t) \<and> se_LastSeen s' = now \<and> sn_config sm' = sn_config sm
        \<and> se_State s' = (case s of None \<Rightarrow> SessionStateActive | Some s0 \<Rightarrow> se_State s0)
        \<and> se_ID s' = (case s of None \<Rightarrow> i | Some s0 \<Rightarrow> se_ID s0)
        \<and> sn_store sm' = sn_store sm)"
proof (cases "selectTarget (sn_config sm) T ft targets")
  case None
  with assms show ?thesis by (auto simp: route_anew_def selectTarget_None)
next
  case (Some t)
  define s' where "s' = (case s of None \<Rightarrow> new_session now i ft svc | Some s \<Rightarrow> s)
    \<lparr>se_Target := Some t, se_TargetURL := ut_url (T t), se_LastSeen := now\<rparr>"
  have f: "se_Target s' = Some t" "se_TargetURL s' = ut_url (T t)" "se_LastSeen s' = now"
    "se_State s' = (case s of None \<Rightarrow> SessionStateActive | Some s0 \<Rightarrow> se_State s0)"
    "se_ID s' = (case s of None \<Rightarrow> i | Some s0 \<Rightarrow> se_ID s0)"
    by (simp_all add: s'_def new_session_def split: option.split)
  from Some assms have "res = Inr (t, i)" "sm' = queue_actions [SaveAction s'] (put_session i s' sm)"
    by (simp_all add: route_anew_def Let_def s'_def)
  with f selectTarget_Some [OF Some] show ?thesis by (intro disjI2 exI [of _ t] exI [of _ s']) simp
qed

lemma RoutePacket_cases:
  "let i = generateSessionID (sn_config sm) (flow addr dstPort)
   in case RoutePacket now T addr dstPort svc targets sm of
        (Inl e, sm') \<Rightarrow> e = NoHealthyTargetsFor svc \<and> (\<forall>t \<in> set targets. \<not> ut_healthy (T t)) \<and> (\<nexists>t. sticks sm T i t)
      | (Inr (t, j), sm') \<Rightarrow> j = i \<and> ut_healthy (T t) \<and> (sticks sm T i t \<or> t \<in> set targets \<and> (\<nexists>t'. sticks sm T i t'))
          \<and> (\<exists>s. sn_sessions sm' i = Some s \<and> se_Target s = Some t \<and> se_LastSeen s = now)
          \<and> (\<forall>k. k \<noteq> i \<longrightarrow> sn_sessions sm' k = sn_sessions sm k)"
proof -
  let ?i = "generateSessionID (sn_config sm) (flow addr dstPort)"
  obtain res sm' where r: "RoutePacket now T addr dstPort svc targets sm = (res, sm')" by fastforce
  show ?thesis
  proof (cases "\<exists>t. sticks sm T ?i t")
    case True
    then show ?thesis by (auto simp: sticks_def is_active_def RoutePacket_def Let_def)
  next
    case False
    define sm1 where "sm1 = (case sn_sessions sm ?i of Some s \<Rightarrow>
        if se_State s = SessionStateActive then put_session ?i (s\<lparr>se_LastSeen := now\<rparr>) sm else sm | None \<Rightarrow> sm)"
    from False r obtain so where "route_anew now T ?i (flow addr dstPort) svc targets so sm1 = (res, sm')"
      by (auto simp: sticks_def is_active_def RoutePacket_def Let_def sm1_def split: option.splits if_splits)
    from route_anew_cases [OF this] False show ?thesis
      unfolding r Let_def by (auto simp: sm1_def split: option.splits if_splits)
  qed
qed

lemma RoutePacket_others:
  "k \<noteq> generateSessionID (sn_config sm) (flow addr dstPort) \<Longrightarrow>
     sn_sessions (snd (RoutePacket now T addr dstPort svc targets sm)) k = sn_sessions sm k"
  by (auto simp: RoutePacket_def route_anew_def Let_def split: option.split)

text \<open>C24: where a packet goes. It stays with the live target of its active session; otherwise it goes to
  a healthy target of the service; it is refused exactly when neither exists. The session is then on
  that target and has been seen now, and every other session is untouched.\<close>

theorem packet_routing:
  "let i = generateSessionID (sn_config sm) (flow addr dstPort)
   in case RoutePacket now T addr dstPort svc targets sm of
        (Inl e, sm') \<Rightarrow> e = NoHealthyTargetsFor svc \<and> (\<forall>t \<in> set targets. \<not> ut_healthy (T t)) \<and> (\<nexists>t. sticks sm T i t)
      | (Inr (t, j), sm') \<Rightarrow> j = i \<and> ut_healthy (T t) \<and> (sticks sm T i t \<or> t \<in> set targets \<and> (\<nexists>t'. sticks sm T i t'))
          \<and> (\<exists>s. sn_sessions sm' i = Some s \<and> se_Target s = Some t \<and> se_LastSeen s = now)
          \<and> (\<forall>k. k \<noteq> i \<longrightarrow> sn_sessions sm' k = sn_sessions sm k)"
  by (rule RoutePacket_cases)

text \<open>Events that leave a session in place: its own packets while its target is healthy, drains of other
  targets, and cleanups before the session has been idle for too long.\<close>

fun harmless :: "SessionConfig \<Rightarrow> string \<Rightarrow> nat \<Rightarrow> string \<Rightarrow> instant \<Rightarrow> SessionEvent \<Rightarrow> bool" where
  "harmless c i t url seen (PacketFrom now T addr dstPort svc targets) \<longleftrightarrow>
     (generateSessionID c (flow addr dstPort) = i \<longrightarrow> ut_healthy (T t) \<and> seen \<le> now)"
| "harmless c i t url seen (DrainOf u) \<longleftrightarrow> u \<noteq> url"
| "harmless c i t url seen (DrainWith now u policy) \<longleftrightarrow> u \<noteq> url"
| "harmless c i t url seen (CleanupAt order now) \<longleftrightarrow> now - seen \<le> sc_IdleTimeout c"
| "harmless c i t url seen (StoreRuns k) \<longleftrightarrow> True"

definition settled :: "string \<Rightarrow> nat \<Rightarrow> string \<Rightarrow> instant \<Rightarrow> SessionManager \<Rightarrow> bool" where
  "settled i t url seen sm \<longleftrightarrow> (\<exists>s. sn_sessions sm i = Some s \<and> is_active s \<and> se_Target s = Some t
     \<and> se_TargetURL s = url \<and> seen \<le> se_LastSeen s)"

lemma session_event_config: "sn_config (session_event e sm) = sn_config sm"
proof (cases e)
  case (PacketFrom now T addr dstPort svc targets)
  have "sn_config (snd (route_anew now T i ft svc targets s sm')) = sn_config sm'" for i ft s sm'
    using route_anew_cases [of now T i ft svc targets s sm'] by (metis prod.collapse)
  then show ?thesis unfolding PacketFrom by (simp add: RoutePacket_def Let_def split: option.splits)
qed (simp_all add: DrainTarget_def DrainTargetWithPolicy_def cleanupExpiredSessions_def Let_def)

lemma settled_event:
  assumes s: "settled i t url seen sm" and h: "harmless (sn_config sm) i t url seen e"
  shows "settled i t url seen (session_event e sm)"
proof (cases e)
  case (PacketFrom now T addr dstPort svc targets)
  show ?thesis
  proof (cases "generateSessionID (sn_config sm) (flow addr dstPort) = i")
    case True
    with s h PacketFrom show ?thesis
      by (auto simp: settled_def is_active_def RoutePacket_def Let_def)
  next
    case False
    with s PacketFrom show ?thesis by (auto simp: settled_def RoutePacket_others)
  qed
next
  case (CleanupAt order now)
  with s h show ?thesis
    by (auto simp: settled_def cleanupExpiredSessions_def session_matches_def expires_def timed_out_def is_active_def Let_def)
qed (use s h in \<open>auto simp: settled_def DrainTarget_def DrainTargetWithPolicy_def active_on_def\<close>)

lemma settled_events:
  "settled i t url seen sm \<Longrightarrow> list_all (harmless (sn_config sm) i t url seen) es \<Longrightarrow>
     settled i t url seen (fold session_event es sm)"
proof (induction es arbitrary: sm)
  case (Cons e es)
  from Cons.prems have "settled i t url seen (session_event e sm)" by (simp add: settled_event)
  with Cons show ?case by (simp add: session_event_config)
qed simp

lemma events_config [simp]: "sn_config (fold session_event es sm) = sn_config sm"
  by (induction es arbitrary: sm) (auto simp: session_event_config)


subsection \<open>Sessions over a restart\<close>

definition keyed :: "(string \<rightharpoonup> UDPSession) \<Rightarrow> bool" where
  "keyed m \<longleftrightarrow> (\<forall>i s. m i = Some s \<longrightarrow> se_ID s = i)"

lemma keyedD: "keyed m \<Longrightarrow> m i = Some s \<Longrightarrow> se_ID s = i"
  unfolding keyed_def by blast

lemma keyed_empty [simp]: "keyed Map.empty"
  by (simp add: keyed_def)

lemma keyed_put: "keyed m \<Longrightarrow> se_ID s = i \<Longrightarrow> keyed (m(i \<mapsto> s))"
  unfolding keyed_def by simp

lemma keyed_map: "keyed m \<Longrightarrow> (\<And>s. se_ID (f s) = se_ID s) \<Longrightarrow> keyed (\<lambda>i. map_option f (m i))"
  unfolding keyed_def by fastforce

lemma keyed_restrict: "keyed m \<Longrightarrow> keyed (\<lambda>i. if P i then None else m i)"
  unfolding keyed_def by simp

text \<open>The contract of a \<open>SessionStore\<close>: what it holds under an id after a save and after a deletion. A
  client that only saves and deletes keeps every session under its own id.\<close>

locale session_store =
  fixes content :: "'st \<Rightarrow> string \<Rightarrow> UDPSession option" and save :: "UDPSession \<Rightarrow> 'st \<Rightarrow> 'st"
    and delete :: "string \<Rightarrow> 'st \<Rightarrow> 'st"
  assumes content_save: "content (save s st) = (content st)(se_ID s \<mapsto> json_session s)"
    and content_delete: "content (delete j st) = (content st)(j := None)"
begin

lemma save_keyed: "keyed (content st) \<Longrightarrow> keyed (content (save s st))"
  by (simp add: content_save keyed_put json_session_def)

lemma delete_keyed: "keyed (content st) \<Longrightarrow> keyed (content (delete j st))"
  by (simp add: content_delete keyed_def)

lemma save_all_keyed: "keyed (content st) \<Longrightarrow> keyed (content (foldl (\<lambda>f s. save s f) st ss))"
  by (induction ss arbitrary: st) (simp_all add: save_keyed)

text \<open>Of several sessions with different ids, each is found after all of them were saved.\<close>

lemma save_all_others: "i \<notin> se_ID ` set ss \<Longrightarrow> content (foldl (\<lambda>f s. save s f) st ss) i = content st i"
  by (induction ss arbitrary: st) (simp_all add: content_save)

lemma save_all_found:
  "distinct (map se_ID ss) \<Longrightarrow> s \<in> set ss \<Longrightarrow> content (foldl (\<lambda>f s. save s f) st ss) (se_ID s) = Some (json_session s)"
proof (induction ss arbitrary: st)
  case (Cons s' ss)
  show ?case
  proof (cases "s = s'")
    case True
    with Cons.prems(1) show ?thesis by (simp add: save_all_others content_save)
  next
    case False
    with Cons show ?thesis by simp
  qed
qed simp

end

interpretation files: session_store "\<lambda>fs. fs" SaveSession DeleteSession
  by unfold_locales (simp_all add: SaveSession_def DeleteSession_def)

text \<open>Every session is in the table and in the store under its own id.\<close>

definition sessions_ok :: "SessionManager \<Rightarrow> bool" where
  "sessions_ok sm \<longleftrightarrow> keyed (sn_sessions sm) \<and> (\<forall>fs. sn_store sm = Some fs \<longrightarrow> keyed fs)"

inductive session_step :: "SessionManager \<Rightarrow> SessionManager \<Rightarrow> bool" where
  happens: "session_step sm (session_event e sm)"
| stops: "SessionManager_Stop order sm = Returns sm' \<Longrightarrow> session_step sm sm'"
| restarts: "sn_store sm = Some fs \<Longrightarrow> session_step sm (NewSessionManager ids now fs config)"

definition session_start :: "SessionManager \<Rightarrow> bool" where
  "session_start sm \<longleftrightarrow> (\<exists>config. sm = NewSessionManager [] 0 Map.empty config)"

lemma RoutePacket_ok:
  assumes ok: "sessions_ok sm"
  shows "sessions_ok (snd (RoutePacket now T addr dstPort svc targets sm))"
proof -
  have anew: "sessions_ok (snd (route_anew now T i ft svc targets so sm'))"
    if "sessions_ok sm'" "\<forall>s. so = Some s \<longrightarrow> se_ID s = i" for i ft so sm'
  proof -
    obtain res sm2 where r: "route_anew now T i ft svc targets so sm' = (res, sm2)" by fastforce
    from route_anew_cases [OF r] that show ?thesis
      unfolding r by (cases so) (auto simp: sessions_ok_def intro: keyed_put)
  qed
  show ?thesis
  proof (cases "sn_sessions sm (generateSessionID (sn_config sm) (flow addr dstPort))")
    case None
    with ok show ?thesis by (auto simp: RoutePacket_def Let_def intro: anew)
  next
    case (Some s)
    from ok Some have id: "se_ID s = generateSessionID (sn_config sm) (flow addr dstPort)"
      by (auto simp: sessions_ok_def dest: keyedD)
    then have "sessions_ok (put_session (generateSessionID (sn_config sm) (flow addr dstPort)) (s\<lparr>se_LastSeen := now\<rparr>) sm)"
      using ok by (auto simp: sessions_ok_def intro: keyed_put)
    with ok Some id show ?thesis by (auto simp: RoutePacket_def Let_def intro!: anew split: option.split)
  qed
qed

lemma run_action_keyed: "keyed fs \<Longrightarrow> keyed (run_action a fs)"
  using files.save_keyed files.delete_keyed by (cases a) auto

lemma update_ok: "sessions_ok sm \<Longrightarrow> (\<And>s. se_ID (f s) = se_ID s) \<Longrightarrow> sessions_ok (update_sessions P f sm)"
  unfolding sessions_ok_def update_sessions_def by (auto intro!: keyed_map)

lemma session_event_ok: "sessions_ok sm \<Longrightarrow> sessions_ok (session_event e sm)"
proof (cases e)
  case (StoreRuns k)
  assume "sessions_ok sm"
  with StoreRuns show ?thesis by (auto simp: sessions_ok_def run_pending_def intro: run_action_keyed)
next
  case (CleanupAt order now)
  assume "sessions_ok sm"
  with CleanupAt show ?thesis by (auto simp: sessions_ok_def cleanupExpiredSessions_def Let_def intro: keyed_restrict)
next
  case (DrainWith now url policy)
  assume "sessions_ok sm"
  with DrainWith show ?thesis
    by (auto simp: DrainTargetWithPolicy_def drainGracefully_def terminateImmediately_def drainWithTimeout_def
        sendWebRTCBye_def Let_def intro!: update_ok)
qed (auto simp: RoutePacket_ok DrainTarget_def intro: update_ok)

text \<open>Loading: the sessions that have not timed out end up in the table.\<close>

lemma load_fields [simp]:
  "sn_store (foldl (load_one now) sm ss) = sn_store sm" "sn_config (foldl (load_one now) sm ss) = sn_config sm"
  by (induction ss arbitrary: sm) (simp_all add: load_one_def)

lemma load_keyed: "keyed (sn_sessions sm) \<Longrightarrow> keyed (sn_sessions (foldl (load_one now) sm ss))"
  by (induction ss arbitrary: sm) (simp_all add: load_one_def keyed_put)

lemma NewSessionManager_load:
  "NewSessionManager ids now fs config =
     (let sm = \<lparr>sn_sessions = Map.empty, sn_store = None, sn_config = config, sn_pending = [], sn_shutdown = False\<rparr>
      in if sc_PersistenceEnabled config then foldl (load_one now) (sm\<lparr>sn_store := Some fs\<rparr>) (LoadSessions ids fs) else sm)"
  by (simp add: NewSessionManager_def loadPersistedSessions_def Let_def)

lemma NewSessionManager_ok: "keyed fs \<Longrightarrow> sessions_ok (NewSessionManager ids now fs config)"
  by (simp add: NewSessionManager_load sessions_ok_def Let_def load_keyed)

lemma loaded_session:
  assumes "keyed fs" "distinct ids" "i \<in> set ids" "fs i = Some s" "\<not> timed_out (sn_config sm) now s"
  shows "sn_sessions (foldl (load_one now) sm (LoadSessions ids fs)) i = Some s"
proof -
  have other: "sn_sessions (foldl (load_one now) m (LoadSessions js fs)) i = sn_sessions m i" if "i \<notin> set js" for js m
    using that
  proof (induction js arbitrary: m)
    case (Cons j js)
    then show ?case
      by (cases "fs j") (auto simp: LoadSessions_def List.map_filter_simps load_one_def dest: keyedD [OF assms(1)])
  qed (simp add: LoadSessions_def List.map_filter_simps)
  from assms(2,3,5) show ?thesis
  proof (induction ids arbitrary: sm)
    case (Cons j js)
    show ?case
    proof (cases "j = i")
      case True
      have "se_ID s = i" using keyedD [OF assms(1,4)] .
      moreover have "i \<notin> set js" using Cons.prems True by simp
      moreover have "LoadSessions (j # js) fs = s # LoadSessions js fs"
        using True assms(4) by (simp add: LoadSessions_def List.map_filter_simps)
      moreover from Cons.prems(3) \<open>se_ID s = i\<close> have "load_one now sm s = put_session i s sm" by (simp add: load_one_def)
      ultimately show ?thesis by (simp add: other)
    next
      case False
      with Cons.prems have "i \<in> set js" "distinct js" by simp_all
      moreover have "sn_config (load_one now sm s') = sn_config sm" for s' by (simp add: load_one_def)
      ultimately show ?thesis
        using Cons.IH Cons.prems(3) by (cases "fs j") (simp_all add: LoadSessions_def List.map_filter_simps)
    qed
  qed simp
qed

lemma map_filter_ids:
  assumes "keyed m" "distinct ids"
  shows "distinct (map se_ID (List.map_filter m ids))" "set (map se_ID (List.map_filter m ids)) \<subseteq> set ids"
proof -
  show sub: "set (map se_ID (List.map_filter m js)) \<subseteq> set js" for js
    using keyedD [OF assms(1)] by (force simp: List.map_filter_def)
  from assms(2) show "distinct (map se_ID (List.map_filter m ids))"
  proof (induction ids)
    case (Cons j js)
    with sub [of js] keyedD [OF assms(1)] show ?case
      by (cases "m j") (auto simp: List.map_filter_simps)
  qed (simp add: List.map_filter_simps)
qed

lemma persistAll_ok: "sessions_ok sm \<Longrightarrow> sessions_ok (persistAllSessions order sm)"
  by (auto simp: persistAllSessions_def sessions_ok_def intro: files.save_all_keyed split: option.splits)

lemma persisted_session:
  assumes ok: "sessions_ok sm" and "distinct order" "i \<in> set order" "sn_sessions sm i = Some s" "is_active s"
    and "sn_store (persistAllSessions order sm) = Some fs" "sn_store sm \<noteq> None"
  shows "fs i = Some (json_session s)"
proof -
  let ?ss = "filter is_active (List.map_filter (sn_sessions sm) order)"
  from ok have k: "keyed (sn_sessions sm)" by (simp add: sessions_ok_def)
  have "distinct (map se_ID ?ss)"
    using map_filter_ids(1) [OF k assms(2)] by (rule distinct_map_filter)
  moreover have "s \<in> set ?ss" using assms(3-5) by (force simp: List.map_filter_def)
  moreover have "se_ID s = i" using keyedD [OF k assms(4)] .
  ultimately have "foldl (\<lambda>f s. SaveSession s f) st ?ss i = Some (json_session s)" for st
    using files.save_all_found [of ?ss s st] by simp
  with assms(6,7) show ?thesis by (auto simp: persistAllSessions_def)
qed

lemma session_step_ok: "session_step sm sm' \<Longrightarrow> sessions_ok sm \<Longrightarrow> sessions_ok sm'"
proof (induction rule: session_step.induct)
  case (happens sm e)
  then show ?case by (rule session_event_ok)
next
  case (restarts sm fs ids now config)
  then show ?case by (intro NewSessionManager_ok) (simp add: sessions_ok_def)
next
  case (stops order sm sm')
  then have "sessions_ok (sm\<lparr>sn_shutdown := True\<rparr>)" by (simp add: sessions_ok_def)
  with stops show ?case by (auto simp: SessionManager_Stop_def Let_def persistAll_ok split: if_splits)
qed

lemma session_start_ok: "session_start sm \<Longrightarrow> sessions_ok sm"
  unfolding session_start_def by (auto intro: NewSessionManager_ok)

interpretation session_ids: kept_invariant session_start session_step sessions_ok
  by unfold_locales (auto intro: session_start_ok session_step_ok)

text \<open>Active sessions survive a restart: what a manager with persistence saves when it stops is what
  the next manager starts with, except that the session has no target until its next packet.\<close>

theorem sessions_survive_restart:
  assumes "reach session_start session_step sm" and "persists sm"
    and "sn_sessions sm i = Some s" and "is_active s"
    and "distinct order" and "set order = dom (sn_sessions sm)" and "SessionManager_Stop order sm = Returns sm'"
    and "sn_store sm' = Some fs" and "distinct ids" and "set ids = dom fs"
    and "sc_PersistenceEnabled config" and "\<not> timed_out config now s"
  shows "sn_sessions (NewSessionManager ids now fs config) i = Some (json_session s)"
proof -
  let ?sm = "sm\<lparr>sn_shutdown := True\<rparr>"
  from session_ids.reach_inv [OF assms(1)] have ok: "sessions_ok sm" .
  then have ok1: "sessions_ok ?sm" by (simp add: sessions_ok_def)
  from assms(2,7) have sm': "sm' = persistAllSessions order ?sm"
    by (auto simp: SessionManager_Stop_def persists_def Let_def split: if_splits)
  have fs: "fs i = Some (json_session s)"
    using persisted_session [OF ok1 assms(5), of i s fs] assms(2,3,4,6,8) sm' by (auto simp: persists_def)
  from session_step_ok [OF stops [OF assms(7)] ok] assms(8) have k: "keyed fs" by (auto simp: sessions_ok_def)
  have "\<not> timed_out config now (json_session s)" using assms(12) by (simp add: timed_out_def json_session_def)
  with loaded_session [OF k assms(9) _ fs] fs assms(10,11) show ?thesis
    by (auto simp: NewSessionManager_load Let_def dom_def)
qed

subsection \<open>Examples\<close>

definition ex_session_config :: SessionConfig where
  "ex_session_config = \<lparr>sc_IdleTimeout = 60, sc_CleanupInterval = 30, sc_StickinessEnabled = True,
     sc_StickinessStrategy = ''5-tuple'', sc_MaxSessions = 10000, sc_PersistenceEnabled = True, sc_StorePath = ''store''\<rparr>"

definition ex_heap :: "nat \<Rightarrow> UDPTarget" where
  "ex_heap = (\<lambda>_. ex_udp\<lparr>ut_conn := True, ut_healthy := True\<rparr>)"

definition ex_sm0 :: SessionManager where
  "ex_sm0 = NewSessionManager [] 0 Map.empty ex_session_config"

definition ex_client :: "string \<times> int" where
  "ex_client = (''192.0.2.7'', 40000)"

definition ex_id :: string where
  "ex_id = generateSessionID ex_session_config (flow ex_client 8080)"

definition ex_session :: UDPSession where
  "ex_session = (new_session 5 ex_id (flow ex_client 8080) ''game'')
     \<lparr>se_Target := Some 0, se_TargetURL := ut_url ex_udp, se_LastSeen := 5\<rparr>"

definition ex_sm1 :: SessionManager where
  "ex_sm1 = session_event (PacketFrom 5 ex_heap ex_client 8080 ''game'' [0]) ex_sm0"

lemma ex_sm0_simps [simp]:
  "sn_sessions ex_sm0 = Map.empty" "sn_config ex_sm0 = ex_session_config" "sn_store ex_sm0 = Some Map.empty"
  "sn_shutdown ex_sm0 = False"
  by (simp_all add: ex_sm0_def NewSessionManager_def loadPersistedSessions_def LoadSessions_def List.map_filter_simps
      ex_session_config_def Let_def)

lemma ex_sm1_simps [simp]:
  "sn_sessions ex_sm1 = [ex_id \<mapsto> ex_session]" "sn_config ex_sm1 = ex_session_config" "sn_store ex_sm1 = Some Map.empty"
  "sn_shutdown ex_sm1 = False"
proof -
  have "selectTarget ex_session_config ex_heap (flow ex_client 8080) [0] = Some 0"
    by (simp add: selectTarget_def ex_heap_def Let_def)
  then show "sn_sessions ex_sm1 = [ex_id \<mapsto> ex_session]" "sn_config ex_sm1 = ex_session_config"
    "sn_store ex_sm1 = Some Map.empty" "sn_shutdown ex_sm1 = False"
    by (simp_all add: ex_sm1_def RoutePacket_def route_anew_def ex_id_def [symmetric] ex_session_def Let_def)
      (simp add: ex_heap_def)
qed

theorem packet_routing_witness:
  "\<exists>t sm'. RoutePacket 5 ex_heap ex_client 8080 ''game'' [3, 4] ex_sm0 = (Inr (t, ex_id), sm') \<and> t \<in> {3, 4}"
proof -
  have "\<not> sticks ex_sm0 ex_heap i t" for i t by (simp add: sticks_def)
  moreover have "ut_healthy (ex_heap t)" for t by (simp add: ex_heap_def)
  ultimately show ?thesis
    using packet_routing [where sm = ex_sm0 and addr = ex_client and dstPort = 8080 and now = 5 and T = ex_heap
        and svc = "''game''" and targets = "[3, 4]"]
    by (auto simp: Let_def ex_id_def split: prod.splits sum.splits)
qed


theorem sessions_survive_restart_witness:
  "sn_sessions (NewSessionManager [ex_id] 30 [ex_id \<mapsto> json_session ex_session] ex_session_config) ex_id
     = Some (json_session ex_session)"
proof -
  have p: "persists ex_sm1" by (simp add: persists_def ex_session_config_def)
  have "reach session_start session_step ex_sm0" by (rule reach_start) (auto simp: session_start_def ex_sm0_def)
  then have r: "reach session_start session_step ex_sm1" unfolding ex_sm1_def by (rule reach_step) (rule happens)
  have a: "is_active ex_session" "se_ID ex_session = ex_id" by (simp_all add: ex_session_def new_session_def is_active_def)
  let ?sm = "ex_sm1\<lparr>sn_shutdown := True, sn_store := Some [ex_id \<mapsto> json_session ex_session]\<rparr>"
  have s: "SessionManager_Stop [ex_id] ex_sm1 = Returns ?sm"
    using p a by (simp add: SessionManager_Stop_def Let_def persists_def persistAllSessions_def List.map_filter_simps SaveSession_def)
  have "\<not> timed_out ex_session_config 30 ex_session"
    by (simp add: timed_out_def ex_session_config_def ex_session_def)
  then show ?thesis
    using sessions_survive_restart [OF r p _ a(1) _ _ s, of ex_id "[ex_id \<mapsto> json_session ex_session]" "[ex_id]"
        ex_session_config 30]
    by (simp add: ex_session_config_def)
qed

end
