(* ===== verification/UdpDeployment.thy ===== *)
theory UdpDeployment
  imports Sessions
begin

section \<open>Zero-downtime deployment of UDP services\<close>

text \<open>
  Models \<open>internal/server/udp_deployment.go\<close>: a deployment goes through health checking, routing,
  draining and completion in a goroutine of its own, while packets arrive. Deployments are shared
  between the manager's table and their goroutine, so they live in a heap. The world they work on has
  the heap of targets, the session manager and the port allocator. Each poll of the health check and
  each tick of the drain loop is given by the time it reads and by what the rest of the program has
  done to the world before it.
\<close>

subsection \<open>Data\<close>

record UdpWorld =
  w_targets :: "nat \<Rightarrow> UDPTarget"
  w_sessions :: SessionManager
  w_ports :: PortAllocator

record UDPDeploymentConfig =
  uc_DrainTimeout :: duration
  uc_HealthCheckTimeout :: duration
  uc_ForceKillTimeout :: duration
  uc_SessionCheckInterval :: duration

datatype DeploymentState =
    DeploymentStateIdle
  | DeploymentStateHealthChecking
  | DeploymentStateRouting
  | DeploymentStateDraining
  | DeploymentStateCompleted
  | DeploymentStateFailed

record UDPServiceDeployment =
  sd_ServiceName :: string
  sd_ServiceType :: string
  sd_CurrentTargets :: "nat list"
  sd_NewTargets :: "nat list"
  sd_State :: DeploymentState
  sd_StartedAt :: instant
  sd_DrainStartedAt :: instant
  sd_CurrentAllocations :: "nat list"
  sd_NewAllocations :: "nat list"
  sd_DrainPolicy :: SessionDrainPolicy

record UDPDeploymentManager =
  dm_services :: "string \<rightharpoonup> nat"
  dm_heap :: "nat \<Rightarrow> UDPServiceDeployment"
  dm_next :: nat
  dm_config :: UDPDeploymentConfig

definition DeploymentState_String :: "DeploymentState \<Rightarrow> string" where
  "DeploymentState_String ds = (case ds of
       DeploymentStateIdle \<Rightarrow> ''idle'' | DeploymentStateHealthChecking \<Rightarrow> ''health_checking''
     | DeploymentStateRouting \<Rightarrow> ''routing'' | DeploymentStateDraining \<Rightarrow> ''draining''
     | DeploymentStateCompleted \<Rightarrow> ''completed'' | DeploymentStateFailed \<Rightarrow> ''failed'')"

definition DefaultDrainTimeout :: duration where
  "DefaultDrainTimeout = seconds 30"

definition DefaultHealthCheckTimeout :: duration where
  "DefaultHealthCheckTimeout = seconds 5"

definition DefaultForceKillTimeout :: int where
  "DefaultForceKillTimeout = 120"

definition DefaultSessionCheckInterval :: int where
  "DefaultSessionCheckInterval = 5"

definition NewUDPDeploymentManager :: "UDPDeploymentConfig \<Rightarrow> (nat \<Rightarrow> UDPServiceDeployment) \<Rightarrow> UDPDeploymentManager" where
  "NewUDPDeploymentManager config memory =
     (let c1 = (if uc_DrainTimeout config = 0 then config\<lparr>uc_DrainTimeout := DefaultDrainTimeout\<rparr> else config);
          c2 = (if uc_HealthCheckTimeout c1 = 0 then c1\<lparr>uc_HealthCheckTimeout := DefaultHealthCheckTimeout\<rparr> else c1);
          c3 = (if uc_ForceKillTimeout c2 = 0
                then c2\<lparr>uc_ForceKillTimeout := seconds DefaultForceKillTimeout\<rparr> else c2);
          c4 = (if uc_SessionCheckInterval c3 = 0
                then c3\<lparr>uc_SessionCheckInterval := seconds DefaultSessionCheckInterval\<rparr> else c3)
      in \<lparr>dm_services = Map.empty, dm_heap = memory, dm_next = 0, dm_config = c4\<rparr>)"

subsection \<open>Starting a deployment\<close>

definition register :: "UDPServiceDeployment \<Rightarrow> UDPDeploymentManager \<Rightarrow> nat \<times> UDPDeploymentManager" where
  "register d dm =
     (let a = dm_next dm
      in (a, dm\<lparr>dm_services := (dm_services dm)(sd_ServiceName d \<mapsto> a), dm_heap := (dm_heap dm)(a := d), dm_next := a + 1\<rparr>))"

definition DeployUDPService ::
  "instant \<Rightarrow> string \<Rightarrow> nat list \<Rightarrow> SessionDrainPolicy \<Rightarrow> UDPDeploymentManager \<Rightarrow> nat \<times> UDPDeploymentManager" where
  "DeployUDPService now serviceName newTargets drainPolicy dm =
     (let deployment = \<lparr>sd_ServiceName = serviceName, sd_ServiceType = ''udp'', sd_CurrentTargets = [],
            sd_NewTargets = newTargets, sd_State = DeploymentStateHealthChecking, sd_StartedAt = now,
            sd_DrainStartedAt = 0, sd_CurrentAllocations = [], sd_NewAllocations = [], sd_DrainPolicy = drainPolicy\<rparr>;
          d = (case dm_services dm serviceName of
                 None \<Rightarrow> deployment
               | Some e \<Rightarrow> deployment\<lparr>sd_CurrentTargets := sd_CurrentTargets (dm_heap dm e)\<rparr>)
      in register d dm)"

definition Deployment_DeployWebRTCService ::
  "instant \<Rightarrow> string \<Rightarrow> nat list \<Rightarrow> nat list \<Rightarrow> SessionDrainPolicy \<Rightarrow> UDPDeploymentManager \<Rightarrow> nat \<times> UDPDeploymentManager" where
  "Deployment_DeployWebRTCService now serviceName newTargets newAllocations drainPolicy dm =
     (let deployment = \<lparr>sd_ServiceName = serviceName, sd_ServiceType = ''webrtc'', sd_CurrentTargets = [],
            sd_NewTargets = newTargets, sd_State = DeploymentStateHealthChecking, sd_StartedAt = now,
            sd_DrainStartedAt = 0, sd_CurrentAllocations = [], sd_NewAllocations = newAllocations,
            sd_DrainPolicy = drainPolicy\<rparr>;
          d = (case dm_services dm serviceName of
                 None \<Rightarrow> deployment
               | Some e \<Rightarrow> deployment\<lparr>sd_CurrentTargets := sd_CurrentTargets (dm_heap dm e),
                                       sd_CurrentAllocations := sd_CurrentAllocations (dm_heap dm e)\<rparr>)
      in register d dm)"

subsection \<open>The phases of a deployment\<close>

text \<open>\<open>healthCheckTargets\<close> over its polls, each with the time it reads and the targets it sees; \<open>None\<close>
  when the polls end before the loop does.\<close>

fun healthCheckTargets :: "instant \<Rightarrow> (instant \<times> (nat \<Rightarrow> UDPTarget)) list \<Rightarrow> nat list \<Rightarrow> bool option" where
  "healthCheckTargets deadline [] targets = None"
| "healthCheckTargets deadline ((now, T) # polls) targets =
     (if now < deadline
      then (if list_all (\<lambda>t. ut_healthy (T t)) targets then Some True else healthCheckTargets deadline polls targets)
      else Some False)"

definition drain_targets :: "nat list \<Rightarrow> UdpWorld \<Rightarrow> UdpWorld" where
  "drain_targets targets w =
     w\<lparr>w_sessions := foldl (\<lambda>sm t. DrainTarget (ut_url (w_targets w t)) sm) (w_sessions w) targets\<rparr>"

definition switchTrafficToNewTargets :: "UDPServiceDeployment \<Rightarrow> UdpWorld \<Rightarrow> UdpWorld" where
  "switchTrafficToNewTargets d w = drain_targets (sd_CurrentTargets d) w"

definition switchWebRTCTrafficToNewTargets :: "UDPServiceDeployment \<Rightarrow> UdpWorld \<Rightarrow> UdpWorld" where
  "switchWebRTCTrafficToNewTargets d w =
     (let w1 = drain_targets (sd_CurrentTargets d) w
      in w1\<lparr>w_ports := foldl (\<lambda>pa a. mark_unused a pa) (w_ports w1) (sd_CurrentAllocations d)\<rparr>)"

definition countActiveSessionsOnTargets :: "string list \<Rightarrow> UDPServiceDeployment \<Rightarrow> UdpWorld \<Rightarrow> nat" where
  "countActiveSessionsOnTargets order d w =
     sum_list (map (\<lambda>t. length (GetSessionsForTarget order (ut_url (w_targets w t)) (w_sessions w))) (sd_CurrentTargets d))"

definition forceKillSessions :: "UDPServiceDeployment \<Rightarrow> UdpWorld \<Rightarrow> UdpWorld" where
  "forceKillSessions d w =
     w\<lparr>w_sessions := foldl (\<lambda>sm t. update_sessions (active_on (ut_url (w_targets w t))) terminateImmediately sm)
        (w_sessions w) (sd_CurrentTargets d)\<rparr>"

text \<open>\<open>drainWithTimeout\<close> over its ticks, each with the time, the order in which the sessions are visited
  and what happened to the world since the last tick. The drain deadline only chooses a log line.\<close>

fun drain_loop ::
  "instant \<Rightarrow> (instant \<times> string list \<times> (UdpWorld \<Rightarrow> UdpWorld)) list \<Rightarrow> UDPServiceDeployment \<Rightarrow> UdpWorld \<Rightarrow> UdpWorld option" where
  "drain_loop forceDeadline [] d w = None"
| "drain_loop forceDeadline ((now, order, env) # ticks) d w =
     (let w1 = env w; activeSessions = countActiveSessionsOnTargets order d w1
      in if activeSessions = 0 then Some w1
         else if now > forceDeadline then Some (forceKillSessions d w1)
         else drain_loop forceDeadline ticks d w1)"

fun cleanupOldTargets :: "nat list \<Rightarrow> UdpWorld \<Rightarrow> UdpWorld outcome" where
  "cleanupOldTargets [] w = Returns w"
| "cleanupOldTargets (t # ts) w =
     bind_outcome (UDPTarget_Stop (w_targets w t))
       (\<lambda>stopped. cleanupOldTargets ts (w\<lparr>w_targets := (w_targets w)(t := stopped)\<rparr>))"

definition cleanupOldAllocations :: "nat list \<Rightarrow> UdpWorld \<Rightarrow> UdpWorld" where
  "cleanupOldAllocations allocations w =
     w\<lparr>w_ports := foldl (\<lambda>pa a. snd (DeallocatePort (al_RTPPort (pa_heap pa a)) pa)) (w_ports w) allocations\<rparr>"

text \<open>A whole deployment: the polls, the time at which draining starts and the ticks are arguments; \<open>None\<close>
  stands for a deployment that has not finished within them.\<close>

type_synonym polls = "(instant \<times> (nat \<Rightarrow> UDPTarget)) list"
type_synonym ticks = "(instant \<times> string list \<times> (UdpWorld \<Rightarrow> UdpWorld)) list"

definition drain_phase ::
  "UDPDeploymentConfig \<Rightarrow> instant \<Rightarrow> ticks \<Rightarrow> bool \<Rightarrow> UDPServiceDeployment \<times> UdpWorld \<Rightarrow> (UDPServiceDeployment \<times> UdpWorld) option" where
  "drain_phase config started ticks needed = (\<lambda>(d, w).
     if needed
     then (let d1 = d\<lparr>sd_State := DeploymentStateDraining, sd_DrainStartedAt := started\<rparr>
           in map_option (\<lambda>w'. (d1, w')) (drain_loop (started + uc_ForceKillTimeout config) ticks d1 w))
     else Some (d, w))"

definition executeUDPDeployment ::
  "UDPDeploymentConfig \<Rightarrow> instant \<Rightarrow> polls \<Rightarrow> instant \<Rightarrow> ticks \<Rightarrow> UDPServiceDeployment \<times> UdpWorld \<Rightarrow>
     (UDPServiceDeployment \<times> UdpWorld) outcome option" where
  "executeUDPDeployment config now polls started ticks = (\<lambda>(d, w).
     case healthCheckTargets (now + uc_HealthCheckTimeout config) polls (sd_NewTargets d) of
       None \<Rightarrow> None
     | Some False \<Rightarrow> Some (Returns (d\<lparr>sd_State := DeploymentStateFailed\<rparr>, w))
     | Some True \<Rightarrow>
         (let d1 = d\<lparr>sd_State := DeploymentStateRouting\<rparr>; w1 = switchTrafficToNewTargets d1 w
          in case drain_phase config started ticks (length (sd_CurrentTargets d1) > 0) (d1, w1) of
               None \<Rightarrow> None
             | Some (d2, w2) \<Rightarrow>
                 Some (bind_outcome (cleanupOldTargets (sd_CurrentTargets d2) w2)
                   (\<lambda>w3. Returns (d2\<lparr>sd_State := DeploymentStateCompleted\<rparr>, w3)))))"

definition executeWebRTCDeployment ::
  "UDPDeploymentConfig \<Rightarrow> instant \<Rightarrow> polls \<Rightarrow> instant \<Rightarrow> ticks \<Rightarrow> UDPServiceDeployment \<times> UdpWorld \<Rightarrow>
     (UDPServiceDeployment \<times> UdpWorld) outcome option" where
  "executeWebRTCDeployment config now polls started ticks = (\<lambda>(d, w).
     case healthCheckTargets (now + uc_HealthCheckTimeout config) polls (sd_NewTargets d) of
       None \<Rightarrow> None
     | Some False \<Rightarrow> Some (Returns (d\<lparr>sd_State := DeploymentStateFailed\<rparr>, cleanupOldAllocations (sd_NewAllocations d) w))
     | Some True \<Rightarrow>
         (let d1 = d\<lparr>sd_State := DeploymentStateRouting\<rparr>; w1 = switchWebRTCTrafficToNewTargets d1 w
          in case drain_phase config started ticks
                    (length (sd_CurrentTargets d1) > 0 \<or> length (sd_CurrentAllocations d1) > 0) (d1, w1) of
               None \<Rightarrow> None
             | Some (d2, w2) \<Rightarrow>
                 Some (bind_outcome (cleanupOldTargets (sd_CurrentTargets d2) w2)
                   (\<lambda>w3. Returns (d2\<lparr>sd_State := DeploymentStateCompleted\<rparr>,
                                  cleanupOldAllocations (sd_CurrentAllocations d2) w3)))))"

subsection \<open>Queries and shutdown\<close>

definition GetDeploymentStatus :: "string \<Rightarrow> UDPDeploymentManager \<Rightarrow> UDPServiceDeployment option" where
  "GetDeploymentStatus serviceName dm = map_option (dm_heap dm) (dm_services dm serviceName)"

definition ListActiveDeployments :: "UDPDeploymentManager \<Rightarrow> string \<rightharpoonup> nat" where
  "ListActiveDeployments dm = (\<lambda>name. case dm_services dm name of
       None \<Rightarrow> None
     | Some a \<Rightarrow> if sd_State (dm_heap dm a) \<notin> {DeploymentStateCompleted, DeploymentStateFailed} then Some a else None)"

record DeploymentStats =
  ds_total_deployments :: nat
  ds_active_deployments :: nat
  ds_draining_deployments :: nat
  ds_completed_deployments :: nat
  ds_failed_deployments :: nat

definition GetDeploymentStats :: "string list \<Rightarrow> UDPDeploymentManager \<Rightarrow> DeploymentStats" where
  "GetDeploymentStats order dm =
     (let states = map (\<lambda>a. sd_State (dm_heap dm a)) (List.map_filter (dm_services dm) order);
          among = (\<lambda>S. length (filter (\<lambda>st. st \<in> S) states))
      in \<lparr>ds_total_deployments = length order,
          ds_active_deployments = among {DeploymentStateHealthChecking, DeploymentStateRouting},
          ds_draining_deployments = among {DeploymentStateDraining},
          ds_completed_deployments = among {DeploymentStateCompleted},
          ds_failed_deployments = among {DeploymentStateFailed}\<rparr>)"

definition stop_deployment :: "UDPDeploymentManager \<times> UdpWorld \<Rightarrow> nat \<Rightarrow> UDPDeploymentManager \<times> UdpWorld" where
  "stop_deployment = (\<lambda>(dm, w) a.
     if sd_State (dm_heap dm a) = DeploymentStateDraining
     then (dm\<lparr>dm_heap := (dm_heap dm)(a := (dm_heap dm a)\<lparr>sd_State := DeploymentStateCompleted\<rparr>)\<rparr>,
           forceKillSessions (dm_heap dm a) w)
     else (dm, w))"

definition UDPDeploymentManager_Stop :: "string list \<Rightarrow> UDPDeploymentManager \<times> UdpWorld \<Rightarrow> UDPDeploymentManager \<times> UdpWorld" where
  "UDPDeploymentManager_Stop order = (\<lambda>(dm, w). foldl stop_deployment (dm, w) (List.map_filter (dm_services dm) order))"

subsection \<open>Draining does not wait\<close>

lemma no_active_sessions: "GetSessionsForTarget order url sm = [] \<longleftrightarrow>
    (\<forall>i \<in> set order. \<forall>s. sn_sessions sm i = Some s \<longrightarrow> \<not> active_on url s)"
  by (auto simp: GetSessionsForTarget_def filter_empty_conv session_matches_def split: option.splits)

lemma DrainTarget_Some:
  assumes "sn_sessions (DrainTarget url sm) i = Some s"
  obtains z where "sn_sessions sm i = Some z" "s = (if active_on url z then z\<lparr>se_State := SessionStateDraining\<rparr> else z)"
  using assms unfolding DrainTarget_def update_sessions_fields map_option_eq_Some by metis

lemma DrainTarget_inactive: "sn_sessions (DrainTarget url sm) i = Some s \<Longrightarrow> \<not> active_on url s"
  by (erule DrainTarget_Some) (simp add: active_on_def split: if_split)

lemma DrainTarget_mono:
  assumes "\<And>s. sn_sessions sm i = Some s \<Longrightarrow> \<not> active_on u s" "sn_sessions (DrainTarget url sm) i = Some s"
  shows "\<not> active_on u s"
  using assms(2)
proof (rule DrainTarget_Some)
  fix z
  assume "sn_sessions sm i = Some z" "s = (if active_on url z then z\<lparr>se_State := SessionStateDraining\<rparr> else z)"
  with assms(1) show ?thesis by (cases "active_on url z") (simp_all add: active_on_def)
qed

lemma drain_fold_inactive:
  "(\<forall>s. sn_sessions sm i = Some s \<longrightarrow> \<not> active_on u s) \<or> u \<in> set urls \<Longrightarrow>
     sn_sessions (foldl (\<lambda>sm u. DrainTarget u sm) sm urls) i = Some s \<Longrightarrow> \<not> active_on u s"
proof (induction urls arbitrary: sm)
  case (Cons v urls)
  have "(\<forall>s. sn_sessions (DrainTarget v sm) i = Some s \<longrightarrow> \<not> active_on u s) \<or> u \<in> set urls"
    using Cons.prems(1) DrainTarget_inactive [of v sm i] DrainTarget_mono [of sm i u v] by (cases "u = v") auto
  from Cons.IH [OF this] Cons.prems(2) show ?case by simp
qed simp

lemma drain_targets_urls:
  "w_sessions (drain_targets ts w) = foldl (\<lambda>sm u. DrainTarget u sm) (w_sessions w) (map (\<lambda>t. ut_url (w_targets w t)) ts)"
  by (simp add: drain_targets_def foldl_map)

lemma drained_count: "countActiveSessionsOnTargets order d (switchTrafficToNewTargets d w) = 0"
proof -
  have "GetSessionsForTarget order (ut_url (w_targets w t)) (w_sessions (switchTrafficToNewTargets d w)) = []"
    if "t \<in> set (sd_CurrentTargets d)" for t
    unfolding no_active_sessions switchTrafficToNewTargets_def drain_targets_urls
    using that by (intro ballI allI impI drain_fold_inactive) auto
  then show ?thesis
    by (simp add: countActiveSessionsOnTargets_def) (simp add: switchTrafficToNewTargets_def drain_targets_def)
qed

text \<open>A session on one of the old targets is kept, as draining, so it is there but not counted.\<close>

lemma drain_fold_state:
  "sn_sessions sm i = Some s \<Longrightarrow> is_active s \<Longrightarrow>
     sn_sessions (foldl (\<lambda>sm u. DrainTarget u sm) sm urls) i =
       Some (if se_TargetURL s \<in> set urls then s\<lparr>se_State := SessionStateDraining\<rparr> else s)"
proof (induction urls arbitrary: sm)
  case (Cons u urls)
  show ?case
  proof (cases "se_TargetURL s = u")
    case True
    let ?s = "s\<lparr>se_State := SessionStateDraining\<rparr>"
    have "sn_sessions (DrainTarget u sm) i = Some ?s"
      using True Cons.prems by (simp add: DrainTarget_def active_on_def is_active_def)
    moreover have "sn_sessions (foldl (\<lambda>sm u. DrainTarget u sm) sm' us) i = Some ?s" if "sn_sessions sm' i = Some ?s" for sm' us
      using that by (induction us arbitrary: sm') (simp_all add: DrainTarget_def active_on_def)
    ultimately show ?thesis using True by simp
  next
    case False
    with Cons show ?thesis by (simp add: DrainTarget_def active_on_def)
  qed
qed simp

text \<open>The drain phase of a deployment does not wait for the sessions on the old targets. Switching the
  traffic has marked them as draining, the loop counts active sessions only, and so it ends at its
  first tick with every such session still in the table.\<close>

theorem drain_ends_at_first_tick:
  "drain_loop forceDeadline ((now, order, \<lambda>w. w) # ticks) d (switchTrafficToNewTargets d w) = Some (switchTrafficToNewTargets d w)
   \<and> (sn_sessions (w_sessions w) i = Some s \<and> is_active s \<and> se_TargetURL s \<in> (\<lambda>t. ut_url (w_targets w t)) ` set (sd_CurrentTargets d) \<longrightarrow>
      sn_sessions (w_sessions (switchTrafficToNewTargets d w)) i = Some (s\<lparr>se_State := SessionStateDraining\<rparr>))"
  using drain_fold_state [of "w_sessions w" i s "map (\<lambda>t. ut_url (w_targets w t)) (sd_CurrentTargets d)"]
  by (auto simp: drained_count switchTrafficToNewTargets_def [symmetric] Let_def)
     (auto simp: switchTrafficToNewTargets_def drain_targets_urls)

subsection \<open>No deployment has old targets\<close>

inductive deployment_step :: "UDPDeploymentManager \<Rightarrow> UDPDeploymentManager \<Rightarrow> bool" where
  udp: "deployment_step dm (snd (DeployUDPService now name targets policy dm))"
| webrtc: "deployment_step dm (snd (Deployment_DeployWebRTCService now name targets allocations policy dm))"
| run_udp: "a < dm_next dm \<Longrightarrow>
    executeUDPDeployment (dm_config dm) now polls started ticks (dm_heap dm a, w) = Some (Returns (d, w')) \<Longrightarrow>
    deployment_step dm (dm\<lparr>dm_heap := (dm_heap dm)(a := d)\<rparr>)"
| run_webrtc: "a < dm_next dm \<Longrightarrow>
    executeWebRTCDeployment (dm_config dm) now polls started ticks (dm_heap dm a, w) = Some (Returns (d, w')) \<Longrightarrow>
    deployment_step dm (dm\<lparr>dm_heap := (dm_heap dm)(a := d)\<rparr>)"
| stop: "UDPDeploymentManager_Stop order (dm, w) = (dm', w') \<Longrightarrow> deployment_step dm dm'"

definition deployment_start :: "UDPDeploymentManager \<Rightarrow> bool" where
  "deployment_start dm \<longleftrightarrow> (\<exists>config memory. dm = NewUDPDeploymentManager config memory)"

definition nothing_current :: "UDPDeploymentManager \<Rightarrow> bool" where
  "nothing_current dm \<longleftrightarrow> (\<forall>name a. dm_services dm name = Some a \<longrightarrow> a < dm_next dm)
     \<and> (\<forall>a < dm_next dm. sd_CurrentTargets (dm_heap dm a) = [] \<and> sd_CurrentAllocations (dm_heap dm a) = [])"

lemma register_nothing_current:
  "nothing_current dm \<Longrightarrow> sd_CurrentTargets d = [] \<Longrightarrow> sd_CurrentAllocations d = [] \<Longrightarrow>
     nothing_current (snd (register d dm))"
  by (auto simp: nothing_current_def register_def Let_def less_Suc_eq split: if_splits)

lemma write_nothing_current:
  "nothing_current dm \<Longrightarrow> sd_CurrentTargets d = [] \<Longrightarrow> sd_CurrentAllocations d = [] \<Longrightarrow>
     nothing_current (dm\<lparr>dm_heap := (dm_heap dm)(a := d)\<rparr>)"
  by (auto simp: nothing_current_def)

lemma execute_keeps_current:
  "executeUDPDeployment config now polls started ticks (d, w) = Some (Returns (d', w')) \<Longrightarrow>
     sd_CurrentTargets d' = sd_CurrentTargets d \<and> sd_CurrentAllocations d' = sd_CurrentAllocations d"
  "executeWebRTCDeployment config now polls started ticks (d, w) = Some (Returns (d', w')) \<Longrightarrow>
     sd_CurrentTargets d' = sd_CurrentTargets d \<and> sd_CurrentAllocations d' = sd_CurrentAllocations d"
  by (auto simp: executeUDPDeployment_def executeWebRTCDeployment_def drain_phase_def Let_def
      split: option.splits bool.splits if_splits prod.splits)

lemma stop_fold_nothing_current:
  "nothing_current dm \<Longrightarrow> set as \<subseteq> {a. a < dm_next dm} \<Longrightarrow> nothing_current (fst (foldl stop_deployment (dm, w) as))"
proof (induction as arbitrary: dm w)
  case (Cons a as)
  obtain dm1 w1 where s: "stop_deployment (dm, w) a = (dm1, w1)" by fastforce
  with Cons.prems have "nothing_current dm1" "dm_next dm1 = dm_next dm"
    by (auto simp: stop_deployment_def nothing_current_def split: if_splits)
  with Cons s show ?case by simp
qed simp

lemma deployment_step_inv: "deployment_step dm dm' \<Longrightarrow> nothing_current dm \<Longrightarrow> nothing_current dm'"
proof (induction rule: deployment_step.induct)
  case (udp dm now name targets policy)
  then show ?case
    unfolding DeployUDPService_def Let_def
    by (intro register_nothing_current) (auto simp: nothing_current_def split: option.splits)
next
  case (webrtc dm now name targets allocations policy)
  then show ?case
    unfolding Deployment_DeployWebRTCService_def Let_def
    by (intro register_nothing_current) (auto simp: nothing_current_def split: option.splits)
next
  case (run_udp a dm now polls started ticks w d w')
  with execute_keeps_current(1) [OF run_udp(2)] show ?case by (auto simp: nothing_current_def)
next
  case (run_webrtc a dm now polls started ticks w d w')
  with execute_keeps_current(2) [OF run_webrtc(2)] show ?case by (auto simp: nothing_current_def)
next
  case (stop order dm w dm' w')
  then have "set (List.map_filter (dm_services dm) order) \<subseteq> {a. a < dm_next dm}"
    by (auto simp: List.map_filter_def nothing_current_def)
  from stop_fold_nothing_current [OF stop(2) this, of w] stop(1) show ?case
    by (simp add: UDPDeploymentManager_Stop_def)
qed

lemma deployment_start_inv: "deployment_start dm \<Longrightarrow> nothing_current dm"
  by (auto simp: deployment_start_def NewUDPDeploymentManager_def nothing_current_def Let_def)

interpretation deploying: kept_invariant deployment_start deployment_step nothing_current
  by unfold_locales (auto intro: deployment_start_inv deployment_step_inv)

text \<open>A zero-downtime deployment changes nothing but its own state. The old targets of a deployment
  are those of the previous deployment of the service, which are never set; so in every reachable
  manager a deployment whose new targets become healthy drains no session, stops no target and frees
  no port, for UDP and for WebRTC services alike.\<close>

theorem zero_downtime_changes_nothing:
  assumes "reach deployment_start deployment_step dm" and "dm_services dm name = Some a"
    and "healthCheckTargets (now + uc_HealthCheckTimeout config) polls (sd_NewTargets (dm_heap dm a)) = Some True"
  shows "executeUDPDeployment config now polls started ticks (dm_heap dm a, w) =
      Some (Returns ((dm_heap dm a)\<lparr>sd_State := DeploymentStateCompleted\<rparr>, w))
    \<and> executeWebRTCDeployment config now polls started ticks (dm_heap dm a, w) =
      Some (Returns ((dm_heap dm a)\<lparr>sd_State := DeploymentStateCompleted\<rparr>, w))"
proof -
  from deploying.reach_inv [OF assms(1)] assms(2)
  have "sd_CurrentTargets (dm_heap dm a) = []" "sd_CurrentAllocations (dm_heap dm a) = []"
    by (auto simp: nothing_current_def)
  with assms(3) show ?thesis
    by (simp add: executeUDPDeployment_def executeWebRTCDeployment_def drain_phase_def switchTrafficToNewTargets_def
        switchWebRTCTrafficToNewTargets_def drain_targets_def cleanupOldAllocations_def Let_def)
qed

subsection \<open>Examples\<close>

definition ex_policy :: SessionDrainPolicy where
  "ex_policy = \<lparr>dp_Strategy = ''graceful'', dp_GracePeriod = 0, dp_MaxWaitTime = 0, dp_NotifyClients = False\<rparr>"

definition ex_world :: UdpWorld where
  "ex_world = \<lparr>w_targets = ex_heap, w_sessions = ex_sm1, w_ports = NewPortAllocator ex_ports\<rparr>"

definition ex_deployment :: UDPServiceDeployment where
  "ex_deployment = \<lparr>sd_ServiceName = ''game'', sd_ServiceType = ''udp'', sd_CurrentTargets = [0], sd_NewTargets = [1],
     sd_State = DeploymentStateRouting, sd_StartedAt = 0, sd_DrainStartedAt = 0, sd_CurrentAllocations = [],
     sd_NewAllocations = [], sd_DrainPolicy = ex_policy\<rparr>"

definition ex_deployment_config :: UDPDeploymentConfig where
  "ex_deployment_config = \<lparr>uc_DrainTimeout = 0, uc_HealthCheckTimeout = 0, uc_ForceKillTimeout = 0, uc_SessionCheckInterval = 0\<rparr>"

definition ex_dm :: UDPDeploymentManager where
  "ex_dm = snd (DeployUDPService 0 ''game'' [1] ex_policy (NewUDPDeploymentManager ex_deployment_config (\<lambda>_. ex_deployment)))"

lemma ex_dm_reached: "reach deployment_start deployment_step ex_dm"
proof -
  have "reach deployment_start deployment_step (NewUDPDeploymentManager ex_deployment_config (\<lambda>_. ex_deployment))"
    by (rule reach_start) (auto simp: deployment_start_def)
  then show ?thesis unfolding ex_dm_def by (rule reach_step) (rule deployment_step.udp)
qed

theorem drain_ends_at_first_tick_witness:
  "drain_loop 100 [(1, [ex_id], \<lambda>w. w)] ex_deployment (switchTrafficToNewTargets ex_deployment ex_world)
      = Some (switchTrafficToNewTargets ex_deployment ex_world)
   \<and> sn_sessions (w_sessions (switchTrafficToNewTargets ex_deployment ex_world)) ex_id
      = Some (ex_session\<lparr>se_State := SessionStateDraining\<rparr>)"
  using drain_ends_at_first_tick [of 100 1 "[ex_id]" "[]" ex_deployment ex_world ex_id ex_session]
  by (simp add: ex_world_def ex_deployment_def ex_session_def new_session_def is_active_def ex_heap_def)

theorem zero_downtime_changes_nothing_witness:
  "\<exists>d. executeUDPDeployment ex_deployment_config 0 [(-1, ex_heap)] 0 [] (d, ex_world) =
     Some (Returns (d\<lparr>sd_State := DeploymentStateCompleted\<rparr>, ex_world)) \<and> sd_NewTargets d = [1]"
proof -
  have a: "dm_services ex_dm ''game'' = Some 0" "sd_NewTargets (dm_heap ex_dm 0) = [1]"
    by (simp_all add: ex_dm_def DeployUDPService_def register_def NewUDPDeploymentManager_def Let_def)
  have "healthCheckTargets (0 + uc_HealthCheckTimeout ex_deployment_config) [(-1, ex_heap)] (sd_NewTargets (dm_heap ex_dm 0)) = Some True"
    by (simp add: ex_deployment_config_def ex_heap_def a)
  from zero_downtime_changes_nothing [OF ex_dm_reached a(1) this, of 0 "[]" ex_world] a(2) show ?thesis by blast
qed

end
