(* ===== verification/UdpServices.thy ===== *)
theory UdpServices
  imports UdpDeployment
begin

section \<open>The UDP service map and server\<close>

text \<open>
  Models \<open>internal/server/udp_service_map.go\<close> and the routing of \<open>udp_server.go\<close>: services on a port,
  WebRTC services that are found through the ports allocated to them, their deployment, replacement and
  removal, and what happens to a packet. Name resolution, the outcome of opening sockets and the ports
  that can be bound are an environment; loops over maps take their order as an argument.
\<close>

subsection \<open>Data\<close>

record UDPService =
  uv_name :: string
  uv_port :: int
  uv_portRanges :: "PortRange list"
  uv_targets :: "nat list"
  uv_currentTarget :: nat
  uv_sessionConfig :: SessionConfig
  uv_serviceType :: string
  uv_allocations :: "nat list"

record UDPServiceMap = UdpWorld +
  um_services :: "int \<rightharpoonup> UDPService"
  um_portServices :: "string \<rightharpoonup> UDPService"
  um_deploymentManager :: UDPDeploymentManager
  um_nextTarget :: nat

text \<open>The map extends the world of the deployments: the heap of targets, the session manager and the
  port allocator.\<close>

record UdpEnv =
  ue_resolve :: "string \<rightharpoonup> string"
  ue_listens :: "string \<Rightarrow> bool"
  ue_probe :: ports
  ue_bindable :: ports
  ue_now :: instant
  ue_order :: "PortAllocator \<Rightarrow> int list"

definition DefaultSessionTimeout :: int where
  "DefaultSessionTimeout = 60"

definition default_session_config :: SessionConfig where
  "default_session_config = \<lparr>sc_IdleTimeout = seconds DefaultSessionTimeout,
     sc_CleanupInterval = seconds DefaultCleanupInterval, sc_StickinessEnabled = True,
     sc_StickinessStrategy = ''5-tuple'', sc_MaxSessions = 0, sc_PersistenceEnabled = False, sc_StorePath = []\<rparr>"

definition map_port_config :: PortConfig where
  "map_port_config = \<lparr>pc_RTPPortRange = \<lparr>pr_Start = 10000, pr_End = 20000, pr_Step = 2\<rparr>,
     pc_RTCPPortRange = \<lparr>pr_Start = 20001, pr_End = 30000, pr_Step = 1\<rparr>,
     pc_AllocationTTL = seconds DefaultPortAllocationTTL, pc_RTCPPolicy = ''adjacent'',
     pc_CleanupInterval = seconds DefaultCleanupInterval\<rparr>"

definition map_deployment_config :: UDPDeploymentConfig where
  "map_deployment_config = \<lparr>uc_DrainTimeout = DefaultDrainTimeout, uc_HealthCheckTimeout = DefaultHealthCheckTimeout,
     uc_ForceKillTimeout = seconds DefaultForceKillTimeout,
     uc_SessionCheckInterval = seconds DefaultSessionCheckInterval\<rparr>"

definition NewUDPServiceMap ::
  "string list \<Rightarrow> instant \<Rightarrow> FileSessionStore \<Rightarrow> string \<Rightarrow> (nat \<Rightarrow> UDPTarget) \<Rightarrow> (nat \<Rightarrow> UDPServiceDeployment) \<Rightarrow> UDPServiceMap" where
  "NewUDPServiceMap files now fs storePath targets memory =
     \<lparr>w_targets = targets,
      w_sessions = NewSessionManager files now fs
        (default_session_config\<lparr>sc_MaxSessions := 10000, sc_PersistenceEnabled := True, sc_StorePath := storePath\<rparr>),
      w_ports = NewPortAllocator map_port_config,
      um_services = Map.empty, um_portServices = Map.empty,
      um_deploymentManager = NewUDPDeploymentManager map_deployment_config memory, um_nextTarget = 0\<rparr>"

subsection \<open>Targets of a deployment\<close>

text \<open>\<open>NewUDPTarget\<close> and \<open>Start\<close> for one URL; the started target gets a new address.\<close>

definition start_target :: "UdpEnv \<Rightarrow> string \<Rightarrow> UDPServiceMap \<Rightarrow> (udp_error + nat) \<times> UDPServiceMap" where
  "start_target env url m =
     (case NewUDPTarget (ue_resolve env) url of
        Inl _ \<Rightarrow> (Inl (TargetCreateFailed url), m)
      | Inr target \<Rightarrow>
          (case UDPTarget_Start (ue_listens env url) target of
             (Some _, _) \<Rightarrow> (Inl (TargetStartFailed url), m)
           | (None, t) \<Rightarrow>
               (let a = um_nextTarget m
                in (Inr a, m\<lparr>w_targets := (w_targets m)(a := t), um_nextTarget := a + 1\<rparr>))))"

fun start_targets :: "UdpEnv \<Rightarrow> string list \<Rightarrow> UDPServiceMap \<Rightarrow> (udp_error + nat list) \<times> UDPServiceMap" where
  "start_targets env [] m = (Inr [], m)"
| "start_targets env (url # urls) m =
     (case start_target env url m of
        (Inl err, m1) \<Rightarrow> (Inl err, m1)
      | (Inr a, m1) \<Rightarrow>
          (case start_targets env urls m1 of
             (Inl err, m2) \<Rightarrow> (Inl err, m2)
           | (Inr as, m2) \<Rightarrow> (Inr (a # as), m2)))"

text \<open>\<open>Stop\<close> of a service: its targets, one after the other.\<close>

fun stop_targets :: "nat list \<Rightarrow> UDPServiceMap \<Rightarrow> UDPServiceMap outcome" where
  "stop_targets [] m = Returns m"
| "stop_targets (t # ts) m =
     bind_outcome (UDPTarget_Stop (w_targets m t))
       (\<lambda>stopped. stop_targets ts (m\<lparr>w_targets := (w_targets m)(t := stopped)\<rparr>))"

definition emptied :: "UDPService \<Rightarrow> UDPService" where
  "emptied s = s\<lparr>uv_targets := [], uv_allocations := []\<rparr>"

definition UDPService_Stop :: "UDPService \<Rightarrow> UDPServiceMap \<Rightarrow> (UDPService \<times> UDPServiceMap) outcome" where
  "UDPService_Stop s m =
     bind_outcome (stop_targets (uv_targets s) m) (\<lambda>m1. Returns (emptied s, m1))"

subsection \<open>Deployment and removal\<close>

definition UDP_DeployService ::
  "UdpEnv \<Rightarrow> string \<Rightarrow> int \<Rightarrow> string list \<Rightarrow> SessionConfig option \<Rightarrow> UDPServiceMap \<Rightarrow> (udp_error option \<times> UDPServiceMap) outcome" where
  "UDP_DeployService env serviceName port targetURLs sessionConfig m =
     (let config = (case sessionConfig of None \<Rightarrow> default_session_config | Some c \<Rightarrow> c)
      in case start_targets env targetURLs m of
           (Inl err, m1) \<Rightarrow> Returns (Some err, m1)
         | (Inr ts, m1) \<Rightarrow>
             (let service = \<lparr>uv_name = serviceName, uv_port = port, uv_portRanges = [], uv_targets = ts, uv_currentTarget = 0,
                    uv_sessionConfig = config, uv_serviceType = ''udp'', uv_allocations = []\<rparr>
              in bind_outcome
                   (case um_services m1 port of
                      None \<Rightarrow> Returns m1
                    | Some existing \<Rightarrow> bind_outcome (UDPService_Stop existing m1) (\<lambda>(_, m2). Returns m2))
                   (\<lambda>m3. Returns (None, m3\<lparr>um_services := (um_services m3)(port \<mapsto> service)\<rparr>))))"

text \<open>The loop of \<open>DeployWebRTCService\<close>: start a target, then try to allocate a pair for it.\<close>

fun webrtc_targets ::
  "UdpEnv \<Rightarrow> string \<Rightarrow> string list \<Rightarrow> UDPServiceMap \<Rightarrow> (udp_error + nat list \<times> nat list) \<times> UDPServiceMap" where
  "webrtc_targets env serviceName [] m = (Inr ([], []), m)"
| "webrtc_targets env serviceName (url # urls) m =
     (case start_target env url m of
        (Inl err, m1) \<Rightarrow> (Inl err, m1)
      | (Inr t, m1) \<Rightarrow>
          (let (res, pa) = AllocateRTPRTCPPair (ue_probe env) (ue_bindable env) (ue_now env) serviceName t (w_ports m1)
           in case webrtc_targets env serviceName urls (m1\<lparr>w_ports := pa\<rparr>) of
                (Inl err, m2) \<Rightarrow> (Inl err, m2)
              | (Inr (ts, as), m2) \<Rightarrow>
                  (Inr (t # ts, (case res of Inl _ \<Rightarrow> as | Inr a \<Rightarrow> a # as)), m2)))"

definition UDP_DeployWebRTCService ::
  "UdpEnv \<Rightarrow> string \<Rightarrow> string list \<Rightarrow> PortRange list \<Rightarrow> SessionConfig option \<Rightarrow> UDPServiceMap \<Rightarrow>
     (udp_error option \<times> UDPServiceMap) outcome" where
  "UDP_DeployWebRTCService env serviceName targetURLs portRanges sessionConfig m =
     (let config = (case sessionConfig of None \<Rightarrow> default_session_config | Some c \<Rightarrow> c)
      in case webrtc_targets env serviceName targetURLs m of
           (Inl err, m1) \<Rightarrow> Returns (Some err, m1)
         | (Inr (ts, as), m1) \<Rightarrow>
             if length as = 0 then Returns (Some (NoPortsAllocated serviceName), m1)
             else
               (let service = \<lparr>uv_name = serviceName, uv_port = 0, uv_portRanges = portRanges, uv_targets = ts,
                      uv_currentTarget = 0, uv_sessionConfig = config, uv_serviceType = ''webrtc'', uv_allocations = as\<rparr>
                in bind_outcome
                     (case um_portServices m1 serviceName of
                        None \<Rightarrow> Returns m1
                      | Some existing \<Rightarrow>
                          bind_outcome (UDPService_Stop existing m1) (\<lambda>(_, m2).
                            bind_outcome (DeallocateService (ue_order env (w_ports m2)) serviceName (w_ports m2)) (\<lambda>pa.
                              Returns (m2\<lparr>w_ports := pa\<rparr>))))
                     (\<lambda>m3. Returns (None, m3\<lparr>um_portServices := (um_portServices m3)(serviceName \<mapsto> service)\<rparr>))))"

definition DeployServiceZeroDowntime ::
  "UdpEnv \<Rightarrow> string \<Rightarrow> int \<Rightarrow> string list \<Rightarrow> SessionDrainPolicy \<Rightarrow> UDPServiceMap \<Rightarrow> udp_error option \<times> UDPServiceMap" where
  "DeployServiceZeroDowntime env serviceName port targetURLs drainPolicy m =
     (case start_targets env targetURLs m of
        (Inl err, m1) \<Rightarrow> (Some err, m1)
      | (Inr ts, m1) \<Rightarrow>
          (None, m1\<lparr>um_deploymentManager := snd (DeployUDPService (ue_now env) serviceName ts drainPolicy (um_deploymentManager m1))\<rparr>))"

text \<open>The pairs for a zero-downtime WebRTC deployment; the first failure undoes the ones before it.\<close>

fun allocate_pairs ::
  "UdpEnv \<Rightarrow> string \<Rightarrow> nat list \<Rightarrow> nat list \<Rightarrow> PortAllocator \<Rightarrow> (nat + nat list) \<times> nat list \<times> PortAllocator" where
  "allocate_pairs env serviceName [] got pa = (Inr (rev got), rev got, pa)"
| "allocate_pairs env serviceName (t # ts) got pa =
     (case AllocateRTPRTCPPair (ue_probe env) (ue_bindable env) (ue_now env) serviceName t pa of
        (Inl _, pa1) \<Rightarrow> (Inl t, rev got, pa1)
      | (Inr a, pa1) \<Rightarrow> allocate_pairs env serviceName ts (a # got) pa1)"

definition DeployWebRTCServiceZeroDowntime ::
  "UdpEnv \<Rightarrow> string \<Rightarrow> string list \<Rightarrow> SessionDrainPolicy \<Rightarrow> UDPServiceMap \<Rightarrow> (udp_error option \<times> UDPServiceMap) outcome" where
  "DeployWebRTCServiceZeroDowntime env serviceName targetURLs drainPolicy m =
     (case start_targets env targetURLs m of
        (Inl err, m1) \<Rightarrow> Returns (Some err, m1)
      | (Inr ts, m1) \<Rightarrow>
          (case allocate_pairs env serviceName ts [] (w_ports m1) of
             (Inl failed, got, pa) \<Rightarrow>
               bind_outcome (stop_targets ts (m1\<lparr>w_ports := pa\<rparr>)) (\<lambda>m2.
                 Returns (Some (PairAllocationFailed (ut_url (w_targets m2 failed))),
                   m2\<lparr>w_ports := foldl (\<lambda>q a. snd (DeallocatePort (al_RTPPort (pa_heap q a)) q)) (w_ports m2) got\<rparr>))
           | (Inr as, _, pa) \<Rightarrow>
               Returns (None, m1\<lparr>w_ports := pa, um_deploymentManager :=
                 snd (Deployment_DeployWebRTCService (ue_now env) serviceName ts as drainPolicy (um_deploymentManager m1))\<rparr>)))"

definition UDP_RemoveService :: "int \<Rightarrow> UDPServiceMap \<Rightarrow> (udp_error option \<times> UDPServiceMap) outcome" where
  "UDP_RemoveService port m =
     (case um_services m port of
        None \<Rightarrow> Returns (Some (NoServiceOnPort port), m)
      | Some service \<Rightarrow>
          bind_outcome (UDPService_Stop service m)
            (\<lambda>(_, m1). Returns (None, m1\<lparr>um_services := (um_services m1)(port := None)\<rparr>)))"

subsection \<open>Routing packets\<close>

definition ServiceForPort :: "int \<Rightarrow> UDPServiceMap \<Rightarrow> UDPService option" where
  "ServiceForPort port m =
     (case um_services m port of
        Some service \<Rightarrow> Some service
      | None \<Rightarrow>
          (case GetAllocation port (w_ports m) of
             None \<Rightarrow> None
           | Some allocation \<Rightarrow> um_portServices m (al_ServiceName allocation)))"

definition ServeUDP ::
  "instant \<Rightarrow> (nat \<Rightarrow> bool) \<Rightarrow> string \<times> int \<Rightarrow> UDPService \<Rightarrow> UDPServiceMap \<Rightarrow> udp_error option \<times> UDPServiceMap" where
  "ServeUDP now written addr s m =
     (case RoutePacket now (w_targets m) addr (uv_port s) (uv_name s) (uv_targets s) (w_sessions m) of
        (Inl err, sm) \<Rightarrow> (Some err, m\<lparr>w_sessions := sm\<rparr>)
      | (Inr (target, _), sm) \<Rightarrow> (ForwardPacket (written target) (w_targets m target), m\<lparr>w_sessions := sm\<rparr>))"

text \<open>\<open>routePacket\<close> of the UDP server, whose only listener is on the configured port.\<close>

definition routePacket ::
  "instant \<Rightarrow> (nat \<Rightarrow> bool) \<Rightarrow> int \<Rightarrow> string \<times> int \<Rightarrow> UDPServiceMap \<Rightarrow> udp_error option \<times> UDPServiceMap" where
  "routePacket now written udpPort addr m =
     (case ServiceForPort udpPort m of
        None \<Rightarrow> (None, m)
      | Some service \<Rightarrow> ServeUDP now written addr service m)"

definition UDPService_selectTarget :: "UDPServiceMap \<Rightarrow> UDPService \<Rightarrow> nat option \<times> UDPService" where
  "UDPService_selectTarget m s =
     (if length (uv_targets s) = 0 then (None, s)
      else (let healthyTargets = filter (\<lambda>t. ut_healthy (w_targets m t)) (uv_targets s)
            in if length healthyTargets = 0 then (None, s)
               else (Some (healthyTargets ! (uv_currentTarget s mod length healthyTargets)),
                     s\<lparr>uv_currentTarget := uv_currentTarget s + 1\<rparr>)))"

definition TargetCount :: "UDPService \<Rightarrow> nat" where
  "TargetCount s = length (uv_targets s)"

definition HealthyTargetCount :: "UDPServiceMap \<Rightarrow> UDPService \<Rightarrow> nat" where
  "HealthyTargetCount m s = length (filter (\<lambda>t. ut_healthy (w_targets m t)) (uv_targets s))"

subsection \<open>Shutdown and listings\<close>

fun stop_services :: "UDPService list \<Rightarrow> UDPServiceMap \<Rightarrow> UDPServiceMap outcome" where
  "stop_services [] m = Returns m"
| "stop_services (s # ss) m = bind_outcome (UDPService_Stop s m) (\<lambda>(_, m1). stop_services ss m1)"

definition UDPServiceMap_Stop ::
  "int list \<Rightarrow> string list \<Rightarrow> string list \<Rightarrow> string list \<Rightarrow> UDPServiceMap \<Rightarrow> UDPServiceMap outcome" where
  "UDPServiceMap_Stop ports names deployments sessions m =
     bind_outcome (stop_services (List.map_filter (um_services m) ports) m) (\<lambda>m1.
     bind_outcome (stop_services (List.map_filter (um_portServices m1) names) m1) (\<lambda>m2.
       let (dm, w) = UDPDeploymentManager_Stop deployments (um_deploymentManager m2, UdpWorld.truncate m2)
       in bind_outcome (PortAllocator_Stop (w_ports w)) (\<lambda>pa.
          bind_outcome (SessionManager_Stop sessions (w_sessions w)) (\<lambda>sm.
            Returns (m2\<lparr>um_deploymentManager := dm, w_ports := pa, w_sessions := sm,
              um_services := (\<lambda>p. map_option emptied (um_services m2 p)),
              um_portServices := (\<lambda>n. map_option emptied (um_portServices m2 n))\<rparr>)))))"

definition allocation_text :: "PortAllocation \<Rightarrow> string" where
  "allocation_text al =
     (if al_RTCPPort al > 0 then ''RTP:'' @ FormatInt (al_RTPPort al) @ '',RTCP:'' @ FormatInt (al_RTCPPort al)
      else ''UDP:'' @ FormatInt (al_RTPPort al))"

definition ListAllServices :: "UDPServiceMap \<Rightarrow> (int \<rightharpoonup> string) \<times> (string \<rightharpoonup> string list)" where
  "ListAllServices m =
     (\<lambda>port. map_option uv_name (um_services m port),
      \<lambda>name. map_option (\<lambda>s. map (\<lambda>a. allocation_text (pa_heap (w_ports m) a)) (uv_allocations s)) (um_portServices m name))"

record SessionStats =
  ss_udp_services :: nat
  ss_webrtc_services :: nat
  ss_active_sessions :: nat
  ss_ports :: PortStats
  ss_deployments :: DeploymentStats

text \<open>The keys of the three merged tables are different, so the merge loses nothing. The lists are the keys
  of the maps in the order of their loops.\<close>

definition GetSessionStats :: "string list \<Rightarrow> int list \<Rightarrow> string list \<Rightarrow> UDPServiceMap \<Rightarrow> SessionStats" where
  "GetSessionStats sessions ports deployments m =
     \<lparr>ss_udp_services = card (dom (um_services m)), ss_webrtc_services = card (dom (um_portServices m)),
      ss_active_sessions = GetActiveSessionCount sessions (w_sessions m), ss_ports = GetStats ports (w_ports m),
      ss_deployments = GetDeploymentStats deployments (um_deploymentManager m)\<rparr>"

definition ListServices :: "UDPServiceMap \<Rightarrow> int \<rightharpoonup> UDPService" where
  "ListServices m = um_services m"

text \<open>The order in which a loop over the port table runs lists its keys.\<close>

definition env_ok :: "UdpEnv \<Rightarrow> bool" where
  "env_ok env \<longleftrightarrow> (\<forall>pa. finite (dom (pa_allocated pa)) \<longrightarrow>
     distinct (ue_order env pa) \<and> set (ue_order env pa) = dom (pa_allocated pa))"

subsection \<open>Starting and stopping targets\<close>

text \<open>What starting targets leaves alone, and what it adds: new addresses with targets that are not stopped.\<close>

definition grows :: "UDPServiceMap \<Rightarrow> UDPServiceMap \<Rightarrow> bool" where
  "grows m m' \<longleftrightarrow> um_services m' = um_services m \<and> um_portServices m' = um_portServices m
     \<and> w_sessions m' = w_sessions m \<and> um_deploymentManager m' = um_deploymentManager m
     \<and> um_nextTarget m \<le> um_nextTarget m' \<and> (\<forall>t < um_nextTarget m. w_targets m' t = w_targets m t)
     \<and> (\<forall>t. um_nextTarget m \<le> t \<and> t < um_nextTarget m' \<longrightarrow> \<not> ut_stop (w_targets m' t) \<and> ut_conn (w_targets m' t))"

lemma grows_refl [simp]: "grows m m"
  by (auto simp: grows_def)

lemma grows_trans:
  assumes "grows m1 m2" "grows m2 m3"
  shows "grows m1 m3"
proof -
  have "\<not> ut_stop (w_targets m3 t) \<and> ut_conn (w_targets m3 t)" if "um_nextTarget m1 \<le> t" "t < um_nextTarget m3" for t
    using assms that by (cases "t < um_nextTarget m2") (auto simp: grows_def)
  with assms show ?thesis by (auto simp: grows_def)
qed

lemma grows_ports [simp]: "grows m (m'\<lparr>w_ports := pa\<rparr>) = grows m m'" "grows (m\<lparr>w_ports := pa\<rparr>) m' = grows m m'"
  by (simp_all add: grows_def)

lemma start_target_cases:
  assumes "start_target env url m = (res, m')"
  shows "grows m m' \<and> w_ports m' = w_ports m
    \<and> (case res of Inl _ \<Rightarrow> m' = m | Inr a \<Rightarrow> a = um_nextTarget m \<and> um_nextTarget m' = a + 1)"
  using assms
  by (auto simp: start_target_def NewUDPTarget_def UDPTarget_Start_def grows_def Let_def split: option.splits if_splits)

lemma start_targets_cases:
  "start_targets env urls m = (res, m') \<Longrightarrow>
     grows m m' \<and> w_ports m' = w_ports m
     \<and> (case res of Inl _ \<Rightarrow> True | Inr ts \<Rightarrow> ts = [um_nextTarget m..<um_nextTarget m'] \<and> length ts = length urls)"
proof (induction urls arbitrary: m m' res)
  case Nil
  then show ?case by auto
next
  case (Cons url urls)
  obtain r1 m1 where s1: "start_target env url m = (r1, m1)" by fastforce
  note c1 = start_target_cases [OF s1]
  show ?case
  proof (cases r1)
    case (Inl e)
    with s1 c1 Cons.prems show ?thesis by auto
  next
    case (Inr a)
    obtain r2 m2 where s2: "start_targets env urls m1 = (r2, m2)" by fastforce
    note c2 = Cons.IH [OF s2]
    from Inr s1 s2 Cons.prems have m': "m' = m2" "res = (case r2 of Inl e \<Rightarrow> Inl e | Inr as \<Rightarrow> Inr (a # as))"
      by (auto split: sum.splits)
    have n: "um_nextTarget m < um_nextTarget m2" using c1 c2 Inr by (auto simp: grows_def)
    have "a # [um_nextTarget m1..<um_nextTarget m2] = [um_nextTarget m..<um_nextTarget m2]"
      using c1 Inr n by (simp add: upt_conv_Cons)
    with c1 c2 m' Inr show ?thesis using grows_trans [of m m1 m2] by (auto split: sum.splits)
  qed
qed

definition stopped_target :: "UDPTarget \<Rightarrow> UDPTarget" where
  "stopped_target t = t\<lparr>ut_conn := False, ut_stop := True, ut_stopped := True\<rparr>"

lemma stop_targets_stops:
  "distinct ts \<Longrightarrow> \<forall>t \<in> set ts. \<not> ut_stop (w_targets m t) \<Longrightarrow>
     stop_targets ts m = Returns (m\<lparr>w_targets := (\<lambda>t. if t \<in> set ts then stopped_target (w_targets m t) else w_targets m t)\<rparr>)"
proof (induction ts arbitrary: m)
  case (Cons t ts)
  let ?m = "m\<lparr>w_targets := (w_targets m)(t := stopped_target (w_targets m t))\<rparr>"
  have "stop_targets (t # ts) m = stop_targets ts ?m"
    using Cons.prems by (simp add: UDPTarget_Stop_def stopped_target_def)
  also have "\<dots> = Returns (?m\<lparr>w_targets := (\<lambda>u. if u \<in> set ts then stopped_target (w_targets ?m u) else w_targets ?m u)\<rparr>)"
    using Cons.prems by (intro Cons.IH) auto
  also have "?m\<lparr>w_targets := (\<lambda>u. if u \<in> set ts then stopped_target (w_targets ?m u) else w_targets ?m u)\<rparr>
      = m\<lparr>w_targets := (\<lambda>u. if u \<in> set (t # ts) then stopped_target (w_targets m u) else w_targets m u)\<rparr>"
    using Cons.prems(1) by (auto simp: fun_eq_iff)
  finally show ?case .
qed simp

subsection \<open>No target is stopped twice\<close>

datatype slot = OnPort int | Named string

fun slot_service :: "UDPServiceMap \<Rightarrow> slot \<Rightarrow> UDPService option" where
  "slot_service m (OnPort p) = um_services m p"
| "slot_service m (Named n) = um_portServices m n"

definition slot_targets :: "UDPServiceMap \<Rightarrow> slot \<Rightarrow> nat set" where
  "slot_targets m k = (case slot_service m k of None \<Rightarrow> {} | Some s \<Rightarrow> set (uv_targets s))"

text \<open>Every service has its own targets, and they are running.\<close>

definition udp_ok :: "UDPServiceMap \<Rightarrow> bool" where
  "udp_ok m \<longleftrightarrow> (\<forall>k s. slot_service m k = Some s \<longrightarrow> distinct (uv_targets s))
     \<and> (\<forall>k. \<forall>t \<in> slot_targets m k. t < um_nextTarget m \<and> \<not> ut_stop (w_targets m t))
     \<and> (\<forall>k k'. k \<noteq> k' \<longrightarrow> slot_targets m k \<inter> slot_targets m k' = {})
     \<and> ports_ok (w_ports m)"

lemma grows_slots: "grows m m' \<Longrightarrow> slot_service m' k = slot_service m k"
  by (cases k) (simp_all add: grows_def)

lemma grows_slot_targets: "grows m m' \<Longrightarrow> slot_targets m' k = slot_targets m k"
  by (simp add: slot_targets_def grows_slots)

lemma grows_ok: "udp_ok m \<Longrightarrow> grows m m' \<Longrightarrow> ports_ok (w_ports m') \<Longrightarrow> udp_ok m'"
  unfolding udp_ok_def slot_targets_def grows_slots by (fastforce simp: grows_def)

text \<open>Stopping the service of a slot, and putting a service with new targets there.\<close>

definition stop_slot :: "slot \<Rightarrow> UDPServiceMap \<Rightarrow> UDPServiceMap" where
  "stop_slot k m = m\<lparr>w_targets := (\<lambda>t. if t \<in> slot_targets m k then stopped_target (w_targets m t) else w_targets m t)\<rparr>"

lemma UDPService_Stop_slot:
  assumes "udp_ok m" "slot_service m k = Some s"
  shows "UDPService_Stop s m = Returns (emptied s, stop_slot k m)"
proof -
  from assms have "distinct (uv_targets s)" "slot_targets m k = set (uv_targets s)"
    by (auto simp: udp_ok_def slot_targets_def)
  moreover from this assms(1) have "\<forall>t \<in> set (uv_targets s). \<not> ut_stop (w_targets m t)" by (metis udp_ok_def)
  ultimately show ?thesis by (simp add: UDPService_Stop_def stop_targets_stops stop_slot_def)
qed

lemma stop_slot_fields [simp]:
  "slot_service (stop_slot k m) k' = slot_service m k'" "w_ports (stop_slot k m) = w_ports m"
  "w_sessions (stop_slot k m) = w_sessions m" "um_nextTarget (stop_slot k m) = um_nextTarget m"
  "um_services (stop_slot k m) = um_services m" "um_portServices (stop_slot k m) = um_portServices m"
  "um_deploymentManager (stop_slot k m) = um_deploymentManager m"
  by (cases k', simp_all add: stop_slot_def)+

text \<open>After the slot's service was stopped, the slot may get any service whose targets no slot uses.\<close>

lemma replace_slot_ok:
  assumes ok: "udp_ok m" and sl: "\<And>k'. slot_service m' k' = (if k' = k then new else slot_service m k')"
    and T: "\<And>t. t \<notin> slot_targets m k \<Longrightarrow> w_targets m' t = w_targets m t" and n: "um_nextTarget m' = um_nextTarget m"
    and p: "ports_ok (w_ports m')"
    and new: "\<And>s. new = Some s \<Longrightarrow> distinct (uv_targets s)
      \<and> (\<forall>t \<in> set (uv_targets s). t < um_nextTarget m \<and> \<not> ut_stop (w_targets m t) \<and> (\<forall>k. t \<notin> slot_targets m k))"
  shows "udp_ok m'"
proof -
  have st: "slot_targets m' k' = (if k' = k then (case new of None \<Rightarrow> {} | Some s \<Rightarrow> set (uv_targets s)) else slot_targets m k')" for k'
    by (simp add: slot_targets_def sl)
  have "t < um_nextTarget m' \<and> \<not> ut_stop (w_targets m' t)" if "t \<in> slot_targets m' k'" for k' t
  proof (cases "k' = k")
    case True
    with that st obtain s where "new = Some s" "t \<in> set (uv_targets s)" by (auto split: option.splits)
    with new T n show ?thesis by simp
  next
    case False
    with that st have t: "t \<in> slot_targets m k'" by simp
    with False ok have "t \<notin> slot_targets m k" unfolding udp_ok_def by blast
    with t ok T n show ?thesis by (auto simp: udp_ok_def)
  qed
  moreover have "slot_targets m' a \<inter> slot_targets m' b = {}" if "a \<noteq> b" for a b
    using that ok new unfolding st udp_ok_def by (auto split: option.splits)
  moreover have "distinct (uv_targets s)" if "slot_service m' k' = Some s" for k' s
    using that ok new by (auto simp: sl udp_ok_def split: if_splits)
  ultimately show ?thesis using p by (simp add: udp_ok_def)
qed

lemma fresh_targets:
  assumes ok: "udp_ok m" and g: "grows m m'" and ts: "ts = [um_nextTarget m..<um_nextTarget m']"
  shows "distinct ts" "\<forall>t \<in> set ts. t < um_nextTarget m' \<and> \<not> ut_stop (w_targets m' t) \<and> (\<forall>k. t \<notin> slot_targets m' k)"
proof -
  have "slot_targets m' k = slot_targets m k" for k by (rule grows_slot_targets [OF g])
  with ok g ts show "\<forall>t \<in> set ts. t < um_nextTarget m' \<and> \<not> ut_stop (w_targets m' t) \<and> (\<forall>k. t \<notin> slot_targets m' k)"
    by (fastforce simp: udp_ok_def grows_def)
qed (simp add: ts)

lemma UDP_DeployService_cases:
  assumes ok: "udp_ok m"
  shows "\<exists>err m'. UDP_DeployService env name port urls config m = Returns (err, m') \<and> udp_ok m' \<and> w_sessions m' = w_sessions m
    \<and> um_deploymentManager m' = um_deploymentManager m
    \<and> (case err of
         Some e \<Rightarrow> grows m m'
       | None \<Rightarrow> (\<exists>s. um_services m' = (um_services m)(port \<mapsto> s) \<and> uv_name s = name \<and> uv_port s = port
            \<and> uv_targets s = [um_nextTarget m..<um_nextTarget m + length urls])
          \<and> um_portServices m' = um_portServices m
          \<and> (\<forall>t \<in> slot_targets m (OnPort port). w_targets m' t = stopped_target (w_targets m t))
          \<and> (\<forall>t. t < um_nextTarget m \<and> t \<notin> slot_targets m (OnPort port) \<longrightarrow> w_targets m' t = w_targets m t))"
proof -
  obtain res m1 where s: "start_targets env urls m = (res, m1)" by fastforce
  note c = start_targets_cases [OF s]
  then have g: "grows m m1" by blast
  have ok1: "udp_ok m1" using grows_ok [OF ok g] ok c by (simp add: udp_ok_def)
  show ?thesis
  proof (cases res)
    case (Inl e)
    with s c ok1 show ?thesis by (auto simp: UDP_DeployService_def grows_def)
  next
    case (Inr ts)
    let ?k = "OnPort port"
    define new where "new = \<lparr>uv_name = name, uv_port = port, uv_portRanges = [], uv_targets = ts, uv_currentTarget = 0,
        uv_sessionConfig = (case config of None \<Rightarrow> default_session_config | Some c \<Rightarrow> c), uv_serviceType = ''udp'', uv_allocations = []\<rparr>"
    define m2 where "m2 = (case um_services m1 port of None \<Rightarrow> m1 | Some _ \<Rightarrow> stop_slot ?k m1)"
    define m' where "m' = m2\<lparr>um_services := (um_services m2)(port \<mapsto> new)\<rparr>"
    have r: "UDP_DeployService env name port urls config m = Returns (None, m')"
      using s Inr UDPService_Stop_slot [OF ok1, of ?k]
      by (auto simp: UDP_DeployService_def m'_def m2_def new_def Let_def split: option.splits)
    have f: "um_services m2 = um_services m1" "um_portServices m2 = um_portServices m1" "w_ports m2 = w_ports m1"
      "w_sessions m2 = w_sessions m1" "um_nextTarget m2 = um_nextTarget m1"
      "um_deploymentManager m2 = um_deploymentManager m1"
      by (simp_all add: m2_def split: option.split)
    have T: "w_targets m2 t = (if t \<in> slot_targets m1 ?k then stopped_target (w_targets m1 t) else w_targets m1 t)" for t
      by (auto simp: m2_def stop_slot_def slot_targets_def split: option.splits)
    have ts: "ts = [um_nextTarget m..<um_nextTarget m1]" "length ts = length urls"
      using c unfolding Inr sum.case by blast+
    have "slot_service m' k' = (if k' = ?k then Some new else slot_service m1 k')" for k'
      by (cases k') (simp_all add: m'_def f)
    moreover have "distinct ts" "\<forall>t \<in> set ts. t < um_nextTarget m1 \<and> \<not> ut_stop (w_targets m1 t) \<and> (\<forall>k. t \<notin> slot_targets m1 k)"
      using fresh_targets [OF ok g ts(1)] by simp_all
    ultimately have "udp_ok m'"
      using ok1 by (intro replace_slot_ok [OF ok1, of m' ?k "Some new"]) (auto simp: m'_def f T new_def udp_ok_def)
    moreover have "slot_targets m1 ?k = slot_targets m ?k" by (rule grows_slot_targets [OF g])
    moreover from this ok have "\<forall>t \<in> slot_targets m ?k. t < um_nextTarget m" by (auto simp: udp_ok_def)
    moreover from ts g have "um_nextTarget m1 = um_nextTarget m + length urls" by (auto simp: grows_def)
    ultimately show ?thesis
      using r g ts by (intro exI [of _ None] exI [of _ m']) (auto simp: m'_def f T new_def grows_def)
  qed
qed

lemma UDP_RemoveService_cases:
  assumes ok: "udp_ok m"
  shows "\<exists>err m'. UDP_RemoveService port m = Returns (err, m') \<and> udp_ok m'
    \<and> (case um_services m port of
         None \<Rightarrow> err = Some (NoServiceOnPort port) \<and> m' = m
       | Some s \<Rightarrow> err = None \<and> um_services m' = (um_services m)(port := None)
           \<and> (\<forall>t \<in> set (uv_targets s). \<not> ut_conn (w_targets m' t)))"
proof (cases "um_services m port")
  case None
  with ok show ?thesis by (simp add: UDP_RemoveService_def)
next
  case (Some s)
  let ?k = "OnPort port"
  define m' where "m' = (stop_slot ?k m)\<lparr>um_services := (um_services m)(port := None)\<rparr>"
  have r: "UDP_RemoveService port m = Returns (None, m')"
    using Some UDPService_Stop_slot [OF ok, of ?k s] by (simp add: UDP_RemoveService_def m'_def)
  have "slot_service m' k' = (if k' = ?k then None else slot_service m k')" for k'
    by (cases k') (simp_all add: m'_def)
  then have "udp_ok m'"
    using ok by (intro replace_slot_ok [OF ok, of m' ?k None]) (auto simp: m'_def stop_slot_def udp_ok_def)
  moreover have "\<forall>t \<in> set (uv_targets s). \<not> ut_conn (w_targets m' t)"
    using Some by (auto simp: m'_def stop_slot_def slot_targets_def stopped_target_def)
  ultimately show ?thesis using r Some by (simp add: m'_def)
qed

subsection \<open>WebRTC services\<close>

text \<open>Allocations that stay as they are while others are added.\<close>

definition extends :: "PortAllocator \<Rightarrow> PortAllocator \<Rightarrow> bool" where
  "extends pa pa' \<longleftrightarrow> (\<forall>p a. pa_allocated pa p = Some a \<longrightarrow> pa_allocated pa' p = Some a \<and> pa_heap pa' a = pa_heap pa a)"

lemma extends_trans: "extends p1 p2 \<Longrightarrow> extends p2 p3 \<Longrightarrow> extends p1 p3"
  unfolding extends_def by metis

lemma pair_extends:
  assumes "ports_ok pa" "AllocateRTPRTCPPair probe bindable now s t pa = (res, pa')"
  shows "extends pa pa' \<and> ports_ok pa' \<and> (case res of Inl _ \<Rightarrow> pa' = pa
    | Inr a \<Rightarrow> al_ServiceName (pa_heap pa' a) = s \<and> (\<forall>p \<in> owned (pa_heap pa' a). pa_allocated pa' p = Some a))"
proof (cases res)
  case (Inl e)
  with AllocateRTPRTCPPair_cases [OF assms] assms(1) show ?thesis by (simp add: extends_def)
next
  case (Inr a)
  with AllocateRTPRTCPPair_cases [OF assms] have g: "grants pa s t a pa'" by simp
  from assms(1) have tb: "tables_ok pa" by (simp add: ports_ok_def)
  have "pa_allocated pa' p = Some b \<and> pa_heap pa' b = pa_heap pa b" if p: "pa_allocated pa p = Some b" for p b
  proof -
    have "p \<notin> owned (pa_heap pa' a)" using g p unfolding grants_def by blast
    moreover have "b < pa_next pa" using allocatedD(1) [OF tb p] .
    moreover have "pa_allocated pa' = (\<lambda>p. if p \<in> owned (pa_heap pa' a) then Some a else pa_allocated pa p)"
      "pa_heap pa' = (pa_heap pa)(a := pa_heap pa' a)" "a = pa_next pa" using g unfolding grants_def by blast+
    ultimately show ?thesis using p by (metis fun_upd_other less_irrefl)
  qed
  moreover have "al_ServiceName (pa_heap pa' a) = s" "\<forall>p \<in> owned (pa_heap pa' a). pa_allocated pa' p = Some a" "ports_ok pa'"
    using g unfolding grants_def by (blast, metis, blast)
  ultimately show ?thesis using Inr by (simp add: extends_def)
qed

lemma webrtc_targets_cases:
  "webrtc_targets env name urls m = (res, m') \<Longrightarrow> ports_ok (w_ports m) \<Longrightarrow>
     grows m m' \<and> ports_ok (w_ports m') \<and> extends (w_ports m) (w_ports m')
     \<and> (case res of Inl _ \<Rightarrow> True
        | Inr (ts, as) \<Rightarrow> ts = [um_nextTarget m..<um_nextTarget m'] \<and>
            (\<forall>a \<in> set as. al_ServiceName (pa_heap (w_ports m') a) = name
               \<and> (\<forall>p \<in> owned (pa_heap (w_ports m') a). pa_allocated (w_ports m') p = Some a)))"
proof (induction urls arbitrary: m m' res)
  case Nil
  then show ?case by (auto simp: extends_def)
next
  case (Cons url urls)
  obtain r1 m1 where s1: "start_target env url m = (r1, m1)" by fastforce
  note c1 = start_target_cases [OF s1]
  show ?case
  proof (cases r1)
    case (Inl e)
    with s1 c1 Cons.prems show ?thesis by (auto simp: extends_def)
  next
    case (Inr t)
    obtain pr pa where pr: "AllocateRTPRTCPPair (ue_probe env) (ue_bindable env) (ue_now env) name t (w_ports m1) = (pr, pa)"
      by fastforce
    from c1 Cons.prems(2) have "ports_ok (w_ports m1)" by simp
    note x1 = pair_extends [OF this pr]
    obtain r2 m2 where s2: "webrtc_targets env name urls (m1\<lparr>w_ports := pa\<rparr>) = (r2, m2)" by fastforce
    note c2 = Cons.IH [OF s2]
    have x2: "grows m1 m2" "ports_ok (w_ports m2)" "extends pa (w_ports m2)" using c2 x1 by simp_all
    have g: "grows m m2" using grows_trans [of m m1 m2] c1 x2 by blast
    have e: "extends (w_ports m) (w_ports m2)" using c1 x1 x2 extends_trans by metis
    have m': "m' = m2" "res = (case r2 of Inl e \<Rightarrow> Inl e | Inr (ts, as) \<Rightarrow> Inr (t # ts, (case pr of Inl _ \<Rightarrow> as | Inr a \<Rightarrow> a # as)))"
      using Cons.prems(1) s1 Inr pr s2 by (auto split: sum.splits prod.splits)
    show ?thesis
    proof (cases r2)
      case (Inl e')
      with m' g e x2 show ?thesis by simp
    next
      case r2: (Inr p)
      obtain ts as where p: "p = (ts, as)" by fastforce
      have "ts = [um_nextTarget m1..<um_nextTarget m2]" using c2 x1 r2 p by simp
      moreover have "t = um_nextTarget m" "um_nextTarget m1 = t + 1" using c1 Inr by simp_all
      moreover have "um_nextTarget m1 \<le> um_nextTarget m2" using x2(1) by (simp add: grows_def)
      ultimately have ts: "t # ts = [um_nextTarget m..<um_nextTarget m2]" by (simp add: upt_conv_Cons)
      have as: "\<forall>a \<in> set as. al_ServiceName (pa_heap (w_ports m2) a) = name
          \<and> (\<forall>p \<in> owned (pa_heap (w_ports m2) a). pa_allocated (w_ports m2) p = Some a)"
        using c2 x1 r2 p by simp
      have "al_ServiceName (pa_heap (w_ports m2) a) = name
          \<and> (\<forall>p \<in> owned (pa_heap (w_ports m2) a). pa_allocated (w_ports m2) p = Some a)" if "pr = Inr a" for a
      proof -
        have a: "al_ServiceName (pa_heap pa a) = name" "\<forall>p \<in> owned (pa_heap pa a). pa_allocated pa p = Some a"
          using x1 that by simp_all
        have "al_RTPPort (pa_heap pa a) \<in> owned (pa_heap pa a)" by (simp add: owned_def)
        with a(2) x2(3) have "pa_heap (w_ports m2) a = pa_heap pa a" unfolding extends_def by blast
        with a x2(3) show ?thesis unfolding extends_def by metis
      qed
      with as ts m' r2 p g e x2 show ?thesis by (auto split: sum.splits)
    qed
  qed
qed

lemma free_not_held: "ports_ok pa \<Longrightarrow> \<not> held_by P (free_ports {p. held_by P pa p} pa) q"
  by (auto simp: held_by_def split: option.splits if_splits)

lemma UDP_DeployWebRTCService_cases:
  assumes ok: "udp_ok m" and env: "env_ok env"
  shows "\<exists>err m'. UDP_DeployWebRTCService env name urls ranges config m = Returns (err, m') \<and> udp_ok m'
    \<and> w_sessions m' = w_sessions m \<and> um_services m' = um_services m \<and> um_deploymentManager m' = um_deploymentManager m
    \<and> (err = None \<longrightarrow> (\<exists>s. um_portServices m' = (um_portServices m)(name \<mapsto> s) \<and> uv_name s = name \<and> uv_allocations s \<noteq> []
         \<and> (case um_portServices m name of
              None \<Rightarrow> \<forall>a \<in> set (uv_allocations s). al_ServiceName (pa_heap (w_ports m') a) = name
                 \<and> (\<forall>p \<in> owned (pa_heap (w_ports m') a). pa_allocated (w_ports m') p = Some a)
            | Some _ \<Rightarrow> \<forall>p. \<not> held_by (\<lambda>al. al_ServiceName al = name) (w_ports m') p)))"
proof -
  obtain res m1 where s: "webrtc_targets env name urls m = (res, m1)" by fastforce
  from ok have "ports_ok (w_ports m)" by (simp add: udp_ok_def)
  note c = webrtc_targets_cases [OF s this]
  then have g: "grows m m1" and p1: "ports_ok (w_ports m1)" by blast+
  have ok1: "udp_ok m1" by (rule grows_ok [OF ok g p1])
  consider (err) e where "UDP_DeployWebRTCService env name urls ranges config m = Returns (Some e, m1)"
    | (good) ts as where "res = Inr (ts, as)" "as \<noteq> []"
  proof (cases res)
    case (Inl e)
    with s show ?thesis by (intro err) (simp add: UDP_DeployWebRTCService_def)
  next
    case (Inr p)
    with s show ?thesis by (cases p; cases "snd p = []") (auto simp: UDP_DeployWebRTCService_def Let_def intro: err good)
  qed
  then show ?thesis
  proof cases
    case err
    with ok1 g show ?thesis by (auto simp: grows_def)
  next
    case good
    let ?k = "Named name"
    define new where "new = \<lparr>uv_name = name, uv_port = 0, uv_portRanges = ranges, uv_targets = ts, uv_currentTarget = 0,
        uv_sessionConfig = (case config of None \<Rightarrow> default_session_config | Some c \<Rightarrow> c), uv_serviceType = ''webrtc'',
        uv_allocations = as\<rparr>"
    define pa where "pa = (case um_portServices m1 name of None \<Rightarrow> w_ports m1
      | Some _ \<Rightarrow> free_ports {p. held_by (\<lambda>al. al_ServiceName al = name) (w_ports m1) p} (w_ports m1))"
    define m2 where "m2 = (case um_portServices m1 name of None \<Rightarrow> m1 | Some _ \<Rightarrow> stop_slot ?k m1)"
    define m' where "m' = m2\<lparr>w_ports := pa, um_portServices := (um_portServices m2)(name \<mapsto> new)\<rparr>"
    have o: "distinct (ue_order env (w_ports m1))" "set (ue_order env (w_ports m1)) = dom (pa_allocated (w_ports m1))"
      using env p1 by (auto simp: env_ok_def ports_ok_def dest: tables_listeners)
    have r: "UDP_DeployWebRTCService env name urls ranges config m = Returns (None, m')"
      using s good UDPService_Stop_slot [OF ok1, of ?k] DeallocateService_frees [OF p1 o]
      by (auto simp: UDP_DeployWebRTCService_def m'_def m2_def pa_def new_def Let_def split: option.splits)
    have f: "um_services m2 = um_services m1" "um_portServices m2 = um_portServices m1" "w_sessions m2 = w_sessions m1"
      "um_nextTarget m2 = um_nextTarget m1" "um_deploymentManager m2 = um_deploymentManager m1"
      by (simp_all add: m2_def split: option.split)
    have T: "w_targets m2 t = (if t \<in> slot_targets m1 ?k then stopped_target (w_targets m1 t) else w_targets m1 t)" for t
      by (auto simp: m2_def stop_slot_def slot_targets_def split: option.splits)
    have ts: "ts = [um_nextTarget m..<um_nextTarget m1]" using c good by simp
    have pok: "ports_ok pa" using p1 by (auto simp: pa_def intro!: free_ports_ok held_by_whole split: option.split)
    have "slot_service m' k' = (if k' = ?k then Some new else slot_service m1 k')" for k'
      by (cases k') (simp_all add: m'_def f)
    moreover have "distinct ts" "\<forall>t \<in> set ts. t < um_nextTarget m1 \<and> \<not> ut_stop (w_targets m1 t) \<and> (\<forall>k. t \<notin> slot_targets m1 k)"
      using fresh_targets [OF ok g ts] by simp_all
    ultimately have "udp_ok m'"
      using pok by (intro replace_slot_ok [OF ok1, of m' ?k "Some new"]) (auto simp: m'_def f T new_def)
    moreover have "um_portServices m1 = um_portServices m" using g by (simp add: grows_def)
    ultimately show ?thesis
      using r g good c free_not_held [OF p1]
      by (intro exI [of _ None] exI [of _ m']) (auto simp: m'_def f new_def grows_def pa_def split: option.splits)
  qed
qed

subsection \<open>Reachable maps\<close>

definition map_ok :: "UDPServiceMap \<Rightarrow> bool" where
  "map_ok m \<longleftrightarrow> udp_ok m \<and> nothing_current (um_deploymentManager m)"

text \<open>Changes that leave the services alone keep the map in order.\<close>

lemma stop_targets_dm: "stop_targets ts m = Returns m' \<Longrightarrow> um_deploymentManager m' = um_deploymentManager m"
  by (induction ts arbitrary: m) auto

lemma udp_ok_frame:
  assumes "udp_ok m" "um_services m' = um_services m" "um_portServices m' = um_portServices m"
    "um_nextTarget m' = um_nextTarget m" "ports_ok (w_ports m')"
    "\<And>k t. t \<in> slot_targets m k \<Longrightarrow> ut_stop (w_targets m' t) = ut_stop (w_targets m t)"
  shows "udp_ok m'"
proof -
  have sl: "slot_service m' k = slot_service m k" for k using assms(2,3) by (cases k) simp_all
  then have "slot_targets m' k = slot_targets m k" for k by (simp add: slot_targets_def)
  with assms sl show ?thesis by (simp add: udp_ok_def)
qed

lemma map_ok_ports: "map_ok m \<Longrightarrow> ports_ok (w_ports m)"
  by (simp add: map_ok_def udp_ok_def)

lemma map_ok_frame:
  assumes "map_ok m" "um_services m' = um_services m" "um_portServices m' = um_portServices m"
    "um_nextTarget m' = um_nextTarget m" "um_deploymentManager m' = um_deploymentManager m" "ports_ok (w_ports m')"
    "\<And>t. ut_stop (w_targets m' t) = ut_stop (w_targets m t)"
  shows "map_ok m'"
  using assms udp_ok_frame [of m m'] by (simp add: map_ok_def)

lemma DeallocatePort_ok: "ports_ok pa \<Longrightarrow> ports_ok (snd (DeallocatePort p pa))"
  by (cases "DeallocatePort p pa") (metis snd_conv port_step_ok port_step.dealloc)

lemma deallocate_all_ok: "ports_ok pa \<Longrightarrow> ports_ok (foldl (\<lambda>q a. snd (DeallocatePort (al_RTPPort (pa_heap q a)) q)) pa as)"
  by (induction as arbitrary: pa) (simp_all add: DeallocatePort_ok)

lemma DeployServiceZeroDowntime_ok:
  assumes "map_ok m" "DeployServiceZeroDowntime env name port urls policy m = (err, m')"
  shows "map_ok m'" "um_services m' = um_services m" "um_portServices m' = um_portServices m" "w_sessions m' = w_sessions m"
proof -
  obtain res m1 where s: "start_targets env urls m = (res, m1)" by fastforce
  note c = start_targets_cases [OF s]
  then have g: "grows m m1" by blast
  have ok1: "udp_ok m1" using grows_ok [of m m1] assms(1) c by (auto simp: map_ok_def udp_ok_def)
  have dm: "um_deploymentManager m1 = um_deploymentManager m" using g by (simp add: grows_def)
  have m': "m' = m1 \<or> (\<exists>ts. m' = m1\<lparr>um_deploymentManager := snd (DeployUDPService (ue_now env) name ts policy (um_deploymentManager m1))\<rparr>)"
    using assms(2) s by (auto simp: DeployServiceZeroDowntime_def split: sum.splits)
  have p1: "ports_ok (w_ports m1)" using ok1 by (simp add: udp_ok_def)
  from m' have "udp_ok m'"
    by (elim disjE exE) (use ok1 p1 in \<open>auto intro: udp_ok_frame [OF ok1]\<close>)
  moreover from m' dm assms(1) have "nothing_current (um_deploymentManager m')"
    by (auto simp: map_ok_def intro: deployment_step_inv [OF deployment_step.udp])
  ultimately show "map_ok m'" by (simp add: map_ok_def)
  show "um_services m' = um_services m" "um_portServices m' = um_portServices m" "w_sessions m' = w_sessions m"
    using m' g by (auto simp: grows_def)
qed

lemma allocate_pairs_ok:
  "ports_ok pa \<Longrightarrow> allocate_pairs env name ts got pa = (res, got', pa') \<Longrightarrow> ports_ok pa'"
proof (induction ts arbitrary: got pa)
  case (Cons t ts)
  obtain r pa1 where r: "AllocateRTPRTCPPair (ue_probe env) (ue_bindable env) (ue_now env) name t pa = (r, pa1)" by fastforce
  with pair_extends [OF Cons.prems(1) r] Cons show ?case by (cases r) auto
qed simp

lemma DeployWebRTCServiceZeroDowntime_ok:
  assumes ok: "map_ok m"
  shows "\<exists>err m'. DeployWebRTCServiceZeroDowntime env name urls policy m = Returns (err, m') \<and> map_ok m'
    \<and> um_services m' = um_services m \<and> um_portServices m' = um_portServices m \<and> w_sessions m' = w_sessions m"
proof -
  obtain res m1 where s: "start_targets env urls m = (res, m1)" by fastforce
  note c = start_targets_cases [OF s]
  then have g: "grows m m1" and p1: "ports_ok (w_ports m1)" using ok by (auto simp: map_ok_def udp_ok_def)
  have uok: "udp_ok m" using ok by (simp add: map_ok_def)
  have ok1: "udp_ok m1" by (rule grows_ok [OF uok g p1])
  have f: "um_deploymentManager m1 = um_deploymentManager m" "um_services m1 = um_services m"
    "um_portServices m1 = um_portServices m" "w_sessions m1 = w_sessions m" using g by (simp_all add: grows_def)
  show ?thesis
  proof (cases res)
    case (Inl e)
    with s ok1 ok f show ?thesis by (auto simp: DeployWebRTCServiceZeroDowntime_def map_ok_def)
  next
    case (Inr ts)
    obtain pr got pa where pr: "allocate_pairs env name ts [] (w_ports m1) = (pr, got, pa)" by (metis prod_cases3)
    have pok: "ports_ok pa" by (rule allocate_pairs_ok [OF p1 pr])
    have ts: "ts = [um_nextTarget m..<um_nextTarget m1]" using c Inr by simp
    note fr = fresh_targets [OF uok g ts]
    show ?thesis
    proof (cases pr)
      case (Inr as)
      let ?m = "m1\<lparr>w_ports := pa, um_deploymentManager :=
        snd (Deployment_DeployWebRTCService (ue_now env) name ts as policy (um_deploymentManager m1))\<rparr>"
      have "udp_ok ?m" by (rule udp_ok_frame [OF ok1]) (simp_all add: pok)
      moreover have "nothing_current (um_deploymentManager ?m)"
        using ok f by (auto simp: map_ok_def intro: deployment_step_inv [OF deployment_step.webrtc])
      moreover have "DeployWebRTCServiceZeroDowntime env name urls policy m = Returns (None, ?m)"
        using s \<open>res = Inr ts\<close> pr Inr by (simp add: DeployWebRTCServiceZeroDowntime_def)
      ultimately show ?thesis using f by (simp add: map_ok_def)
    next
      case (Inl failed)
      let ?T = "\<lambda>t. if t \<in> set ts then stopped_target (w_targets m1 t) else w_targets m1 t"
      let ?pa = "foldl (\<lambda>q a. snd (DeallocatePort (al_RTPPort (pa_heap q a)) q)) pa got"
      let ?m = "m1\<lparr>w_ports := ?pa, w_targets := ?T\<rparr>"
      have w: "w_targets (m1\<lparr>w_ports := pa\<rparr>) = w_targets m1" by simp
      have "stop_targets ts (m1\<lparr>w_ports := pa\<rparr>) = Returns (m1\<lparr>w_ports := pa, w_targets := ?T\<rparr>)"
        using fr stop_targets_stops [of ts "m1\<lparr>w_ports := pa\<rparr>", unfolded w] by auto
      then have "DeployWebRTCServiceZeroDowntime env name urls policy m = Returns (Some (PairAllocationFailed (ut_url (?T failed))), ?m)"
        using s \<open>res = Inr ts\<close> pr Inl by (simp add: DeployWebRTCServiceZeroDowntime_def)
      moreover have "udp_ok ?m"
        by (rule udp_ok_frame [OF ok1]) (use fr(2) deallocate_all_ok [OF pok] in auto)
      ultimately show ?thesis using f ok by (simp add: map_ok_def)
    qed
  qed
qed

text \<open>The commands, packets, health checks, sessions, port operations and deployment goroutines in any order.\<close>

definition with_world :: "UdpWorld \<Rightarrow> UDPServiceMap \<Rightarrow> UDPServiceMap" where
  "with_world w m = m\<lparr>w_targets := w_targets w, w_sessions := w_sessions w, w_ports := w_ports w\<rparr>"

inductive map_step :: "UDPServiceMap \<Rightarrow> UDPServiceMap \<Rightarrow> bool" where
  deploy: "UDP_DeployService env name port urls config m = Returns (err, m') \<Longrightarrow> map_step m m'"
| deploy_webrtc: "env_ok env \<Longrightarrow> UDP_DeployWebRTCService env name urls ranges config m = Returns (err, m') \<Longrightarrow> map_step m m'"
| zero: "DeployServiceZeroDowntime env name port urls policy m = (err, m') \<Longrightarrow> map_step m m'"
| zero_webrtc: "DeployWebRTCServiceZeroDowntime env name urls policy m = Returns (err, m') \<Longrightarrow> map_step m m'"
| remove: "UDP_RemoveService port m = Returns (err, m') \<Longrightarrow> map_step m m'"
| packet: "routePacket now written port addr m = (err, m') \<Longrightarrow> map_step m m'"
| checked: "map_step m (m\<lparr>w_targets := (w_targets m)(t := UDPHealthCheck_check written answered (w_targets m t))\<rparr>)"
| ports: "port_step (w_ports m) pa \<Longrightarrow> map_step m (m\<lparr>w_ports := pa\<rparr>)"
| sessions: "map_step m (m\<lparr>w_sessions := session_event e (w_sessions m)\<rparr>)"
| run_udp: "dm_services (um_deploymentManager m) name = Some a \<Longrightarrow>
    executeUDPDeployment config now polls started ticks (dm_heap (um_deploymentManager m) a, UdpWorld.truncate m) = Some (Returns (d, w)) \<Longrightarrow>
    map_step m (with_world w m)"
| run_webrtc: "dm_services (um_deploymentManager m) name = Some a \<Longrightarrow>
    executeWebRTCDeployment config now polls started ticks (dm_heap (um_deploymentManager m) a, UdpWorld.truncate m) = Some (Returns (d, w)) \<Longrightarrow>
    map_step m (with_world w m)"

definition map_start :: "UDPServiceMap \<Rightarrow> bool" where
  "map_start m \<longleftrightarrow> (\<exists>files now fs storePath targets memory. m = NewUDPServiceMap files now fs storePath targets memory)"

lemma routePacket_frame:
  assumes "routePacket now written port addr m = (err, m')"
  shows "\<exists>sm. m' = m\<lparr>w_sessions := sm\<rparr>"
proof (cases "ServiceForPort port m")
  case None
  with assms show ?thesis by (intro exI [of _ "w_sessions m"]) (simp add: routePacket_def)
next
  case (Some s)
  with assms show ?thesis by (auto simp: routePacket_def ServeUDP_def split: prod.splits sum.splits)
qed

lemma truncate_fields [simp]:
  "w_targets (UdpWorld.truncate m) = w_targets m" "w_sessions (UdpWorld.truncate m) = w_sessions m"
  "w_ports (UdpWorld.truncate m) = w_ports m"
  by (simp_all add: UdpWorld.truncate_def)

text \<open>A deployment without old targets leaves the targets alone, and the port table in order.\<close>

lemma execute_world:
  assumes "sd_CurrentTargets d = []" "sd_CurrentAllocations d = []" "ports_ok (w_ports w)"
  shows "executeUDPDeployment config now polls started ticks (d, w) = Some (Returns (d', w')) \<Longrightarrow> w_targets w' = w_targets w \<and> ports_ok (w_ports w')"
    "executeWebRTCDeployment config now polls started ticks (d, w) = Some (Returns (d', w')) \<Longrightarrow> w_targets w' = w_targets w \<and> ports_ok (w_ports w')"
  using assms deallocate_all_ok [OF assms(3)]
  by (auto simp: executeUDPDeployment_def executeWebRTCDeployment_def drain_phase_def switchTrafficToNewTargets_def
      switchWebRTCTrafficToNewTargets_def drain_targets_def cleanupOldAllocations_def Let_def split: option.splits bool.splits)

lemma map_step_ok: "map_step m m' \<Longrightarrow> map_ok m \<Longrightarrow> map_ok m'"
proof (induction rule: map_step.induct)
  case (deploy env name port urls config m err m')
  then have u: "udp_ok m" by (simp add: map_ok_def)
  obtain err0 m0 where "UDP_DeployService env name port urls config m = Returns (err0, m0)" "udp_ok m0"
    "um_deploymentManager m0 = um_deploymentManager m"
    using UDP_DeployService_cases [OF u, of env name port urls config] by blast
  with deploy show ?case by (simp add: map_ok_def)
next
  case (deploy_webrtc env name urls ranges config m err m')
  then have u: "udp_ok m" by (simp add: map_ok_def)
  obtain err0 m0 where "UDP_DeployWebRTCService env name urls ranges config m = Returns (err0, m0)" "udp_ok m0"
    "um_deploymentManager m0 = um_deploymentManager m"
    using UDP_DeployWebRTCService_cases [OF u deploy_webrtc(1), of name urls ranges config] by blast
  with deploy_webrtc show ?case by (simp add: map_ok_def)
next
  case (zero env name port urls policy m err m')
  show ?case by (rule DeployServiceZeroDowntime_ok(1) [OF zero(2,1)])
next
  case (zero_webrtc env name urls policy m err m')
  with DeployWebRTCServiceZeroDowntime_ok [of m env name urls policy] show ?case by auto
next
  case (remove port m err m')
  then have u: "udp_ok m" by (simp add: map_ok_def)
  have "um_deploymentManager m' = um_deploymentManager m"
    using remove(1) stop_targets_dm by (auto simp: UDP_RemoveService_def UDPService_Stop_def split: option.splits)
  with UDP_RemoveService_cases [OF u, of port] remove show ?case by (auto simp: map_ok_def)
next
  case (packet now written port addr m err m')
  from routePacket_frame [OF packet(1)] obtain sm where "m' = m\<lparr>w_sessions := sm\<rparr>" by blast
  then show ?case by (intro map_ok_frame [OF packet(2)]) (simp_all add: map_ok_ports [OF packet(2)])
next
  case (checked m t written answered)
  then show ?case by (intro map_ok_frame [OF checked]) (simp_all add: map_ok_ports UDPHealthCheck_check_def)
next
  case (ports m pa)
  then have "ports_ok pa" using map_ok_ports port_step_ok by blast
  then show ?case by (intro map_ok_frame [OF ports(2)]) simp_all
next
  case (sessions m e)
  then show ?case by (intro map_ok_frame [OF sessions]) (simp_all add: map_ok_ports)
next
  case (run_udp m name a config now polls started ticks d w)
  then have "w_targets w = w_targets m" "ports_ok (w_ports w)"
    using execute_world(1) [of "dm_heap (um_deploymentManager m) a" "UdpWorld.truncate m"]
    by (auto simp: map_ok_def udp_ok_def nothing_current_def)
  then show ?case by (intro map_ok_frame [OF run_udp(3)]) (simp_all add: with_world_def)
next
  case (run_webrtc m name a config now polls started ticks d w)
  then have "w_targets w = w_targets m" "ports_ok (w_ports w)"
    using execute_world(2) [of "dm_heap (um_deploymentManager m) a" "UdpWorld.truncate m"]
    by (auto simp: map_ok_def udp_ok_def nothing_current_def)
  then show ?case by (intro map_ok_frame [OF run_webrtc(3)]) (simp_all add: with_world_def)
qed

lemma map_start_ok: "map_start m \<Longrightarrow> map_ok m"
proof -
  assume "map_start m"
  then obtain files now fs storePath targets memory where
    m: "m = NewUDPServiceMap files now fs storePath targets memory" by (auto simp: map_start_def)
  have "ports_start (NewPortAllocator map_port_config)"
    unfolding ports_start_def ranges_ok_def map_port_config_def by force
  then have p: "ports_ok (w_ports m)" by (simp add: m NewUDPServiceMap_def ports_start_ok)
  have sl: "slot_service m k = None" for k by (cases k) (simp_all add: m NewUDPServiceMap_def)
  have "nothing_current (um_deploymentManager m)"
    by (rule deployment_start_inv) (auto simp: m NewUDPServiceMap_def deployment_start_def)
  with p show "map_ok m" by (simp add: map_ok_def udp_ok_def slot_targets_def sl)
qed

interpretation mapping: kept_invariant map_start map_step map_ok
  by unfold_locales (auto intro: map_start_ok map_step_ok)

subsection \<open>The session manager in the map\<close>

text \<open>Whatever the map does, its session manager only goes through its own events, so what holds of a session
  manager by itself holds inside the map.\<close>

lemma stop_targets_sessions: "stop_targets ts m = Returns m' \<Longrightarrow> w_sessions m' = w_sessions m"
  by (induction ts arbitrary: m) auto

lemma execute_sessions:
  assumes "sd_CurrentTargets d = []" "sd_CurrentAllocations d = []"
  shows "executeUDPDeployment config now polls started ticks (d, w) = Some (Returns (d', w')) \<Longrightarrow> w_sessions w' = w_sessions w"
    "executeWebRTCDeployment config now polls started ticks (d, w) = Some (Returns (d', w')) \<Longrightarrow> w_sessions w' = w_sessions w"
  using assms
  by (auto simp: executeUDPDeployment_def executeWebRTCDeployment_def drain_phase_def switchTrafficToNewTargets_def
      switchWebRTCTrafficToNewTargets_def drain_targets_def cleanupOldAllocations_def Let_def split: option.splits bool.splits)

lemma routePacket_event:
  assumes "routePacket now written port addr m = (err, m')"
  shows "w_sessions m' = w_sessions m \<or> (\<exists>e. w_sessions m' = session_event e (w_sessions m))"
proof (cases "ServiceForPort port m")
  case (Some s)
  let ?e = "PacketFrom now (w_targets m) addr (uv_port s) (uv_name s) (uv_targets s)"
  from Some assms have "w_sessions m' = session_event ?e (w_sessions m)"
    by (auto simp: routePacket_def ServeUDP_def split: prod.splits sum.splits)
  then show ?thesis by blast
qed (use assms in \<open>simp add: routePacket_def\<close>)

lemma map_step_sessions:
  "map_step m m' \<Longrightarrow> map_ok m \<Longrightarrow> w_sessions m' = w_sessions m \<or> (\<exists>e. w_sessions m' = session_event e (w_sessions m))"
proof (induction rule: map_step.induct)
  case (deploy env name port urls config m err m')
  with UDP_DeployService_cases [of m env name port urls config] show ?case by (auto simp: map_ok_def)
next
  case (deploy_webrtc env name urls ranges config m err m')
  with UDP_DeployWebRTCService_cases [of m env name urls ranges config] show ?case by (auto simp: map_ok_def)
next
  case (zero env name port urls policy m err m')
  with DeployServiceZeroDowntime_ok(4) show ?case by blast
next
  case (zero_webrtc env name urls policy m err m')
  with DeployWebRTCServiceZeroDowntime_ok [of m env name urls policy] show ?case by auto
next
  case (remove port m err m')
  then show ?case
    using stop_targets_sessions by (auto simp: UDP_RemoveService_def UDPService_Stop_def split: option.splits)
next
  case (packet now written port addr m err m')
  then show ?case by (intro routePacket_event)
next
  case (run_udp m name a config now polls started ticks d w)
  with execute_sessions(1) [of "dm_heap (um_deploymentManager m) a" config now polls started ticks "UdpWorld.truncate m"]
  show ?case by (auto simp: map_ok_def nothing_current_def with_world_def)
next
  case (run_webrtc m name a config now polls started ticks d w)
  with execute_sessions(2) [of "dm_heap (um_deploymentManager m) a" config now polls started ticks "UdpWorld.truncate m"]
  show ?case by (auto simp: map_ok_def nothing_current_def with_world_def)
qed auto

theorem udp_sessions_refined:
  assumes "reach map_start map_step m"
  shows "\<exists>files now fs config es. w_sessions m = fold session_event es (NewSessionManager files now fs config)"
  using assms
proof (induction rule: reach.induct)
  case (reach_start m)
  then obtain files now fs config where "w_sessions m = NewSessionManager files now fs config"
    by (auto simp: map_start_def NewUDPServiceMap_def)
  then show ?case by (metis fold_simps(1))
next
  case (reach_step m m')
  then obtain files now fs config es where "w_sessions m = fold session_event es (NewSessionManager files now fs config)" by blast
  then have "w_sessions m' = fold session_event es (NewSessionManager files now fs config)
      \<or> (\<exists>e. w_sessions m' = fold session_event (es @ [e]) (NewSessionManager files now fs config))"
    using map_step_sessions [OF reach_step.hyps(2) mapping.reach_inv [OF reach_step.hyps(1)]] by auto
  then show ?case by blast
qed

subsection \<open>What the map promises\<close>

lemma reach_udp_ok: "reach map_start map_step m \<Longrightarrow> udp_ok m"
  using mapping.reach_inv by (simp add: map_ok_def)

text \<open>Whatever commands, packets, health checks, cleanups and deployment goroutines came before, in any
  order, no service shares a target with another one and the targets of all services are still running.
  So deploying, replacing and removing services always returns: no target is stopped twice, which
  would close a closed channel.\<close>

theorem udp_map_robust:
  assumes r: "reach map_start map_step m" and env: "env_ok env"
  shows "(\<exists>err m'. UDP_DeployService env name port urls config m = Returns (err, m'))
    \<and> (\<exists>err m'. UDP_DeployWebRTCService env name urls ranges config m = Returns (err, m'))
    \<and> (\<exists>err m'. DeployWebRTCServiceZeroDowntime env name urls policy m = Returns (err, m'))
    \<and> (\<exists>err m'. UDP_RemoveService port m = Returns (err, m'))
    \<and> (\<forall>k. \<forall>t \<in> slot_targets m k. \<not> ut_stop (w_targets m t) \<and> (\<forall>k'. t \<in> slot_targets m k' \<longrightarrow> k' = k))"
proof -
  note ok = reach_udp_ok [OF r]
  have "\<not> ut_stop (w_targets m t) \<and> (\<forall>k'. t \<in> slot_targets m k' \<longrightarrow> k' = k)" if "t \<in> slot_targets m k" for t k
    using that ok unfolding udp_ok_def by blast
  with UDP_DeployService_cases [OF ok, of env name port urls config]
    UDP_DeployWebRTCService_cases [OF ok env, of name urls ranges config]
    DeployWebRTCServiceZeroDowntime_ok [OF mapping.reach_inv [OF r], of env name urls policy]
    UDP_RemoveService_cases [OF ok, of port]
  show ?thesis by blast
qed

text \<open>C27: deploying a service on a port. A failure leaves every service and its targets as they were. After
  a success the port is served by the new service with as many new targets as there are addresses, the
  services of other ports and of names are the ones from before, the targets of the service that was replaced are
  stopped, and no other target that existed has changed.\<close>

theorem udp_deploy_replaces:
  assumes r: "reach map_start map_step m" and d: "UDP_DeployService env name port urls config m = Returns (err, m')"
  shows "case err of
     Some e \<Rightarrow> (\<forall>p. ServiceForPort p m' = ServiceForPort p m) \<and> (\<forall>t < um_nextTarget m. w_targets m' t = w_targets m t)
   | None \<Rightarrow> (\<exists>s. ServiceForPort port m' = Some s \<and> uv_name s = name \<and> TargetCount s = length urls
          \<and> (\<forall>t \<in> set (uv_targets s). um_nextTarget m \<le> t))
       \<and> (\<forall>p. p \<noteq> port \<longrightarrow> um_services m' p = um_services m p) \<and> um_portServices m' = um_portServices m
       \<and> (\<forall>t < um_nextTarget m. w_targets m' t =
            (if t \<in> slot_targets m (OnPort port) then stopped_target (w_targets m t) else w_targets m t))"
proof (cases err)
  case None
  with UDP_DeployService_cases [OF reach_udp_ok [OF r], of env name port urls config] d
  show ?thesis by (auto simp: ServiceForPort_def TargetCount_def)
next
  case (Some e)
  have "w_ports m' = w_ports m" if "start_targets env urls m = (res, m')" for res
    using start_targets_cases [OF that] by blast
  with d Some have "w_ports m' = w_ports m"
    by (auto simp: UDP_DeployService_def Let_def split: prod.splits sum.splits option.splits outcome.splits)
  with Some UDP_DeployService_cases [OF reach_udp_ok [OF r], of env name port urls config] d
  show ?thesis by (auto simp: ServiceForPort_def grows_def cong: option.case_cong)
qed

lemma active_session_routed:
  assumes "sn_sessions sm i = Some s" "i = generateSessionID (sn_config sm) (flow addr dstPort)" "is_active s" "se_Target s = Some t"
    "ut_healthy (T t)"
  shows "RoutePacket now T addr dstPort svc targets sm = (Inr (t, i), put_session i (s\<lparr>se_LastSeen := now\<rparr>) sm)"
  using assms by (simp add: RoutePacket_def is_active_def Let_def)


text \<open>WebRTC services are found through the ports that were allocated to them. After the first
  deployment of a name, every port of its allocations that no UDP service sits on leads to it. After
  a redeployment none does: the ports are released by service name after the new ones were
  allocated, so that the new service is left without any.\<close>

theorem webrtc_redeploy_loses_ports:
  assumes r: "reach map_start map_step m" and env: "env_ok env"
    and d: "UDP_DeployWebRTCService env name urls ranges config m = Returns (None, m')"
  shows "\<exists>s. um_portServices m' name = Some s \<and> uv_allocations s \<noteq> []
    \<and> (if um_portServices m name = None
       then \<forall>a \<in> set (uv_allocations s). \<forall>p \<in> owned (pa_heap (w_ports m') a).
              um_services m' p = None \<longrightarrow> ServiceForPort p m' = Some s
       else \<forall>p. \<not> held_by (\<lambda>al. al_ServiceName al = name) (w_ports m') p)"
proof -
  obtain s where s: "um_portServices m' = (um_portServices m)(name \<mapsto> s)" "uv_allocations s \<noteq> []"
    and c: "case um_portServices m name of
              None \<Rightarrow> \<forall>a \<in> set (uv_allocations s). al_ServiceName (pa_heap (w_ports m') a) = name
                 \<and> (\<forall>p \<in> owned (pa_heap (w_ports m') a). pa_allocated (w_ports m') p = Some a)
            | Some _ \<Rightarrow> \<forall>p. \<not> held_by (\<lambda>al. al_ServiceName al = name) (w_ports m') p"
    using UDP_DeployWebRTCService_cases [OF reach_udp_ok [OF r] env, of name urls ranges config] d by auto
  then show ?thesis
    by (auto simp: ServiceForPort_def GetAllocation_def split: option.splits)
qed

subsection \<open>Examples\<close>

definition ex_env :: UdpEnv where
  "ex_env = \<lparr>ue_resolve = Some, ue_listens = (\<lambda>_. True), ue_probe = (\<lambda>_. True), ue_bindable = (\<lambda>_. True), ue_now = 5,
     ue_order = (\<lambda>pa. sorted_list_of_set (dom (pa_allocated pa)))\<rparr>"

lemma ex_env_ok: "env_ok ex_env"
  by (simp add: env_ok_def ex_env_def)

definition ex_udp_map :: UDPServiceMap where
  "ex_udp_map = NewUDPServiceMap [] 0 Map.empty ''store'' (\<lambda>_. ex_udp) (\<lambda>_. undefined)"

lemma ex_udp_map_reached: "reach map_start map_step ex_udp_map"
  unfolding ex_udp_map_def by (rule reach_start) (unfold map_start_def, blast)

lemma ex_udp_map_simps [simp]:
  "w_targets ex_udp_map = (\<lambda>_. ex_udp)" "um_services ex_udp_map = Map.empty" "um_portServices ex_udp_map = Map.empty"
  "um_nextTarget ex_udp_map = 0" "sn_sessions (w_sessions ex_udp_map) = Map.empty" "w_ports ex_udp_map = NewPortAllocator map_port_config"
  by (simp_all add: ex_udp_map_def NewUDPServiceMap_def NewSessionManager_def loadPersistedSessions_def LoadSessions_def
      default_session_config_def List.map_filter_simps Let_def)

lemma ex_start [simp]:
  "start_target ex_env url m = (Inr (um_nextTarget m),
     m\<lparr>w_targets := (w_targets m)(um_nextTarget m := \<lparr>ut_url = url, ut_addr = url, ut_conn = True, ut_healthy = False,
          ut_stop = False, ut_stopped = False\<rparr>), um_nextTarget := um_nextTarget m + 1\<rparr>)"
  by (simp add: start_target_def ex_env_def NewUDPTarget_def UDPTarget_Start_def Let_def)

text \<open>The game server is deployed, becomes healthy and gets a packet from a client.\<close>

definition ex_deployed :: UDPServiceMap where
  "ex_deployed = (case UDP_DeployService ex_env ''game'' 8080 [''10.0.0.1:5000''] None ex_udp_map of
     Returns (_, m) \<Rightarrow> m | Panics _ \<Rightarrow> ex_udp_map)"

definition ex_checked :: UDPServiceMap where
  "ex_checked = ex_deployed\<lparr>w_targets := (w_targets ex_deployed)(0 := UDPHealthCheck_check True True (w_targets ex_deployed 0))\<rparr>"

definition ex_served :: UDPServiceMap where
  "ex_served = snd (routePacket 7 (\<lambda>_. True) 8080 ex_client ex_checked)"

definition ex_game :: UDPService where
  "ex_game = \<lparr>uv_name = ''game'', uv_port = 8080, uv_portRanges = [], uv_targets = [0], uv_currentTarget = 0,
     uv_sessionConfig = default_session_config, uv_serviceType = ''udp'', uv_allocations = []\<rparr>"

lemma ex_deploy: "UDP_DeployService ex_env ''game'' 8080 [''10.0.0.1:5000''] None ex_udp_map = Returns (None, ex_deployed)"
  by (simp add: ex_deployed_def UDP_DeployService_def Let_def)

lemma ex_checked_simps [simp]:
  "ut_healthy (w_targets ex_checked 0)" "ut_url (w_targets ex_checked 0) = ''10.0.0.1:5000''"
  "um_services ex_checked = [8080 \<mapsto> ex_game]" "sn_sessions (w_sessions ex_checked) = Map.empty"
  "um_nextTarget ex_checked = 1"
  by (simp_all add: ex_checked_def ex_deployed_def UDP_DeployService_def UDPHealthCheck_check_def performCheck_def ex_game_def Let_def)

lemma ex_checked_reached: "reach map_start map_step ex_checked"
  using reach_step [OF ex_udp_map_reached map_step.deploy [OF ex_deploy]] unfolding ex_checked_def
  by (rule reach_step) (rule map_step.checked)

lemma ex_served_reached: "reach map_start map_step ex_served"
  using ex_checked_reached by (rule reach_step) (metis ex_served_def map_step.packet prod.collapse)

lemma ex_served_simps:
  "um_services ex_served = um_services ex_checked" "w_targets ex_served = w_targets ex_checked"
  "sn_config (w_sessions ex_served) = sn_config (w_sessions ex_checked)" "um_nextTarget ex_served = um_nextTarget ex_checked"
  "\<exists>s. sn_sessions (w_sessions ex_served) (generateSessionID (sn_config (w_sessions ex_checked)) (flow ex_client 8080)) = Some s
     \<and> is_active s \<and> se_Target s = Some 0 \<and> se_LastSeen s = 7
     \<and> se_ID s = generateSessionID (sn_config (w_sessions ex_checked)) (flow ex_client 8080)"
proof -
  have "selectTarget (sn_config (w_sessions ex_checked)) (w_targets ex_checked) (flow ex_client 8080) [0] = Some 0"
    by (simp add: selectTarget_def Let_def)
  then show "um_services ex_served = um_services ex_checked" "w_targets ex_served = w_targets ex_checked"
    "sn_config (w_sessions ex_served) = sn_config (w_sessions ex_checked)" "um_nextTarget ex_served = um_nextTarget ex_checked"
    "\<exists>s. sn_sessions (w_sessions ex_served) (generateSessionID (sn_config (w_sessions ex_checked)) (flow ex_client 8080)) = Some s
       \<and> is_active s \<and> se_Target s = Some 0 \<and> se_LastSeen s = 7
     \<and> se_ID s = generateSessionID (sn_config (w_sessions ex_checked)) (flow ex_client 8080)"
    by (simp_all add: ex_served_def routePacket_def ServiceForPort_def ServeUDP_def ex_game_def RoutePacket_def
        route_anew_def new_session_def is_active_def Let_def)
qed

definition ex_replaced :: UDPServiceMap where
  "ex_replaced = (case UDP_DeployService ex_env ''game'' 8080 [''10.0.0.2:5000''] None ex_served of
     Returns (_, m) \<Rightarrow> m | Panics _ \<Rightarrow> ex_served)"

lemma start_deploys:
  assumes "reach map_start map_step m" "start_targets env urls m = (Inr ts, m1)"
  shows "\<exists>m'. UDP_DeployService env name port urls config m = Returns (None, m')"
  using UDP_DeployService_cases [OF reach_udp_ok [OF assms(1)], of env name port urls config] assms(2)
  by (auto simp: UDP_DeployService_def Let_def split: option.splits)

lemma ex_replace: "UDP_DeployService ex_env ''game'' 8080 [''10.0.0.2:5000''] None ex_served = Returns (None, ex_replaced)"
  using start_deploys [OF ex_served_reached, of ex_env "[''10.0.0.2:5000'']" _ _ "''game''" 8080 None]
  by (fastforce simp: ex_replaced_def)

theorem udp_map_robust_witness:
  "\<exists>err m'. UDP_RemoveService 8080 ex_served = Returns (err, m')"
  using udp_map_robust [OF ex_served_reached ex_env_ok, of "[]" 8080 "[]" None "[]" undefined] by blast

theorem udp_deploy_replaces_witness:
  "\<exists>s. ServiceForPort 8080 ex_replaced = Some s \<and> TargetCount s = 1 \<and> ut_stop (w_targets ex_replaced 0)"
proof -
  have "um_nextTarget ex_served = 1" by (simp add: ex_served_simps)
  moreover have "0 \<in> slot_targets ex_served (OnPort 8080)"
    by (simp add: slot_targets_def ex_served_simps) (simp add: ex_game_def)
  ultimately show ?thesis
    using udp_deploy_replaces [OF ex_served_reached ex_replace] by (auto simp: stopped_target_def)
qed


text \<open>A call service is deployed twice.\<close>

definition ex_call :: UDPServiceMap where
  "ex_call = (case UDP_DeployWebRTCService ex_env ''call'' [''10.0.0.3:5000''] [] None ex_udp_map of
     Returns (_, m) \<Rightarrow> m | Panics _ \<Rightarrow> ex_udp_map)"

definition ex_recall :: UDPServiceMap where
  "ex_recall = (case UDP_DeployWebRTCService ex_env ''call'' [''10.0.0.4:5000''] [] None ex_call of
     Returns (_, m) \<Rightarrow> m | Panics _ \<Rightarrow> ex_call)"

lemma first_ports: "ports_below 10000 20000 2 = 10000 # 10002 # ports_below 10004 20000 2"
  by (subst ports_below.simps, subst ports_below.simps) simp

lemma ex_env_simps [simp]:
  "ue_probe ex_env = (\<lambda>_. True)" "ue_bindable ex_env = (\<lambda>_. True)" "ue_now ex_env = 5"
  by (simp_all add: ex_env_def)

lemmas ex_pair_simps = map_port_config_def NewPortAllocator_def with_defaults_def AllocateRTPRTCPPair_def
  allocateAdjacentPair_def first_ports isPortAvailable_def ListenPacket_def close_socket_def install_def
  webrtc_allocation_def Let_def seconds_def DefaultPortAllocationTTL_def DefaultCleanupInterval_def

lemma webrtc_deploys:
  assumes "reach map_start map_step m" "env_ok env" "webrtc_targets env name urls m = (Inr (ts, a # as), m1)"
  shows "\<exists>m'. UDP_DeployWebRTCService env name urls ranges config m = Returns (None, m')"
  using UDP_DeployWebRTCService_cases [OF reach_udp_ok [OF assms(1)] assms(2), of name urls ranges config] assms(3)
  by (auto simp: UDP_DeployWebRTCService_def Let_def split: option.splits outcome.splits)

lemma ex_call: "UDP_DeployWebRTCService ex_env ''call'' [''10.0.0.3:5000''] [] None ex_udp_map = Returns (None, ex_call)"
proof -
  obtain m1 where "webrtc_targets ex_env ''call'' [''10.0.0.3:5000''] ex_udp_map = (Inr ([0], [0]), m1)"
    by (simp add: ex_pair_simps)
  from webrtc_deploys [OF ex_udp_map_reached ex_env_ok this, of "[]" None] show ?thesis by (auto simp: ex_call_def)
qed

lemma ex_call_reached: "reach map_start map_step ex_call"
  by (rule reach_step [OF ex_udp_map_reached map_step.deploy_webrtc [OF ex_env_ok ex_call]])

lemma ex_call_ports:
  "um_portServices ex_call ''call'' \<noteq> None"
  "\<exists>m1. webrtc_targets ex_env ''call'' [''10.0.0.4:5000''] ex_call = (Inr ([1], [1]), m1)"
  by (simp_all add: ex_call_def UDP_DeployWebRTCService_def ex_pair_simps)

lemma ex_recall: "UDP_DeployWebRTCService ex_env ''call'' [''10.0.0.4:5000''] [] None ex_call = Returns (None, ex_recall)"
  using ex_call_ports(2) webrtc_deploys [OF ex_call_reached ex_env_ok, of "''call''" "[''10.0.0.4:5000'']" "[1]" 1 "[]" _ "[]" None]
  by (fastforce simp: ex_recall_def)

theorem webrtc_redeploy_loses_ports_witness:
  "\<exists>s. um_portServices ex_recall ''call'' = Some s \<and> (\<forall>p. GetAllocation p (w_ports ex_recall) = None \<or>
     al_ServiceName (the (GetAllocation p (w_ports ex_recall))) \<noteq> ''call'')"
  using webrtc_redeploy_loses_ports [OF ex_call_reached ex_env_ok ex_recall] ex_call_ports(1)
  by (auto simp: held_by_def GetAllocation_def split: option.splits)

end
