(* ===== verification/Commands.thy ===== *)
theory Commands
  imports Routers UdpServices
begin

section \<open>The commands of the running proxy\<close>

text \<open>
  Models \<open>internal/server/commands.go\<close>: the arguments of the remote procedure calls and the handlers that
  pass them on to the router and to the UDP service map. Each call is one step of the proxy, since
  the router and the map do their work under their locks; requests and packets are served in between.
  Listening on the socket and \<open>net/rpc\<close> are not modelled.
\<close>

subsection \<open>Arguments\<close>

record DeployArgs =
  da_Service :: string
  da_TargetURLs :: "string list"
  da_ReaderURLs :: "string list"
  da_DeployTimeout :: duration
  da_DrainTimeout :: duration
  da_ServiceOptions :: ServiceOptions
  da_TargetOptions :: TargetOptions

record PauseArgs =
  pa_Service :: string
  pa_DrainTimeout :: duration
  pa_PauseTimeout :: duration

record StopArgs =
  sa_Service :: string
  sa_DrainTimeout :: duration
  sa_Message :: string

record ResumeArgs =
  ra_Service :: string

record RemoveArgs =
  rm_Service :: string

record UDPDeployArgs =
  ud_Service :: string
  ud_TargetURLs :: "string list"
  ud_Port :: int
  ud_DeployTimeout :: duration
  ud_SessionConfig :: "SessionConfig option"

record WebRTCDeployArgs =
  wd_Service :: string
  wd_TargetURLs :: "string list"
  wd_PortRanges :: "PortRange list"
  wd_RTCPPolicy :: string
  wd_DeployTimeout :: duration
  wd_SessionConfig :: "SessionConfig option"

record UDPZeroDowntimeDeployArgs =
  uz_Service :: string
  uz_TargetURLs :: "string list"
  uz_Port :: int
  uz_DeployTimeout :: duration
  uz_DrainTimeout :: duration
  uz_ForceKillTimeout :: duration
  uz_DrainStrategy :: string
  uz_SessionConfig :: "SessionConfig option"

record WebRTCZeroDowntimeDeployArgs =
  wz_Service :: string
  wz_TargetURLs :: "string list"
  wz_PortRanges :: "PortRange list"
  wz_RTCPPolicy :: string
  wz_DeployTimeout :: duration
  wz_DrainTimeout :: duration
  wz_ForceKillTimeout :: duration
  wz_DrainStrategy :: string
  wz_SessionConfig :: "SessionConfig option"

record RolloutDeployArgs =
  rd_Service :: string
  rd_TargetURLs :: "string list"
  rd_ReaderURLs :: "string list"
  rd_DeployTimeout :: duration
  rd_DrainTimeout :: duration

record RolloutSetArgs =
  rs_Service :: string
  rs_Percentage :: int
  rs_Allowlist :: "string list"

record RolloutStopArgs =
  rx_Service :: string

subsection \<open>Handlers\<close>

record CommandHandler =
  ha_router :: Router
  ha_udpServiceMap :: UDPServiceMap

definition NewCommandHandler :: "Router \<Rightarrow> UDPServiceMap \<Rightarrow> CommandHandler" where
  "NewCommandHandler router udpServiceMap = \<lparr>ha_router = router, ha_udpServiceMap = udpServiceMap\<rparr>"

datatype call_error = RouterError go_error | UdpError udp_error

type_synonym handled = "(call_error option \<times> CommandHandler) outcome"

definition router_call :: "(Router \<Rightarrow> (go_error option \<times> Router) outcome) \<Rightarrow> CommandHandler \<Rightarrow> handled" where
  "router_call f h =
     bind_outcome (f (ha_router h)) (\<lambda>(err, r). Returns (map_option RouterError err, h\<lparr>ha_router := r\<rparr>))"

definition udp_call :: "(UDPServiceMap \<Rightarrow> (udp_error option \<times> UDPServiceMap) outcome) \<Rightarrow> CommandHandler \<Rightarrow> handled" where
  "udp_call f h =
     bind_outcome (f (ha_udpServiceMap h)) (\<lambda>(err, m). Returns (map_option UdpError err, h\<lparr>ha_udpServiceMap := m\<rparr>))"

text \<open>The health reports of the new targets are the first argument of the two deployments that wait for them.\<close>

definition Handler_Deploy :: "Environment \<Rightarrow> (nat \<times> bool) list \<Rightarrow> DeployArgs \<Rightarrow> CommandHandler \<Rightarrow> handled" where
  "Handler_Deploy env reports args =
     router_call (DeployService env reports (da_Service args) (da_TargetURLs args) (da_ReaderURLs args) (da_ServiceOptions args)
       (da_TargetOptions args) (da_DeployTimeout args))"

definition Handler_Pause :: "Environment \<Rightarrow> PauseArgs \<Rightarrow> CommandHandler \<Rightarrow> handled" where
  "Handler_Pause env args = router_call (PauseService env (pa_Service args) (pa_PauseTimeout args))"

definition Handler_Stop :: "Environment \<Rightarrow> StopArgs \<Rightarrow> CommandHandler \<Rightarrow> handled" where
  "Handler_Stop env args = router_call (StopService env (sa_Service args) (sa_Message args))"

definition Handler_Resume :: "Environment \<Rightarrow> ResumeArgs \<Rightarrow> CommandHandler \<Rightarrow> handled" where
  "Handler_Resume env args = router_call (ResumeService env (ra_Service args))"

definition Handler_Remove :: "Environment \<Rightarrow> RemoveArgs \<Rightarrow> CommandHandler \<Rightarrow> handled" where
  "Handler_Remove env args = router_call (RemoveService env (rm_Service args))"

definition Handler_List :: "CommandHandler \<Rightarrow> (string \<times> ServiceDescription) list outcome" where
  "Handler_List h = ListActiveServices (sm_services (r_services (ha_router h)))"

definition Handler_RolloutDeploy :: "Environment \<Rightarrow> (nat \<times> bool) list \<Rightarrow> RolloutDeployArgs \<Rightarrow> CommandHandler \<Rightarrow> handled" where
  "Handler_RolloutDeploy env reports args =
     router_call (SetRolloutTargets env reports (rd_Service args) (rd_TargetURLs args) (rd_ReaderURLs args) (rd_DeployTimeout args))"

definition Handler_RolloutSet :: "Environment \<Rightarrow> RolloutSetArgs \<Rightarrow> CommandHandler \<Rightarrow> handled" where
  "Handler_RolloutSet env args =
     router_call (Router_SetRolloutSplit env (rs_Service args) (rs_Percentage args) (rs_Allowlist args))"

definition Handler_RolloutStop :: "Environment \<Rightarrow> RolloutStopArgs \<Rightarrow> CommandHandler \<Rightarrow> handled" where
  "Handler_RolloutStop env args = router_call (Router_StopRollout env (rx_Service args))"

definition Handler_DeployUDP :: "UdpEnv \<Rightarrow> UDPDeployArgs \<Rightarrow> CommandHandler \<Rightarrow> handled" where
  "Handler_DeployUDP env args =
     udp_call (UDP_DeployService env (ud_Service args) (ud_Port args) (ud_TargetURLs args) (ud_SessionConfig args))"

definition Handler_DeployWebRTC :: "UdpEnv \<Rightarrow> WebRTCDeployArgs \<Rightarrow> CommandHandler \<Rightarrow> handled" where
  "Handler_DeployWebRTC env args =
     udp_call (UDP_DeployWebRTCService env (wd_Service args) (wd_TargetURLs args) (wd_PortRanges args) (wd_SessionConfig args))"

definition Handler_DeployUDPZeroDowntime :: "UdpEnv \<Rightarrow> UDPZeroDowntimeDeployArgs \<Rightarrow> CommandHandler \<Rightarrow> handled" where
  "Handler_DeployUDPZeroDowntime env args =
     (let drainPolicy = \<lparr>dp_Strategy = uz_DrainStrategy args, dp_GracePeriod = uz_DrainTimeout args,
            dp_MaxWaitTime = uz_ForceKillTimeout args, dp_NotifyClients = False\<rparr>
      in udp_call (\<lambda>m. Returns (DeployServiceZeroDowntime env (uz_Service args) (uz_Port args) (uz_TargetURLs args) drainPolicy m)))"

definition Handler_DeployWebRTCZeroDowntime :: "UdpEnv \<Rightarrow> WebRTCZeroDowntimeDeployArgs \<Rightarrow> CommandHandler \<Rightarrow> handled" where
  "Handler_DeployWebRTCZeroDowntime env args =
     (let drainPolicy = \<lparr>dp_Strategy = wz_DrainStrategy args, dp_GracePeriod = wz_DrainTimeout args,
            dp_MaxWaitTime = wz_ForceKillTimeout args, dp_NotifyClients = True\<rparr>
      in udp_call (DeployWebRTCServiceZeroDowntime env (wz_Service args) (wz_TargetURLs args) drainPolicy))"

text \<open>The method that a call names; \<open>List\<close> changes nothing and is not among them.\<close>

datatype rpc_call =
    Deploy "(nat \<times> bool) list" DeployArgs
  | Pause PauseArgs
  | Stop StopArgs
  | Resume ResumeArgs
  | Remove RemoveArgs
  | RolloutDeploy "(nat \<times> bool) list" RolloutDeployArgs
  | RolloutSet RolloutSetArgs
  | RolloutStop RolloutStopArgs
  | DeployUDP UDPDeployArgs
  | DeployWebRTC WebRTCDeployArgs
  | DeployUDPZeroDowntime UDPZeroDowntimeDeployArgs
  | DeployWebRTCZeroDowntime WebRTCZeroDowntimeDeployArgs

fun serve_call :: "Environment \<Rightarrow> UdpEnv \<Rightarrow> rpc_call \<Rightarrow> CommandHandler \<Rightarrow> handled" where
  "serve_call env uenv (Deploy reports args) = Handler_Deploy env reports args"
| "serve_call env uenv (Pause args) = Handler_Pause env args"
| "serve_call env uenv (Stop args) = Handler_Stop env args"
| "serve_call env uenv (Resume args) = Handler_Resume env args"
| "serve_call env uenv (Remove args) = Handler_Remove env args"
| "serve_call env uenv (RolloutDeploy reports args) = Handler_RolloutDeploy env reports args"
| "serve_call env uenv (RolloutSet args) = Handler_RolloutSet env args"
| "serve_call env uenv (RolloutStop args) = Handler_RolloutStop env args"
| "serve_call env uenv (DeployUDP args) = Handler_DeployUDP uenv args"
| "serve_call env uenv (DeployWebRTC args) = Handler_DeployWebRTC uenv args"
| "serve_call env uenv (DeployUDPZeroDowntime args) = Handler_DeployUDPZeroDowntime uenv args"
| "serve_call env uenv (DeployWebRTCZeroDowntime args) = Handler_DeployWebRTCZeroDowntime uenv args"

subsection \<open>The proxy at work\<close>

text \<open>The router's part of a call.\<close>

fun command_of :: "rpc_call \<Rightarrow> command option" where
  "command_of (Deploy reports args) = Some (CmdDeploy reports (da_Service args) (da_TargetURLs args) (da_ReaderURLs args)
     (da_ServiceOptions args) (da_TargetOptions args) (da_DeployTimeout args))"
| "command_of (Pause args) = Some (CmdPause (pa_Service args) (pa_PauseTimeout args))"
| "command_of (Stop args) = Some (CmdStop (sa_Service args) (sa_Message args))"
| "command_of (Resume args) = Some (CmdResume (ra_Service args))"
| "command_of (Remove args) = Some (CmdRemove (rm_Service args))"
| "command_of (RolloutDeploy reports args) = Some (CmdRolloutDeploy reports (rd_Service args) (rd_TargetURLs args)
     (rd_ReaderURLs args) (rd_DeployTimeout args))"
| "command_of (RolloutSet args) = Some (CmdRolloutSet (rs_Service args) (rs_Percentage args) (rs_Allowlist args))"
| "command_of (RolloutStop args) = Some (CmdRolloutStop (rx_Service args))"
| "command_of _ = None"

definition call_admissible :: "Environment \<Rightarrow> rpc_call \<Rightarrow> CommandHandler \<Rightarrow> bool" where
  "call_admissible env c h \<longleftrightarrow> (case command_of c of None \<Rightarrow> True | Some cmd \<Rightarrow> admissible env cmd (ha_router h))"

lemmas handler_defs = Handler_Deploy_def Handler_Pause_def Handler_Stop_def Handler_Resume_def Handler_Remove_def
  Handler_RolloutDeploy_def Handler_RolloutSet_def Handler_RolloutStop_def Handler_DeployUDP_def Handler_DeployWebRTC_def
  Handler_DeployUDPZeroDowntime_def Handler_DeployWebRTCZeroDowntime_def

lemma serve_router_call: "command_of c = Some cmd \<Longrightarrow> serve_call env uenv c h = router_call (exec env cmd) h"
  by (cases c) (auto simp: handler_defs)

lemma serve_udp_call:
  assumes "command_of c = None" "map_ok (ha_udpServiceMap h)" "env_ok uenv"
  shows "\<exists>err m. serve_call env uenv c h = Returns (err, h\<lparr>ha_udpServiceMap := m\<rparr>) \<and> map_step (ha_udpServiceMap h) m"
proof -
  let ?m = "ha_udpServiceMap h"
  from assms(2) have u: "udp_ok ?m" by (simp add: map_ok_def)
  show ?thesis
  proof (cases c)
    case (DeployUDP args)
    obtain err m where r: "UDP_DeployService uenv (ud_Service args) (ud_Port args) (ud_TargetURLs args) (ud_SessionConfig args) ?m
        = Returns (err, m)" using UDP_DeployService_cases [OF u] by blast
    with map_step.deploy [OF r] show ?thesis by (auto simp: DeployUDP handler_defs udp_call_def)
  next
    case (DeployWebRTC args)
    obtain err m where r: "UDP_DeployWebRTCService uenv (wd_Service args) (wd_TargetURLs args) (wd_PortRanges args)
        (wd_SessionConfig args) ?m = Returns (err, m)" using UDP_DeployWebRTCService_cases [OF u assms(3)] by blast
    with map_step.deploy_webrtc [OF assms(3) r] show ?thesis by (auto simp: DeployWebRTC handler_defs udp_call_def)
  next
    case (DeployUDPZeroDowntime args)
    then show ?thesis
      by (auto simp: handler_defs udp_call_def Let_def split: prod.split intro: map_step.zero)
  next
    case (DeployWebRTCZeroDowntime args)
    obtain policy where c: "serve_call env uenv c h
        = udp_call (DeployWebRTCServiceZeroDowntime uenv (wz_Service args) (wz_TargetURLs args) policy) h"
      by (simp add: DeployWebRTCZeroDowntime handler_defs Let_def)
    obtain err m where r: "DeployWebRTCServiceZeroDowntime uenv (wz_Service args) (wz_TargetURLs args) policy ?m = Returns (err, m)"
      using DeployWebRTCServiceZeroDowntime_ok [OF assms(2)] by blast
    with map_step.zero_webrtc [OF r] show ?thesis by (auto simp: c udp_call_def)
  qed (use assms(1) in simp_all)
qed

inductive handler_step :: "CommandHandler \<Rightarrow> CommandHandler \<Rightarrow> bool" where
  called: "env_ok uenv \<Longrightarrow> call_admissible env c h \<Longrightarrow> serve_call env uenv c h = Returns (err, h') \<Longrightarrow> handler_step h h'"
| served: "Router_ServeHTTP env now rid req (ha_router h) = Returns (a, r) \<Longrightarrow> handler_step h (h\<lparr>ha_router := r\<rparr>)"
| background: "map_step (ha_udpServiceMap h) m \<Longrightarrow> handler_step h (h\<lparr>ha_udpServiceMap := m\<rparr>)"
| restarted: "env_state_writable env \<Longrightarrow> can_restart env (ha_router h) \<Longrightarrow> restart env (ha_router h) = Returns (err, r) \<Longrightarrow>
    map_start m \<Longrightarrow> handler_step h (NewCommandHandler r m)"

definition handler_start :: "CommandHandler \<Rightarrow> bool" where
  "handler_start h \<longleftrightarrow> (\<exists>r m. router_start r \<and> map_start m \<and> h = NewCommandHandler r m)"

definition handler_ok :: "CommandHandler \<Rightarrow> bool" where
  "handler_ok h \<longleftrightarrow> rt_ok (ha_router h) \<and> map_ok (ha_udpServiceMap h)"

lemma serve_call_cases:
  assumes ok: "handler_ok h" and env: "env_ok uenv" and adm: "call_admissible env c h"
  shows "\<exists>err h'. serve_call env uenv c h = Returns (err, h') \<and> handler_ok h'
    \<and> (if command_of c = None then ha_router h' = ha_router h else ha_udpServiceMap h' = ha_udpServiceMap h)"
proof (cases "command_of c")
  case None
  from ok have "map_ok (ha_udpServiceMap h)" by (simp add: handler_ok_def)
  from serve_udp_call [OF None this env, of env] obtain err m where
    "serve_call env uenv c h = Returns (err, h\<lparr>ha_udpServiceMap := m\<rparr>)" "map_step (ha_udpServiceMap h) m" by blast
  with None ok map_step_ok show ?thesis by (auto simp: handler_ok_def)
next
  case (Some cmd)
  from ok adm Some have "rt_ok (ha_router h)" "admissible env cmd (ha_router h)" by (simp_all add: handler_ok_def call_admissible_def)
  from exec_ok [OF this] obtain err r where "exec env cmd (ha_router h) = Returns (err, r)" "rt_ok r" by blast
  with Some ok show ?thesis by (auto simp: serve_router_call router_call_def handler_ok_def)
qed

lemma handler_step_ok: "handler_step h h' \<Longrightarrow> handler_ok h \<Longrightarrow> handler_ok h'"
proof (induction rule: handler_step.induct)
  case (called uenv env c h err h')
  with serve_call_cases [of h uenv env c] show ?case by auto
next
  case (served env now rid req h a r)
  with router_step_ok [OF router_request] show ?case by (simp add: handler_ok_def)
next
  case (background h m)
  with map_step_ok show ?case by (simp add: handler_ok_def)
next
  case (restarted env h err r m)
  with router_step_ok [OF router_restart [OF restarted.hyps(1-3)]] show ?case
    by (simp add: handler_ok_def NewCommandHandler_def map_start_ok)
qed

lemma handler_start_ok: "handler_start h \<Longrightarrow> handler_ok h"
  by (auto simp: handler_start_def handler_ok_def NewCommandHandler_def router_start_ok map_start_ok)

interpretation handling: kept_invariant handler_start handler_step handler_ok
  by unfold_locales (auto intro: handler_start_ok handler_step_ok)

subsection \<open>The two halves\<close>

text \<open>The handler is the two machines side by side: each of its steps is a step of one of them, or none, or starts
  the UDP side anew.\<close>

lemma handler_step_halves:
  assumes "handler_step h h'" "handler_ok h"
  shows "(ha_router h' = ha_router h \<or> router_step (ha_router h) (ha_router h'))
    \<and> (ha_udpServiceMap h' = ha_udpServiceMap h \<or> map_step (ha_udpServiceMap h) (ha_udpServiceMap h')
        \<or> map_start (ha_udpServiceMap h'))"
  using assms
proof (induction rule: handler_step.induct)
  case (called uenv env c h err h')
  show ?case
  proof (cases "command_of c")
    case None
    from called(4) have "map_ok (ha_udpServiceMap h)" by (simp add: handler_ok_def)
    from serve_udp_call [OF None this called(1), of env] called(3) show ?thesis by auto
  next
    case (Some cmd)
    with called(2,3) show ?thesis
      by (auto simp: serve_router_call router_call_def call_admissible_def intro: router_command)
  qed
qed (auto simp: NewCommandHandler_def intro: router_request router_restart)

lemma handler_reach_halves:
  "reach handler_start handler_step h \<Longrightarrow>
     reach router_start router_step (ha_router h) \<and> reach map_start map_step (ha_udpServiceMap h)"
proof (induction rule: reach.induct)
  case (reach_start h)
  then show ?case by (auto simp: handler_start_def NewCommandHandler_def intro: reach.reach_start)
next
  case (reach_step h h')
  from handler_step_halves [OF reach_step(2) handling.reach_inv [OF reach_step(1)]] reach_step(3)
  show ?case by (auto intro: reach.intros)
qed

subsection \<open>Flags of a WebRTC deployment\<close>

lemma webrtc_ports_independent:
  assumes "UDP_DeployWebRTCService env name urls ranges config m = Returns (e1, m1)"
    "UDP_DeployWebRTCService env name urls ranges' config' m = Returns (e2, m2)"
  shows "e1 = e2 \<and> w_ports m1 = w_ports m2"
proof (cases "webrtc_targets env name urls m")
  case (Pair res m0)
  show ?thesis
  proof (cases res)
    case (Inl e)
    with assms Pair show ?thesis by (simp add: UDP_DeployWebRTCService_def)
  next
    case (Inr p)
    obtain ts as where p: "p = (ts, as)" by fastforce
    show ?thesis
    proof (cases "as = []")
      case True
      with assms Pair Inr p show ?thesis by (simp add: UDP_DeployWebRTCService_def)
    next
      case False
      with assms Pair Inr p show ?thesis
        by (cases "um_portServices m0 name") (auto simp: UDP_DeployWebRTCService_def Let_def)
    qed
  qed
qed

text \<open>The port ranges and the RTCP policy of a WebRTC deployment have no effect on the ports it gets: two
  calls for the same service and targets end with the same error, if any, and the same allocations.\<close>

lemma webrtc_flags_ignored:
  assumes "wd_Service a = wd_Service b" "wd_TargetURLs a = wd_TargetURLs b"
    and "Handler_DeployWebRTC env a h = Returns (e1, h1)" "Handler_DeployWebRTC env b h = Returns (e2, h2)"
  shows "e1 = e2 \<and> w_ports (ha_udpServiceMap h1) = w_ports (ha_udpServiceMap h2)"
proof -
  obtain u1 m1 where a: "UDP_DeployWebRTCService env (wd_Service b) (wd_TargetURLs b) (wd_PortRanges a) (wd_SessionConfig a)
      (ha_udpServiceMap h) = Returns (u1, m1)" "e1 = map_option UdpError u1" "h1 = h\<lparr>ha_udpServiceMap := m1\<rparr>"
    using assms(3) unfolding Handler_DeployWebRTC_def udp_call_def assms(1,2) by auto
  obtain u2 m2 where b: "UDP_DeployWebRTCService env (wd_Service b) (wd_TargetURLs b) (wd_PortRanges b) (wd_SessionConfig b)
      (ha_udpServiceMap h) = Returns (u2, m2)" "e2 = map_option UdpError u2" "h2 = h\<lparr>ha_udpServiceMap := m2\<rparr>"
    using assms(4) unfolding Handler_DeployWebRTC_def udp_call_def by auto
  from webrtc_ports_independent [OF a(1) b(1)] a(2,3) b(2,3) show ?thesis by simp
qed

end
