(* ===== verification/UdpServers.thy ===== *)
theory UdpServers
  imports UdpServices
begin

section \<open>The UDP server\<close>

text \<open>
  Models \<open>internal/server/udp_server.go\<close>: starting and stopping the listener, and the goroutine that reads
  packets and hands them to the service map. A goroutine is either at its select statement or waiting
  in a read on the socket it found there; sockets are numbered in the order in which they were opened.
  What a read returns and whether a socket can be opened are arguments.
\<close>

record UDPServer =
  uo_port :: int
  uo_running :: bool
  uo_shutdown :: bool
  uo_sockets :: nat
  uo_open :: bool
  uo_selecting :: nat
  uo_reading :: "nat list"
  uo_serviceMap :: UDPServiceMap

definition NewUDPServer :: "int \<Rightarrow> UDPServiceMap \<Rightarrow> UDPServer" where
  "NewUDPServer udpPort serviceMap =
     \<lparr>uo_port = udpPort, uo_running = False, uo_shutdown = False, uo_sockets = 0, uo_open = False, uo_selecting = 0,
      uo_reading = [], uo_serviceMap = serviceMap\<rparr>"

datatype server_error = AlreadyRunning | ListenerFailed int | ShutdownTimeout

definition UDPServer_Start :: "bool \<Rightarrow> UDPServer \<Rightarrow> server_error option \<times> UDPServer" where
  "UDPServer_Start listens s =
     (if uo_running s then (Some AlreadyRunning, s)
      else if \<not> listens then (Some (ListenerFailed (uo_port s)), s)
      else (None, s\<lparr>uo_sockets := uo_sockets s + 1, uo_open := True, uo_running := True, uo_selecting := uo_selecting s + 1\<rparr>))"

text \<open>\<open>Stop\<close>, given whether the goroutines end before the context does; they are steps of their own.\<close>

definition UDPServer_Stop :: "bool \<Rightarrow> UDPServer \<Rightarrow> (server_error option \<times> UDPServer) outcome" where
  "UDPServer_Stop finished s =
     (if \<not> uo_running s then Returns (None, s)
      else if uo_shutdown s then Panics ''close of closed channel''
      else Returns (if finished then None else Some ShutdownTimeout,
             s\<lparr>uo_shutdown := True, uo_running := False, uo_open := False\<rparr>))"

definition isShuttingDown :: "UDPServer \<Rightarrow> bool" where
  "isShuttingDown s \<longleftrightarrow> uo_shutdown s"

text \<open>The loop of \<open>handlePackets\<close>: the select statement, and what follows a read.\<close>

definition handle_select :: "UDPServer \<Rightarrow> UDPServer" where
  "handle_select s =
     (if uo_shutdown s then s\<lparr>uo_selecting := uo_selecting s - 1\<rparr>
      else s\<lparr>uo_selecting := uo_selecting s - 1, uo_reading := uo_sockets s # uo_reading s\<rparr>)"

datatype read_result = ReadTimeout | ReadFailed | ReadPacket instant "nat \<Rightarrow> bool" "string \<times> int"

definition again :: "nat \<Rightarrow> UDPServer \<Rightarrow> UDPServer" where
  "again g s = s\<lparr>uo_reading := remove1 g (uo_reading s), uo_selecting := uo_selecting s + 1\<rparr>"

fun handle_read :: "nat \<Rightarrow> read_result \<Rightarrow> UDPServer \<Rightarrow> UDPServer" where
  "handle_read g ReadTimeout s = again g s"
| "handle_read g ReadFailed s =
     (if isShuttingDown s then s\<lparr>uo_reading := remove1 g (uo_reading s)\<rparr> else again g s)"
| "handle_read g (ReadPacket now written addr) s =
     again g (s\<lparr>uo_serviceMap := snd (routePacket now written (uo_port s) addr (uo_serviceMap s))\<rparr>)"

text \<open>A packet arrives only on an open socket.\<close>

fun possible :: "nat \<Rightarrow> read_result \<Rightarrow> UDPServer \<Rightarrow> bool" where
  "possible g (ReadPacket now written addr) s \<longleftrightarrow> uo_open s \<and> g = uo_sockets s"
| "possible g _ s \<longleftrightarrow> True"

inductive server_step :: "UDPServer \<Rightarrow> UDPServer \<Rightarrow> bool" where
  start: "UDPServer_Start listens s = (err, s') \<Longrightarrow> server_step s s'"
| stop: "UDPServer_Stop finished s = Returns (err, s') \<Longrightarrow> server_step s s'"
| select: "uo_selecting s > 0 \<Longrightarrow> server_step s (handle_select s)"
| read: "g \<in> set (uo_reading s) \<Longrightarrow> possible g r s \<Longrightarrow> server_step s (handle_read g r s)"
| elsewhere: "map_step (uo_serviceMap s) m \<Longrightarrow> server_step s (s\<lparr>uo_serviceMap := m\<rparr>)"

inductive_cases server_stepE: "server_step s s'"

definition server_start :: "UDPServer \<Rightarrow> bool" where
  "server_start s \<longleftrightarrow> (\<exists>udpPort m. map_start m \<and> s = NewUDPServer udpPort m)"

text \<open>Readers are on sockets that have been opened, on an old one when the server has been shut down and
  started again; the service map is in order.\<close>

definition server_ok :: "UDPServer \<Rightarrow> bool" where
  "server_ok s \<longleftrightarrow> (\<forall>g \<in> set (uo_reading s). g \<le> uo_sockets s)
     \<and> (uo_shutdown s \<longrightarrow> \<not> (uo_open s \<and> uo_sockets s \<in> set (uo_reading s)))
     \<and> (uo_open s \<longleftrightarrow> uo_running s) \<and> map_ok (uo_serviceMap s)"

lemma routed_map_ok: "map_ok m \<Longrightarrow> map_ok (snd (routePacket now written port addr m))"
  by (metis map_step.packet map_step_ok prod.collapse)

lemma server_start_ok: "server_start s \<Longrightarrow> server_ok s"
  by (auto simp: server_start_def server_ok_def NewUDPServer_def map_start_ok)

lemma handle_read_ok: "server_ok s \<Longrightarrow> possible g r s \<Longrightarrow> server_ok (handle_read g r s)"
  by (cases r) (auto simp: server_ok_def again_def routed_map_ok dest: in_set_remove1 notin_set_remove1)

lemma server_step_ok: "server_ok s \<Longrightarrow> server_step s s' \<Longrightarrow> server_ok s'"
proof (erule server_stepE)
  fix g r assume "server_ok s" "s' = handle_read g r s" "possible g r s"
  then show "server_ok s'" by (simp add: handle_read_ok)
qed (fastforce simp: server_ok_def UDPServer_Start_def UDPServer_Stop_def handle_select_def map_step_ok split: if_splits)+

interpretation udp_serving: kept_invariant server_start server_step server_ok
  by unfold_locales (auto intro: server_start_ok server_step_ok)

lemma shutdown_stays: "server_step s s' \<Longrightarrow> uo_shutdown s \<Longrightarrow> uo_shutdown s'"
proof (erule server_stepE)
  fix g r assume "uo_shutdown s" "s' = handle_read g r s"
  then show "uo_shutdown s'" by (cases r) (simp_all add: again_def)
qed (auto simp: UDPServer_Start_def UDPServer_Stop_def handle_select_def split: if_splits)

lemma shutdown_forever: "server_step\<^sup>*\<^sup>* s s' \<Longrightarrow> uo_shutdown s \<Longrightarrow> uo_shutdown s'"
  by (induction rule: rtranclp_induct) (auto intro: shutdown_stays)

lemma reach_steps: "server_step\<^sup>*\<^sup>* s s' \<Longrightarrow> reach server_start server_step s \<Longrightarrow> reach server_start server_step s'"
  by (induction rule: rtranclp_induct) (auto intro: reach_step)

text \<open>A server that was stopped once does not come back. It can be started again, which opens its port
  and reports success, but from then on it never reads a packet, and stopping it panics: the channel
  that tells its goroutines to end stays closed.\<close>

theorem stopped_server_deaf:
  assumes "reach server_start server_step s" "uo_shutdown s" "server_step\<^sup>*\<^sup>* s s'"
  shows "\<not> (g \<in> set (uo_reading s') \<and> possible g (ReadPacket now written addr) s')"
    and "uo_running s' \<Longrightarrow> UDPServer_Stop finished s' = Panics ''close of closed channel''"
proof -
  have "server_ok s'" using assms(1,3) udp_serving.reach_inv reach_steps by blast
  moreover have "uo_shutdown s'" using assms(2,3) shutdown_forever by blast
  ultimately show "\<not> (g \<in> set (uo_reading s') \<and> possible g (ReadPacket now written addr) s')"
    and "uo_running s' \<Longrightarrow> UDPServer_Stop finished s' = Panics ''close of closed channel''"
    by (auto simp: server_ok_def UDPServer_Stop_def)
qed

end
