(* ===== verification/Configs.thy ===== *)
theory Configs
  imports Strconv
begin

section \<open>Configuration\<close>

text \<open>
  Models \<open>internal/server/config.go\<close>: the ports and the paths of the files the proxy keeps, with
  \<open>path.Join\<close> and \<open>path.Clean\<close> of the Go library. What the operating system says about directories is
  an argument.
\<close>

definition DefaultHttpPort :: int where
  "DefaultHttpPort = 80"

definition DefaultHttpsPort :: int where
  "DefaultHttpsPort = 443"

definition DefaultUdpPort :: int where
  "DefaultUdpPort = 8080"

record Config =
  cf_Bind :: string
  cf_HttpPort :: int
  cf_HttpsPort :: int
  cf_UdpPort :: int
  cf_MetricsPort :: int
  cf_AlternateConfigDir :: string

record OsEnv =
  os_XDG_RUNTIME_DIR :: string
  os_TempDir :: string
  os_UserHomeDir :: "string option"
  os_MkdirAll :: "string \<Rightarrow> bool"

subsection \<open>Paths\<close>

definition slash :: byte where
  "slash = CHR ''/''"

text \<open>One component on the stack of \<open>path.Clean\<close>, which is kept in reverse.\<close>

definition clean_part :: "bool \<Rightarrow> string list \<Rightarrow> string \<Rightarrow> string list" where
  "clean_part rooted st part =
     (if part = [] \<or> part = ''.'' then st
      else if part = ''..'' then
        (case st of
           [] \<Rightarrow> if rooted then [] else [''..'']
         | upper # below \<Rightarrow> if upper = ''..'' then ''..'' # st else below)
      else part # st)"

definition path_Clean :: "string \<Rightarrow> string" where
  "path_Clean p =
     (let rooted = HasPrefix p [slash];
          out = Join (rev (foldl (clean_part rooted) [] (SplitByte slash p))) [slash]
      in if rooted then slash # out else if out = [] then ''.'' else out)"

definition path_Join :: "string list \<Rightarrow> string" where
  "path_Join elems =
     (case dropWhile (\<lambda>e. e = []) elems of
        [] \<Rightarrow> []
      | es \<Rightarrow> path_Clean (Join es [slash]))"

definition cmp_Or :: "string \<Rightarrow> string \<Rightarrow> string" where
  "cmp_Or a b = (if a \<noteq> [] then a else b)"

definition defaultDataDirectory :: "OsEnv \<Rightarrow> string" where
  "defaultDataDirectory os =
     (let home = (case os_UserHomeDir os of None \<Rightarrow> os_TempDir os | Some h \<Rightarrow> h);
          dir = path_Join [home, ''.config'', ''kamal-proxy'']
      in if os_MkdirAll os dir then dir else os_TempDir os)"

definition dataDirectory :: "OsEnv \<Rightarrow> Config \<Rightarrow> string" where
  "dataDirectory os c = cmp_Or (cf_AlternateConfigDir c) (defaultDataDirectory os)"

definition runtimeDirectory :: "OsEnv \<Rightarrow> string" where
  "runtimeDirectory os = cmp_Or (os_XDG_RUNTIME_DIR os) (os_TempDir os)"

definition SocketPath :: "OsEnv \<Rightarrow> Config \<Rightarrow> string" where
  "SocketPath os c = path_Join [runtimeDirectory os, ''kamal-proxy.sock'']"

definition StatePath :: "OsEnv \<Rightarrow> Config \<Rightarrow> string" where
  "StatePath os c = path_Join [dataDirectory os c, ''kamal-proxy.state'']"

definition CertificatePath :: "OsEnv \<Rightarrow> Config \<Rightarrow> string" where
  "CertificatePath os c = path_Join [dataDirectory os c, ''certs'']"

definition UdpStatePath :: "OsEnv \<Rightarrow> Config \<Rightarrow> string" where
  "UdpStatePath os c = path_Join [dataDirectory os c, ''kamal-proxy-udp.state'']"

definition SessionStorePath :: "OsEnv \<Rightarrow> Config \<Rightarrow> string" where
  "SessionStorePath os c = path_Join [dataDirectory os c, ''udp-sessions'']"

subsection \<open>The files are apart\<close>

text \<open>A file name: one that \<open>path.Clean\<close> keeps as it is.\<close>

definition plain_name :: "string \<Rightarrow> bool" where
  "plain_name n \<longleftrightarrow> slash \<notin> set n \<and> n \<notin> {[], ''.'', ''..''}"

lemma SplitByte_snoc: "c \<notin> set n \<Longrightarrow> SplitByte c (d @ c # n) = SplitByte c d @ [n]"
  by (induction d) (auto simp: SplitByte_free split: list.split)

lemma Join_snoc: "ps \<noteq> [] \<Longrightarrow> Join (ps @ [n]) sep = Join ps sep @ sep @ n"
  by (induction ps sep rule: Join.induct) auto

lemma clean_name:
  assumes "plain_name n"
  shows "\<exists>d'. path_Clean (d @ slash # n) = d' @ n \<and> (d' = [] \<or> last d' = slash)"
proof -
  define r where "r = HasPrefix (d @ slash # n) [slash]"
  define st where "st = foldl (clean_part r) [] (SplitByte slash d)"
  have n: "slash \<notin> set n" "n \<noteq> []" "n \<noteq> ''.''" "n \<noteq> ''..''" using assms by (simp_all add: plain_name_def)
  have f: "foldl (clean_part r) [] (SplitByte slash (d @ slash # n)) = n # st"
    using n by (simp add: SplitByte_snoc clean_part_def st_def)
  have c: "path_Clean (d @ slash # n) = (if r then [slash] else []) @ Join (rev st @ [n]) [slash]"
    using n unfolding path_Clean_def r_def [symmetric] Let_def f by (cases "st = []") (simp_all add: Join_snoc)
  show ?thesis
  proof (cases "st = []")
    case True
    then show ?thesis using c by (intro exI [of _ "if r then [slash] else []"]) simp
  next
    case False
    then show ?thesis using c
      by (intro exI [of _ "(if r then [slash] else []) @ Join (rev st) [slash] @ [slash]"]) (simp add: Join_snoc)
  qed
qed

lemma clean_plain: "plain_name n \<Longrightarrow> path_Clean n = n"
  unfolding path_Clean_def plain_name_def
  by (simp add: SplitByte_free clean_part_def Let_def) (cases n, simp_all add: HasPrefix_def)

lemma file_part:
  assumes "plain_name n" "e = [] \<or> last e = slash"
  shows "rev (takeWhile (\<lambda>c. c \<noteq> slash) (rev (e @ n))) = n"
proof -
  have "takeWhile (\<lambda>c. c \<noteq> slash) (rev n @ xs) = rev n @ takeWhile (\<lambda>c. c \<noteq> slash) xs" for xs
    using assms(1) by (intro takeWhile_append2) (auto simp: plain_name_def)
  then have "takeWhile (\<lambda>c. c \<noteq> slash) (rev (e @ n)) = rev n @ takeWhile (\<lambda>c. c \<noteq> slash) (rev e)" by simp
  moreover have "takeWhile (\<lambda>c. c \<noteq> slash) (rev e) = []" using assms(2) by (cases e rule: rev_cases) simp_all
  ultimately show ?thesis by (simp only: append_Nil2 rev_rev_ident)
qed

text \<open>Files of different names in a directory have different paths, even when the directory's own path
  is not clean.\<close>

lemma path_Join_inj:
  assumes "plain_name n" "plain_name n'" "path_Join [d, n] = path_Join [d, n']"
  shows "n = n'"
proof -
  have j: "path_Join [d, x] = (if d = [] then path_Clean x else path_Clean (d @ slash # x))" if "plain_name x" for x
    using that by (simp add: path_Join_def plain_name_def)
  show ?thesis
  proof (cases "d = []")
    case True
    with assms j clean_plain show ?thesis by simp
  next
    case False
    obtain e where e: "path_Clean (d @ slash # n) = e @ n" "e = [] \<or> last e = slash" using clean_name [OF assms(1)] by blast
    obtain e' where e': "path_Clean (d @ slash # n') = e' @ n'" "e' = [] \<or> last e' = slash" using clean_name [OF assms(2)] by blast
    have "e @ n = e' @ n'" using assms j False e(1) e'(1) by simp
    then show ?thesis using file_part [OF assms(1) e(2)] file_part [OF assms(2) e'(2)] by metis
  qed
qed

lemma data_paths_distinct: "distinct [StatePath os c, CertificatePath os c, UdpStatePath os c, SessionStorePath os c]"
proof -
  let ?names = "[''kamal-proxy.state'', ''certs'', ''kamal-proxy-udp.state'', ''udp-sessions'']"
  have "\<forall>n \<in> set ?names. plain_name n" by (simp add: plain_name_def slash_def)
  then have "inj_on (\<lambda>n. path_Join [dataDirectory os c, n]) (set ?names)" by (intro inj_onI) (metis path_Join_inj)
  moreover have "distinct ?names" by simp
  ultimately have "distinct (map (\<lambda>n. path_Join [dataDirectory os c, n]) ?names)" by (simp only: distinct_map simp_thms)
  then show ?thesis by (simp only: list.map StatePath_def CertificatePath_def UdpStatePath_def SessionStorePath_def)
qed

end
