(* ===== verification/Servers.thy ===== *)
theory Servers
  imports Commands UdpServers Configs
begin

section \<open>Starting and stopping the proxy\<close>

text \<open>
  Models the rest of \<open>internal/server/server.go\<close>: creating, starting and stopping the server with its
  listeners for metrics, HTTP, HTTPS, UDP and commands. Which addresses can be listened on is an
  argument, as are the files of the session store. Serving on the HTTP listeners is \<open>net/http\<close>.
\<close>

record ListenEnv =
  lv_metrics :: bool
  lv_http :: bool
  lv_https :: bool
  lv_udp :: bool
  lv_commands :: bool

record Server =
  sr_config :: Config
  sr_router :: Router
  sr_metrics :: bool
  sr_http :: bool
  sr_https :: bool
  sr_udpServer :: UDPServer
  sr_commands :: "bool option"

text \<open>\<open>sr_commands\<close> says whether there is a command handler and whether it has a listener.\<close>

datatype start_error = MetricsFailed | HttpFailed | HttpsFailed | UdpFailed server_error | CommandsFailed

definition NewServer ::
  "OsEnv \<Rightarrow> string list \<Rightarrow> instant \<Rightarrow> FileSessionStore \<Rightarrow> (nat \<Rightarrow> UDPTarget) \<Rightarrow> (nat \<Rightarrow> UDPServiceDeployment) \<Rightarrow> Config \<Rightarrow> Router \<Rightarrow> Server" where
  "NewServer os files now fs targets memory config router =
     \<lparr>sr_config = config, sr_router = router, sr_metrics = False, sr_http = False, sr_https = False,
      sr_udpServer = NewUDPServer (cf_UdpPort config)
        (NewUDPServiceMap files now fs (SessionStorePath os config) targets memory),
      sr_commands = None\<rparr>"

definition startMetricsServer :: "ListenEnv \<Rightarrow> Server \<Rightarrow> start_error option \<times> Server" where
  "startMetricsServer lv s =
     (if cf_MetricsPort (sr_config s) = 0 then (None, s)
      else if \<not> lv_metrics lv then (Some MetricsFailed, s)
      else (None, s\<lparr>sr_metrics := True\<rparr>))"

text \<open>The listeners of HTTP and HTTPS are opened one after the other and served only when both are open.\<close>

definition startHTTPServers :: "ListenEnv \<Rightarrow> Server \<Rightarrow> start_error option \<times> Server" where
  "startHTTPServers lv s =
     (if \<not> lv_http lv then (Some HttpFailed, s)
      else if \<not> lv_https lv then (Some HttpsFailed, s)
      else (None, s\<lparr>sr_http := True, sr_https := True\<rparr>))"

definition startUDPServer :: "ListenEnv \<Rightarrow> Server \<Rightarrow> start_error option \<times> Server" where
  "startUDPServer lv s =
     (let (err, u) = UDPServer_Start (lv_udp lv) (sr_udpServer s) in (map_option UdpFailed err, s\<lparr>sr_udpServer := u\<rparr>))"

definition startCommandHandler :: "ListenEnv \<Rightarrow> Server \<Rightarrow> start_error option \<times> Server" where
  "startCommandHandler lv s =
     (if lv_commands lv then (None, s\<lparr>sr_commands := Some True\<rparr>) else (Some CommandsFailed, s\<lparr>sr_commands := Some False\<rparr>))"

fun in_order :: "(Server \<Rightarrow> start_error option \<times> Server) list \<Rightarrow> Server \<Rightarrow> start_error option \<times> Server" where
  "in_order [] s = (None, s)"
| "in_order (f # fs) s = (case f s of (Some err, s') \<Rightarrow> (Some err, s') | (None, s') \<Rightarrow> in_order fs s')"

definition Server_Start :: "ListenEnv \<Rightarrow> Server \<Rightarrow> start_error option \<times> Server" where
  "Server_Start lv = in_order [startMetricsServer lv, startHTTPServers lv, startUDPServer lv, startCommandHandler lv]"

text \<open>The five parts that \<open>Stop\<close> ends concurrently do not share state; only the UDP server's error could
  be seen, and it is logged.\<close>

definition stopUDPServer :: "bool \<Rightarrow> Server \<Rightarrow> Server outcome" where
  "stopUDPServer finished s =
     bind_outcome (UDPServer_Stop finished (sr_udpServer s)) (\<lambda>(_, u). Returns (s\<lparr>sr_udpServer := u\<rparr>))"

definition Server_Stop :: "bool \<Rightarrow> Server \<Rightarrow> Server outcome" where
  "Server_Stop finished s =
     (if sr_commands s \<noteq> Some True then Panics ''nil pointer dereference''
      else stopUDPServer finished (s\<lparr>sr_commands := Some False, sr_http := False, sr_https := False, sr_metrics := False\<rparr>))"

subsection \<open>A start and a stop\<close>

text \<open>A new server starts exactly when every address it needs is free, and reports the first that is not;
  stopping it closes every listener.\<close>

lemma server_lifecycle:
  assumes "s = NewServer os files now fs targets memory config router"
  shows "fst (Server_Start lv s) =
      (if cf_MetricsPort config \<noteq> 0 \<and> \<not> lv_metrics lv then Some MetricsFailed
       else if \<not> lv_http lv then Some HttpFailed else if \<not> lv_https lv then Some HttpsFailed
       else if \<not> lv_udp lv then Some (UdpFailed (ListenerFailed (cf_UdpPort config)))
       else if \<not> lv_commands lv then Some CommandsFailed else None)"
    and "Server_Start lv s = (None, s1) \<Longrightarrow>
      \<exists>s2. Server_Stop finished s1 = Returns s2 \<and> \<not> sr_metrics s2 \<and> \<not> sr_http s2 \<and> \<not> sr_https s2 \<and> \<not> uo_open (sr_udpServer s2)
        \<and> sr_commands s2 = Some False"
proof -
  show "fst (Server_Start lv s) =
      (if cf_MetricsPort config \<noteq> 0 \<and> \<not> lv_metrics lv then Some MetricsFailed
       else if \<not> lv_http lv then Some HttpFailed else if \<not> lv_https lv then Some HttpsFailed
       else if \<not> lv_udp lv then Some (UdpFailed (ListenerFailed (cf_UdpPort config)))
       else if \<not> lv_commands lv then Some CommandsFailed else None)"
    by (auto simp: assms Server_Start_def NewServer_def NewUDPServer_def startMetricsServer_def startHTTPServers_def
        startUDPServer_def startCommandHandler_def UDPServer_Start_def)
  show "\<exists>s2. Server_Stop finished s1 = Returns s2 \<and> \<not> sr_metrics s2 \<and> \<not> sr_http s2 \<and> \<not> sr_https s2
      \<and> \<not> uo_open (sr_udpServer s2) \<and> sr_commands s2 = Some False" if "Server_Start lv s = (None, s1)"
    using that
    by (auto simp: assms Server_Start_def NewServer_def NewUDPServer_def startMetricsServer_def startHTTPServers_def
        startUDPServer_def startCommandHandler_def UDPServer_Start_def Server_Stop_def stopUDPServer_def UDPServer_Stop_def
        split: if_splits option.splits prod.splits)
qed

subsection \<open>Sessions and restarts\<close>

lemma load_dropped:
  "\<forall>s \<in> set ss. se_ID s = i \<longrightarrow> timed_out (sn_config sm) now s \<Longrightarrow> sn_sessions sm i = None \<Longrightarrow>
     sn_sessions (foldl (load_one now) sm ss) i = None"
proof (induction ss arbitrary: sm)
  case (Cons s ss)
  have "sn_sessions (load_one now sm s) i = None" "sn_config (load_one now sm s) = sn_config sm"
    using Cons.prems by (auto simp: load_one_def)
  with Cons show ?case by simp
qed simp

lemma NewSessionManager_drops:
  assumes "keyed fs" "fs i = Some z" "timed_out config now z" "sc_PersistenceEnabled config"
  shows "sn_sessions (NewSessionManager files now fs config) i = None"
proof -
  let ?sm = "\<lparr>sn_sessions = Map.empty, sn_store = Some fs, sn_config = config, sn_pending = [], sn_shutdown = False\<rparr>"
  have "\<forall>s \<in> set (LoadSessions files fs). se_ID s = i \<longrightarrow> timed_out config now s"
    using assms(1-3) by (auto simp: LoadSessions_def List.map_filter_def keyed_def)
  then have "sn_sessions (foldl (load_one now) ?sm (LoadSessions files fs)) i = None" by (intro load_dropped) simp_all
  with assms(4) show ?thesis by (simp add: NewSessionManager_def loadPersistedSessions_def Let_def)
qed

lemma Server_Stop_sessions:
  "Server_Stop finished s = Returns s' \<Longrightarrow> w_sessions (uo_serviceMap (sr_udpServer s')) = w_sessions (uo_serviceMap (sr_udpServer s))"
  by (auto simp: Server_Stop_def stopUDPServer_def UDPServer_Stop_def split: if_splits)

text \<open>A restart forgets clients that were just served. A session is written to its file when it gets a
  target, not when it is seen again, and stopping the server does not stop the session manager, which
  would write it: so a packet at any time leaves the files as they are, the stop too, and a
  server that is then started drops the session when its file is older than the idle timeout.\<close>

theorem restart_forgets_sessions:
  assumes v: "ServiceForPort (uo_port u) (uo_serviceMap u) = Some v"
    and i: "i = generateSessionID (sn_config (w_sessions (uo_serviceMap u))) (flow addr (uv_port v))"
    and s: "sn_sessions (w_sessions (uo_serviceMap u)) i = Some z" "is_active z" "se_Target z = Some t"
    and t: "ut_healthy (w_targets (uo_serviceMap u) t)"
    and f: "sn_store (w_sessions (uo_serviceMap u)) = Some fs" "keyed fs" "fs i = Some old"
    and c: "sc_PersistenceEnabled config" "timed_out config later old"
    and stop: "Server_Stop finished (srv\<lparr>sr_udpServer := handle_read g (ReadPacket now written addr) u\<rparr>) = Returns srv'"
  shows "sn_sessions (w_sessions (uo_serviceMap (sr_udpServer srv'))) i = Some (z\<lparr>se_LastSeen := now\<rparr>)
    \<and> sn_store (w_sessions (uo_serviceMap (sr_udpServer srv'))) = Some fs
    \<and> sn_sessions (NewSessionManager files later fs config) i = None"
proof -
  let ?m = "uo_serviceMap u"
  have "RoutePacket now (w_targets ?m) addr (uv_port v) (uv_name v) (uv_targets v) (w_sessions ?m)
      = (Inr (t, i), put_session i (z\<lparr>se_LastSeen := now\<rparr>) (w_sessions ?m))"
    using s i t by (intro active_session_routed) simp_all
  then have "w_sessions (snd (routePacket now written (uo_port u) addr ?m)) = put_session i (z\<lparr>se_LastSeen := now\<rparr>) (w_sessions ?m)"
    by (simp add: routePacket_def v ServeUDP_def)
  with Server_Stop_sessions [OF stop] f(1) NewSessionManager_drops [OF f(2,3) c(2,1)] show ?thesis
    by (simp add: again_def put_session_def)
qed

subsection \<open>Examples\<close>

definition ex_flow_id :: string where
  "ex_flow_id = generateSessionID (sn_config (w_sessions ex_served)) (flow ex_client 8080)"

definition ex_files :: FileSessionStore where
  "ex_files = [ex_flow_id \<mapsto> the (sn_sessions (w_sessions ex_served) ex_flow_id)]"

definition ex_server :: UDPServer where
  "ex_server = NewUDPServer 8080 (ex_served\<lparr>w_sessions := (w_sessions ex_served)\<lparr>sn_store := Some ex_files\<rparr>\<rparr>)"

definition ex_running :: Server where
  "ex_running = \<lparr>sr_config = \<lparr>cf_Bind = [], cf_HttpPort = DefaultHttpPort, cf_HttpsPort = DefaultHttpsPort,
       cf_UdpPort = DefaultUdpPort, cf_MetricsPort = 0, cf_AlternateConfigDir = []\<rparr>,
     sr_router = NewRouter None, sr_metrics = False, sr_http = True, sr_https = True, sr_udpServer = ex_server,
     sr_commands = Some True\<rparr>"

text \<open>The client's last packet is at 990, the restart at 1000, and the idle timeout is 60.\<close>

theorem restart_forgets_sessions_witness:
  "\<exists>srv' z. Server_Stop True (ex_running\<lparr>sr_udpServer := handle_read 1 (ReadPacket 990 (\<lambda>_. True) ex_client) ex_server\<rparr>) = Returns srv'
    \<and> sn_sessions (w_sessions (uo_serviceMap (sr_udpServer srv'))) ex_flow_id = Some (z\<lparr>se_LastSeen := 990\<rparr>)
    \<and> sn_sessions (NewSessionManager [ex_flow_id] 1000 ex_files ex_session_config) ex_flow_id = None"
proof -
  obtain z where z: "sn_sessions (w_sessions ex_served) ex_flow_id = Some z" "is_active z" "se_Target z = Some 0"
    "se_LastSeen z = 7" "se_ID z = ex_flow_id" using ex_served_simps(5) unfolding ex_flow_id_def ex_served_simps(3) by blast
  have v: "ServiceForPort (uo_port ex_server) (uo_serviceMap ex_server) = Some ex_game"
    by (simp add: ex_server_def NewUDPServer_def ServiceForPort_def ex_served_simps)
  have i: "ex_flow_id = generateSessionID (sn_config (w_sessions (uo_serviceMap ex_server))) (flow ex_client (uv_port ex_game))"
    by (simp add: ex_server_def NewUDPServer_def ex_flow_id_def) (simp add: ex_game_def)
  have s: "sn_sessions (w_sessions (uo_serviceMap ex_server)) ex_flow_id = Some z"
    and t: "ut_healthy (w_targets (uo_serviceMap ex_server) 0)"
    and f: "sn_store (w_sessions (uo_serviceMap ex_server)) = Some ex_files"
    using z by (simp_all add: ex_server_def NewUDPServer_def ex_served_simps)
  have k: "keyed ex_files" "ex_files ex_flow_id = Some z" using z by (simp_all add: ex_files_def keyed_def)
  have c: "sc_PersistenceEnabled ex_session_config" "timed_out ex_session_config 1000 z"
    using z by (simp_all add: ex_session_config_def timed_out_def)
  obtain srv' where d: "Server_Stop True (ex_running\<lparr>sr_udpServer := handle_read 1 (ReadPacket 990 (\<lambda>_. True) ex_client) ex_server\<rparr>)
      = Returns srv'"
    by (simp add: Server_Stop_def stopUDPServer_def UDPServer_Stop_def ex_running_def again_def ex_server_def NewUDPServer_def)
  from restart_forgets_sessions [OF v i s z(2,3) t f k c d, of "[ex_flow_id]"] d show ?thesis by blast
qed

end
