(* ===== verification/Cli.thy ===== *)
theory Cli
  imports Servers
begin

section \<open>The command line\<close>

text \<open>
  Models the commands of \<open>internal/cmd\<close>: the defaults of their flags, the checks before they run, and the
  remote call they make. Parsing the flags is the cobra library: a command is given with the values
  of its flags, and with the names of the flags that were set. Dialling the socket and printing what
  was done are not modelled.
\<close>

subsection \<open>Environment variables\<close>

type_synonym variables = "string \<rightharpoonup> string"

definition findEnv :: "variables \<Rightarrow> string \<Rightarrow> string option" where
  "findEnv env key =
     (case env (''KAMAL_PROXY_'' @ key) of Some value \<Rightarrow> Some value | None \<Rightarrow> env key)"

definition Atoi :: "string \<Rightarrow> int option" where
  "Atoi s = ParseInt s"

definition ParseBool :: "string \<Rightarrow> bool option" where
  "ParseBool s =
     (if s \<in> {''1'', ''t'', ''T'', ''TRUE'', ''true'', ''True''} then Some True
      else if s \<in> {''0'', ''f'', ''F'', ''FALSE'', ''false'', ''False''} then Some False else None)"

definition getEnvInt :: "variables \<Rightarrow> string \<Rightarrow> int \<Rightarrow> int" where
  "getEnvInt env key defaultValue =
     (case findEnv env key of
        None \<Rightarrow> defaultValue
      | Some value \<Rightarrow> (case Atoi value of None \<Rightarrow> defaultValue | Some n \<Rightarrow> n))"

definition getEnvBool :: "variables \<Rightarrow> string \<Rightarrow> bool \<Rightarrow> bool" where
  "getEnvBool env key defaultValue =
     (case findEnv env key of
        None \<Rightarrow> defaultValue
      | Some value \<Rightarrow> (case ParseBool value of None \<Rightarrow> defaultValue | Some b \<Rightarrow> b))"

text \<open>The configuration of \<open>run\<close> before its flags are parsed.\<close>

definition run_defaults :: "variables \<Rightarrow> Config" where
  "run_defaults env =
     \<lparr>cf_Bind = [], cf_HttpPort = getEnvInt env ''HTTP_PORT'' DefaultHttpPort,
      cf_HttpsPort = getEnvInt env ''HTTPS_PORT'' DefaultHttpsPort, cf_UdpPort = getEnvInt env ''UDP_PORT'' DefaultUdpPort,
      cf_MetricsPort = getEnvInt env ''METRICS_PORT'' 0, cf_AlternateConfigDir = []\<rparr>"

subsection \<open>Commands that only make a call\<close>

definition DefaultDeployTimeout :: duration where
  "DefaultDeployTimeout = seconds 30"

definition DefaultPauseTimeout :: duration where
  "DefaultPauseTimeout = seconds 30"

definition DefaultStopMessage :: string where
  "DefaultStopMessage = []"

definition newPauseCommand :: PauseArgs where
  "newPauseCommand = \<lparr>pa_Service = [], pa_DrainTimeout = DefaultDrainTimeout, pa_PauseTimeout = DefaultPauseTimeout\<rparr>"

definition pause_run :: "string \<Rightarrow> PauseArgs \<Rightarrow> rpc_call" where
  "pause_run service args = Pause (args\<lparr>pa_Service := service\<rparr>)"

definition newStopCommand :: StopArgs where
  "newStopCommand = \<lparr>sa_Service = [], sa_DrainTimeout = DefaultDrainTimeout, sa_Message = DefaultStopMessage\<rparr>"

definition stop_run :: "string \<Rightarrow> StopArgs \<Rightarrow> rpc_call" where
  "stop_run service args = Stop (args\<lparr>sa_Service := service\<rparr>)"

definition resume_run :: "string \<Rightarrow> ResumeArgs \<Rightarrow> rpc_call" where
  "resume_run service args = Resume (args\<lparr>ra_Service := service\<rparr>)"

definition remove_run :: "string \<Rightarrow> RemoveArgs \<Rightarrow> rpc_call" where
  "remove_run service args = Remove (args\<lparr>rm_Service := service\<rparr>)"

definition newRolloutDeployCommand :: RolloutDeployArgs where
  "newRolloutDeployCommand = \<lparr>rd_Service = [], rd_TargetURLs = [], rd_ReaderURLs = [],
     rd_DeployTimeout = DefaultDeployTimeout, rd_DrainTimeout = DefaultDrainTimeout\<rparr>"

definition rollout_deploy_run :: "string \<Rightarrow> (nat \<times> bool) list \<Rightarrow> RolloutDeployArgs \<Rightarrow> rpc_call" where
  "rollout_deploy_run service reports args = RolloutDeploy reports (args\<lparr>rd_Service := service\<rparr>)"

definition newRolloutSetCommand :: RolloutSetArgs where
  "newRolloutSetCommand = \<lparr>rs_Service = [], rs_Percentage = 0, rs_Allowlist = []\<rparr>"

definition rollout_set_run :: "string \<Rightarrow> RolloutSetArgs \<Rightarrow> rpc_call" where
  "rollout_set_run service args = RolloutSet (args\<lparr>rs_Service := service\<rparr>)"

definition rollout_stop_run :: "string \<Rightarrow> RolloutStopArgs \<Rightarrow> rpc_call" where
  "rollout_stop_run service args = RolloutStop (args\<lparr>rx_Service := service\<rparr>)"

subsection \<open>deploy\<close>

definition ACMEStagingDirectoryURL :: string where
  "ACMEStagingDirectoryURL = ''https://acme-staging-v02.api.letsencrypt.org/directory''"

record deployCommand =
  dc_args :: DeployArgs
  dc_tlsStaging :: bool
  dc_changed :: "string list"

text \<open>The flags' defaults.\<close>

definition newDeployCommand :: deployCommand where
  "newDeployCommand =
     \<lparr>dc_args = \<lparr>da_Service = [], da_TargetURLs = [], da_ReaderURLs = [], da_DeployTimeout = DefaultDeployTimeout,
        da_DrainTimeout = DefaultDrainTimeout,
        da_ServiceOptions = \<lparr>so_Hosts = [], so_PathPrefixes = [], so_TLSEnabled = False, so_TLSCertificatePath = [],
          so_TLSPrivateKeyPath = [], so_TLSRedirect = True, so_ACMEDirectory = [], so_ACMECachePath = [], so_ErrorPagePath = [],
          so_StripPrefix = True, so_WriterAffinityTimeout = seconds 3, so_ReadTargetsAcceptWebsockets = False\<rparr>,
        da_TargetOptions = \<lparr>to_HealthCheckConfig = \<lparr>hc_Path = ''/up'', hc_Interval = seconds 1, hc_Timeout = DefaultHealthCheckTimeout\<rparr>,
          to_ResponseTimeout = seconds 30, to_BufferRequests = False, to_BufferResponses = False,
          to_MaxMemoryBufferSize = 1048576, to_MaxRequestBodySize = 0, to_MaxResponseBodySize = 0,
          to_LogRequestHeaders = [], to_LogResponseHeaders = [], to_ForwardHeaders = False\<rparr>\<rparr>,
      dc_tlsStaging = False, dc_changed = []\<rparr>"

datatype cli_error =
    MaxRequestBodyNeedsBuffering
  | MaxResponseBodyNeedsBuffering
  | TLSNeedsHost
  | TLSNeedsRootPath
  | NoTargets
  | InvalidProtocol string
  | UDPNeedsPort
  | WebRTCNeedsPortRanges
  | RangeFormat string
  | RangeStart string
  | RangeEnd string
  | RangeBounds
  | RangeOrder
  | InvalidRTCPPolicy string
  | InvalidAffinityStrategy string
  | InvalidDrainStrategy string

definition flag_changed :: "deployCommand \<Rightarrow> string \<Rightarrow> bool" where
  "flag_changed c flag \<longleftrightarrow> flag \<in> set (dc_changed c)"

definition deploy_preRun :: "deployCommand \<Rightarrow> cli_error option \<times> deployCommand" where
  "deploy_preRun c =
     (let so = Normalize (da_ServiceOptions (dc_args c));
          c1 = c\<lparr>dc_args := (dc_args c)\<lparr>da_ServiceOptions := so\<rparr>\<rparr>;
          c2 = (if \<not> flag_changed c ''forward-headers''
                then c1\<lparr>dc_args := (dc_args c1)\<lparr>da_TargetOptions :=
                       (da_TargetOptions (dc_args c1))\<lparr>to_ForwardHeaders := \<not> so_TLSEnabled so\<rparr>\<rparr>\<rparr>
                else c1)
      in if flag_changed c ''max-request-body'' \<and> \<not> flag_changed c ''buffer-requests'' then (Some MaxRequestBodyNeedsBuffering, c1)
         else if flag_changed c ''max-response-body'' \<and> \<not> flag_changed c ''buffer-responses'' then (Some MaxResponseBodyNeedsBuffering, c1)
         else if so_TLSEnabled so then
           (if length (so_Hosts so) = 0 then (Some TLSNeedsHost, c2)
            else if ''/'' \<notin> set (so_PathPrefixes so) then (Some TLSNeedsRootPath, c2)
            else (None, c2))
         else (None, c2))"

definition deploy_run :: "OsEnv \<Rightarrow> Config \<Rightarrow> string \<Rightarrow> (nat \<times> bool) list \<Rightarrow> deployCommand \<Rightarrow> rpc_call" where
  "deploy_run os config service reports c =
     (let args = (dc_args c)\<lparr>da_Service := service\<rparr>; so = da_ServiceOptions args;
          so1 = (if so_TLSEnabled so
                 then (let so0 = so\<lparr>so_ACMECachePath := CertificatePath os config\<rparr>
                       in if dc_tlsStaging c then so0\<lparr>so_ACMEDirectory := ACMEStagingDirectoryURL\<rparr> else so0)
                 else so)
      in Deploy reports (args\<lparr>da_ServiceOptions := so1\<rparr>))"

subsection \<open>deploy-udp\<close>

record deployUDPCommand =
  du_args :: UDPDeployArgs
  du_webrtcArgs :: WebRTCDeployArgs
  du_sessionTimeout :: duration
  du_sessionAffinity :: bool
  du_affinityStrategy :: string
  du_protocol :: string
  du_portRanges :: "string list"
  du_rtcpPolicy :: string
  du_drainTimeout :: duration
  du_drainStrategy :: string
  du_forceKillTimeout :: duration
  du_zeroDowntime :: bool

definition newDeployUDPCommand :: deployUDPCommand where
  "newDeployUDPCommand =
     \<lparr>du_args = \<lparr>ud_Service = [], ud_TargetURLs = [], ud_Port = 0, ud_DeployTimeout = DefaultDeployTimeout, ud_SessionConfig = None\<rparr>,
      du_webrtcArgs = \<lparr>wd_Service = [], wd_TargetURLs = [], wd_PortRanges = [], wd_RTCPPolicy = [], wd_DeployTimeout = 0,
        wd_SessionConfig = None\<rparr>,
      du_sessionTimeout = seconds DefaultSessionTimeout, du_sessionAffinity = True, du_affinityStrategy = ''5-tuple'',
      du_protocol = ''udp'', du_portRanges = [], du_rtcpPolicy = ''adjacent'', du_drainTimeout = DefaultDrainTimeout,
      du_drainStrategy = ''graceful'', du_forceKillTimeout = seconds DefaultForceKillTimeout, du_zeroDowntime = False\<rparr>"

definition parse_range :: "string \<Rightarrow> cli_error + PortRange" where
  "parse_range rangeStr =
     (case SplitByte (CHR ''-'') rangeStr of
        [first, second] \<Rightarrow>
          (case Atoi first of
             None \<Rightarrow> Inl (RangeStart first)
           | Some start \<Rightarrow>
               (case Atoi second of
                  None \<Rightarrow> Inl (RangeEnd second)
                | Some end' \<Rightarrow>
                    if start \<le> 0 \<or> end' \<le> 0 \<or> start > 65535 \<or> end' > 65535 then Inl RangeBounds
                    else if start \<ge> end' then Inl RangeOrder
                    else Inr \<lparr>pr_Start = start, pr_End = end', pr_Step = 2\<rparr>))
      | _ \<Rightarrow> Inl (RangeFormat rangeStr))"

fun parsePortRanges :: "string list \<Rightarrow> cli_error + PortRange list" where
  "parsePortRanges [] = Inr []"
| "parsePortRanges (rangeStr # rest) =
     (case parse_range rangeStr of
        Inl err \<Rightarrow> Inl err
      | Inr r \<Rightarrow> (case parsePortRanges rest of Inl err \<Rightarrow> Inl err | Inr rs \<Rightarrow> Inr (r # rs)))"

text \<open>The part of \<open>preRun\<close> that depends on the protocol.\<close>

definition check_protocol :: "deployUDPCommand \<Rightarrow> cli_error + deployUDPCommand" where
  "check_protocol c =
     (if du_protocol c = ''udp'' then
        (if ud_Port (du_args c) \<le> 0 \<or> ud_Port (du_args c) > 65535 then Inl UDPNeedsPort else Inr c)
      else if length (du_portRanges c) = 0 then Inl WebRTCNeedsPortRanges
      else (case parsePortRanges (du_portRanges c) of
              Inl err \<Rightarrow> Inl err
            | Inr ranges \<Rightarrow>
                if du_rtcpPolicy c \<notin> set [''adjacent'', ''separate-range'', ''auto''] then Inl (InvalidRTCPPolicy (du_rtcpPolicy c))
                else Inr (c\<lparr>du_webrtcArgs := (du_webrtcArgs c)\<lparr>wd_PortRanges := ranges, wd_TargetURLs := ud_TargetURLs (du_args c),
                       wd_RTCPPolicy := du_rtcpPolicy c, wd_DeployTimeout := ud_DeployTimeout (du_args c)\<rparr>\<rparr>)))"

definition session_config :: "deployUDPCommand \<Rightarrow> SessionConfig" where
  "session_config c =
     \<lparr>sc_IdleTimeout = du_sessionTimeout c, sc_CleanupInterval = seconds DefaultCleanupInterval,
      sc_StickinessEnabled = du_sessionAffinity c, sc_StickinessStrategy = du_affinityStrategy c, sc_MaxSessions = 10000,
      sc_PersistenceEnabled = True, sc_StorePath = []\<rparr>"

definition deploy_udp_preRun :: "string \<Rightarrow> deployUDPCommand \<Rightarrow> cli_error + deployUDPCommand" where
  "deploy_udp_preRun serviceName c0 =
     (let c = c0\<lparr>du_args := (du_args c0)\<lparr>ud_Service := serviceName\<rparr>,
                 du_webrtcArgs := (du_webrtcArgs c0)\<lparr>wd_Service := serviceName\<rparr>\<rparr>
      in if length (ud_TargetURLs (du_args c)) = 0 then Inl NoTargets
         else if du_protocol c \<noteq> ''udp'' \<and> du_protocol c \<noteq> ''webrtc'' then Inl (InvalidProtocol (du_protocol c))
         else (case check_protocol c of
                 Inl err \<Rightarrow> Inl err
               | Inr c1 \<Rightarrow>
                   if du_affinityStrategy c1 \<notin> set [''5-tuple'', ''source-ip'', ''source-port''] then
                     Inl (InvalidAffinityStrategy (du_affinityStrategy c1))
                   else if du_drainStrategy c1 \<notin> set [''graceful'', ''immediate'', ''timeout''] then
                     Inl (InvalidDrainStrategy (du_drainStrategy c1))
                   else Inr (c1\<lparr>du_args := (du_args c1)\<lparr>ud_SessionConfig := Some (session_config c1)\<rparr>,
                                du_webrtcArgs := (du_webrtcArgs c1)\<lparr>wd_SessionConfig := Some (session_config c1)\<rparr>\<rparr>)))"

text \<open>The call that \<open>run\<close> makes.\<close>

definition zero_downtime_webrtc_args :: "deployUDPCommand \<Rightarrow> WebRTCZeroDowntimeDeployArgs" where
  "zero_downtime_webrtc_args c =
     (let a = du_webrtcArgs c
      in \<lparr>wz_Service = wd_Service a, wz_TargetURLs = wd_TargetURLs a, wz_PortRanges = wd_PortRanges a,
          wz_RTCPPolicy = wd_RTCPPolicy a, wz_DeployTimeout = wd_DeployTimeout a, wz_DrainTimeout = du_drainTimeout c,
          wz_ForceKillTimeout = du_forceKillTimeout c, wz_DrainStrategy = du_drainStrategy c,
          wz_SessionConfig = wd_SessionConfig a\<rparr>)"

definition zero_downtime_udp_args :: "deployUDPCommand \<Rightarrow> UDPZeroDowntimeDeployArgs" where
  "zero_downtime_udp_args c =
     (let a = du_args c
      in \<lparr>uz_Service = ud_Service a, uz_TargetURLs = ud_TargetURLs a, uz_Port = ud_Port a, uz_DeployTimeout = ud_DeployTimeout a,
          uz_DrainTimeout = du_drainTimeout c, uz_ForceKillTimeout = du_forceKillTimeout c, uz_DrainStrategy = du_drainStrategy c,
          uz_SessionConfig = ud_SessionConfig a\<rparr>)"

definition webrtc_run_call :: "deployUDPCommand \<Rightarrow> rpc_call" where
  "webrtc_run_call c =
     (if du_zeroDowntime c then DeployWebRTCZeroDowntime (zero_downtime_webrtc_args c) else DeployWebRTC (du_webrtcArgs c))"

definition udp_run_call :: "deployUDPCommand \<Rightarrow> rpc_call" where
  "udp_run_call c =
     (if du_zeroDowntime c then DeployUDPZeroDowntime (zero_downtime_udp_args c) else DeployUDP (du_args c))"

definition deploy_udp_run :: "deployUDPCommand \<Rightarrow> rpc_call" where
  "deploy_udp_run c = (if du_protocol c = ''webrtc'' then webrtc_run_call c else udp_run_call c)"

subsection \<open>Port ranges\<close>

text \<open>What a port range looks like, and how it is written.\<close>

definition valid_range :: "PortRange \<Rightarrow> bool" where
  "valid_range r \<longleftrightarrow> 1 \<le> pr_Start r \<and> pr_Start r < pr_End r \<and> pr_End r \<le> 65535 \<and> pr_Step r = 2"

definition denotes :: "string \<Rightarrow> PortRange \<Rightarrow> bool" where
  "denotes text r \<longleftrightarrow> valid_range r \<and> (\<exists>a b. text = a @ ''-'' @ b \<and> CHR ''-'' \<notin> set a \<and> CHR ''-'' \<notin> set b
     \<and> ParseInt a = Some (pr_Start r) \<and> ParseInt b = Some (pr_End r))"

definition range_text :: "PortRange \<Rightarrow> string" where
  "range_text r = FormatInt (pr_Start r) @ ''-'' @ FormatInt (pr_End r)"

lemma parse_range_iff: "parse_range text = Inr r \<longleftrightarrow> denotes text r"
proof -
  have two: "SplitByte (CHR ''-'') text = [a, b] \<longleftrightarrow> CHR ''-'' \<notin> set a \<and> CHR ''-'' \<notin> set b \<and> text = a @ ''-'' @ b" for a b
    by (simp add: SplitByte_iff)
  show ?thesis
  proof (cases "\<exists>a b. SplitByte (CHR ''-'') text = [a, b]")
    case True
    then obtain a b where s: "SplitByte (CHR ''-'') text = [a, b]" by blast
    have "denotes text r \<longleftrightarrow> valid_range r \<and> ParseInt a = Some (pr_Start r) \<and> ParseInt b = Some (pr_End r)"
    proof -
      have "a' = a \<and> b' = b" if "text = a' @ ''-'' @ b'" "CHR ''-'' \<notin> set a'" "CHR ''-'' \<notin> set b'" for a' b'
        using two [of a' b'] s that by simp
      moreover have "text = a @ ''-'' @ b" "CHR ''-'' \<notin> set a" "CHR ''-'' \<notin> set b" using two [of a b] s by simp_all
      ultimately show ?thesis unfolding denotes_def by blast
    qed
    moreover have "parse_range text = Inr r \<longleftrightarrow> valid_range r \<and> ParseInt a = Some (pr_Start r) \<and> ParseInt b = Some (pr_End r)"
      by (cases "ParseInt a"; cases "ParseInt b"; cases r) (auto simp: parse_range_def Atoi_def valid_range_def s)
    ultimately show ?thesis by blast
  next
    case False
    then have "\<not> denotes text r" unfolding denotes_def using two by blast
    with False show ?thesis by (auto simp: parse_range_def split: list.splits)
  qed
qed

lemma parsePortRanges_iff: "parsePortRanges texts = Inr rs \<longleftrightarrow> list_all2 denotes texts rs"
proof (induction texts arbitrary: rs)
  case (Cons x texts)
  show ?case
  proof (cases "parse_range x")
    case (Inl e)
    then have "\<nexists>r. denotes x r" using parse_range_iff [of x] by auto
    with Inl show ?thesis by (auto simp: list_all2_Cons1)
  next
    case (Inr r)
    then have "denotes x r' \<longleftrightarrow> r' = r" for r' using parse_range_iff [of x r'] by auto
    with Inr Cons show ?thesis by (cases "parsePortRanges texts") (auto simp: list_all2_Cons1)
  qed
qed auto

lemma denotes_range_text: "valid_range r \<Longrightarrow> denotes (range_text r) r"
  unfolding denotes_def range_text_def valid_range_def
  by (intro conjI exI [of _ "FormatInt (pr_Start r)"] exI [of _ "FormatInt (pr_End r)"])
    (auto simp: minus_not_in_FormatInt ParseInt_FormatInt)

text \<open>\<open>parsePortRanges\<close> is exactly the parser of its format: it accepts a list of texts as a list of ranges
  if and only if each text is two decimal numbers around a single minus sign, which are ports in increasing order. In
  particular every list of ranges can be written and is read back.\<close>

theorem port_ranges_parsed:
  "(parsePortRanges texts = Inr rs \<longleftrightarrow> list_all2 denotes texts rs)
   \<and> (list_all valid_range rs \<longrightarrow> parsePortRanges (map range_text rs) = Inr rs)"
  by (auto simp: parsePortRanges_iff list_all2_conv_all_nth list_all_length denotes_range_text)

text \<open>The check for a host in \<open>deploy\<close> never fires, since normalising has put the empty host there.\<close>

lemma tls_host_check_dead: "fst (deploy_preRun c) \<noteq> Some TLSNeedsHost"
  by (simp add: deploy_preRun_def Normalize_def NormalizeHosts_def Let_def)

lemma tls_without_host_accepted:
  "so_TLSEnabled (da_ServiceOptions (dc_args c)) \<Longrightarrow> so_Hosts (da_ServiceOptions (dc_args c)) = [] \<Longrightarrow>
     so_PathPrefixes (da_ServiceOptions (dc_args c)) = [] \<Longrightarrow> dc_changed c = [''tls''] \<Longrightarrow> fst (deploy_preRun c) = None"
  by (simp add: deploy_preRun_def Normalize_def NormalizeHosts_def NormalizePathPrefixes_def rootPath_def flag_changed_def Let_def)

subsection \<open>What the checks ensure\<close>

lemma check_protocol_cases:
  assumes "check_protocol c = Inr c1"
  shows "(if du_protocol c = ''udp'' then c1 = c \<and> 1 \<le> ud_Port (du_args c) \<and> ud_Port (du_args c) \<le> 65535
     else \<exists>ranges. list_all2 denotes (du_portRanges c) ranges \<and> ranges \<noteq> []
       \<and> c1 = c\<lparr>du_webrtcArgs := (du_webrtcArgs c)\<lparr>wd_PortRanges := ranges, wd_TargetURLs := ud_TargetURLs (du_args c),
                 wd_RTCPPolicy := du_rtcpPolicy c, wd_DeployTimeout := ud_DeployTimeout (du_args c)\<rparr>\<rparr>)"
proof (cases "du_protocol c = ''udp''")
  case True
  with assms show ?thesis by (auto simp: check_protocol_def split: if_splits)
next
  case False
  with assms obtain ranges where r: "parsePortRanges (du_portRanges c) = Inr ranges" "du_portRanges c \<noteq> []"
    by (cases "parsePortRanges (du_portRanges c)") (auto simp: check_protocol_def split: if_splits)
  then have "list_all2 denotes (du_portRanges c) ranges" "ranges \<noteq> []" by (auto simp: parsePortRanges_iff)
  with False assms r(1) show ?thesis by (auto simp: check_protocol_def split: if_splits)
qed

lemma deploy_udp_accepted:
  assumes "deploy_udp_preRun name c = Inr c'"
  shows "ud_TargetURLs (du_args c) \<noteq> [] \<and> du_protocol c' = du_protocol c \<and> du_zeroDowntime c' = du_zeroDowntime c
    \<and> du_protocol c \<in> {''udp'', ''webrtc''}
    \<and> (if du_protocol c = ''udp''
       then 1 \<le> ud_Port (du_args c) \<and> ud_Port (du_args c) \<le> 65535
         \<and> du_args c' = (du_args c)\<lparr>ud_Service := name, ud_SessionConfig := Some (session_config c)\<rparr>
       else list_all2 denotes (du_portRanges c) (wd_PortRanges (du_webrtcArgs c')) \<and> wd_Service (du_webrtcArgs c') = name
         \<and> wd_TargetURLs (du_webrtcArgs c') = ud_TargetURLs (du_args c))"
proof -
  let ?c = "c\<lparr>du_args := (du_args c)\<lparr>ud_Service := name\<rparr>, du_webrtcArgs := (du_webrtcArgs c)\<lparr>wd_Service := name\<rparr>\<rparr>"
  from assms have t: "ud_TargetURLs (du_args c) \<noteq> []" "du_protocol c \<in> {''udp'', ''webrtc''}"
    by (simp_all add: deploy_udp_preRun_def Let_def split: if_splits)
  with assms obtain c1 where c1: "check_protocol ?c = Inr c1"
    by (cases "check_protocol ?c") (simp_all add: deploy_udp_preRun_def Let_def split: if_splits)
  with assms t have c': "c' = c1\<lparr>du_args := (du_args c1)\<lparr>ud_SessionConfig := Some (session_config c1)\<rparr>,
      du_webrtcArgs := (du_webrtcArgs c1)\<lparr>wd_SessionConfig := Some (session_config c1)\<rparr>\<rparr>"
    by (simp add: deploy_udp_preRun_def Let_def split: if_splits)
  show ?thesis
  proof (cases "du_protocol c = ''udp''")
    case True
    with check_protocol_cases [OF c1] t show ?thesis by (simp add: c' session_config_def)
  next
    case False
    with check_protocol_cases [OF c1] obtain ranges where r: "list_all2 denotes (du_portRanges c) ranges"
      and "c1 = ?c\<lparr>du_webrtcArgs := (du_webrtcArgs ?c)\<lparr>wd_PortRanges := ranges, wd_TargetURLs := ud_TargetURLs (du_args c),
        wd_RTCPPolicy := du_rtcpPolicy c, wd_DeployTimeout := ud_DeployTimeout (du_args c)\<rparr>\<rparr>" by auto
    with False t show ?thesis by (simp add: c')
  qed
qed

subsection \<open>Examples\<close>

theorem port_ranges_parsed_witness:
  "parsePortRanges [''10000-20000'', ''20001-30000''] =
     Inr [\<lparr>pr_Start = 10000, pr_End = 20000, pr_Step = 2\<rparr>, \<lparr>pr_Start = 20001, pr_End = 30000, pr_Step = 2\<rparr>]"
proof -
  let ?rs = "[\<lparr>pr_Start = 10000, pr_End = 20000, pr_Step = 2\<rparr>, \<lparr>pr_Start = 20001, pr_End = 30000, pr_Step = 2\<rparr>]"
  have "list_all valid_range ?rs" by (simp add: valid_range_def)
  moreover have "map range_text ?rs = [''10000-20000'', ''20001-30000'']"
    by (simp add: range_text_def FormatInt_def format_nat.simps char_of_def bit_0)
  ultimately show ?thesis using port_ranges_parsed [where rs = ?rs] by metis
qed

end
