(* ===== verification/Tables.thy ===== *)
theory Tables
  imports Cli "HOL-Library.Char_ord" "HOL-Library.List_Lexorder"
begin

section \<open>Listing the services\<close>

text \<open>
  Models \<open>internal/cmd/formatting.go\<close> and \<open>internal/cmd/list.go\<close>: the table of services that \<open>list\<close> prints,
  with its column widths, padding and styles. Strings are ordered by their bytes, as in Go.
\<close>

record Table =
  tb_ColumnWidths :: "nat \<Rightarrow> nat"
  tb_Rows :: "string list list"

definition NewTable :: Table where
  "NewTable = \<lparr>tb_ColumnWidths = (\<lambda>_. 0), tb_Rows = []\<rparr>"

text \<open>The loop of \<open>updateColumnWidths\<close> from column \<open>i\<close> on.\<close>

fun widen :: "nat \<Rightarrow> string list \<Rightarrow> (nat \<Rightarrow> nat) \<Rightarrow> nat \<Rightarrow> nat" where
  "widen i [] widths = widths"
| "widen i (cell # row) widths =
     widen (i + 1) row (if length cell > widths i then widths(i := length cell) else widths)"

definition updateColumnWidths :: "string list \<Rightarrow> Table \<Rightarrow> Table" where
  "updateColumnWidths row t = t\<lparr>tb_ColumnWidths := widen 0 row (tb_ColumnWidths t)\<rparr>"

definition AddRow :: "string list \<Rightarrow> Table \<Rightarrow> Table" where
  "AddRow row t = (let t1 = updateColumnWidths row t in t1\<lparr>tb_Rows := tb_Rows t1 @ [row]\<rparr>)"

definition plain :: string where
  "plain = []"

definition bold :: string where
  "bold = ''1;34''"

definition italic :: string where
  "italic = ''3;94''"

definition style_format :: "string \<Rightarrow> string \<Rightarrow> string" where
  "style_format s value = [CHR 0x1B] @ ''['' @ s @ ''m'' @ value @ [CHR 0x1B] @ ''[0m''"

text \<open>\<open>strings.Repeat\<close> panics on a negative count.\<close>

definition Repeat :: "byte \<Rightarrow> int \<Rightarrow> string outcome" where
  "Repeat c n = (if n < 0 then Panics ''strings: negative Repeat count'' else Returns (replicate (nat n) c))"

definition cell_style :: "nat \<Rightarrow> nat \<Rightarrow> string" where
  "cell_style rownum i = (if rownum > 0 \<and> i = 0 then bold else if rownum = 0 then italic else plain)"

fun print_cells :: "(nat \<Rightarrow> nat) \<Rightarrow> nat \<Rightarrow> nat \<Rightarrow> string list \<Rightarrow> string outcome" where
  "print_cells widths rownum i [] = Returns []"
| "print_cells widths rownum i (cell # row) =
     bind_outcome (Repeat (CHR '' '') (int (widths i) - int (length cell))) (\<lambda>pad.
     bind_outcome (print_cells widths rownum (i + 1) row) (\<lambda>rest.
       Returns (style_format (cell_style rownum i) cell @ pad @ ''  '' @ rest)))"

fun print_rows :: "(nat \<Rightarrow> nat) \<Rightarrow> nat \<Rightarrow> string list list \<Rightarrow> string outcome" where
  "print_rows widths rownum [] = Returns []"
| "print_rows widths rownum (row # rows) =
     bind_outcome (print_cells widths rownum 0 row) (\<lambda>line.
     bind_outcome (print_rows widths (rownum + 1) rows) (\<lambda>rest. Returns (line @ [CHR 0x0A] @ rest)))"

definition Table_Print :: "Table \<Rightarrow> string outcome" where
  "Table_Print t = print_rows (tb_ColumnWidths t) 0 (tb_Rows t)"

text \<open>The response is a map by name; its keys are sorted.\<close>

definition service_row :: "string \<times> ServiceDescription \<Rightarrow> string list" where
  "service_row = (\<lambda>(name, service).
     [name, sd_Host service, sd_Path service, sd_Target service, ServiceDescription.sd_State service, if sd_TLS service then ''yes'' else ''no''])"

definition displayResponse :: "(string \<times> ServiceDescription) list \<Rightarrow> string outcome" where
  "displayResponse targets =
     (let table = AddRow [''Service'', ''Host'', ''Path'', ''Target'', ''State'', ''TLS''] NewTable;
          sortedKeys = sort (keys targets);
          rows = List.map_filter (\<lambda>name. map_option (\<lambda>service. service_row (name, service)) (map_of targets name)) sortedKeys
      in Table_Print (foldl (\<lambda>t row. AddRow row t) table rows))"

subsection \<open>The columns line up\<close>

text \<open>The width that a column needs.\<close>

fun column_width :: "string list list \<Rightarrow> nat \<Rightarrow> nat" where
  "column_width [] i = 0"
| "column_width (row # rows) i = max (if i < length row then length (row ! i) else 0) (column_width rows i)"

lemma widen_width: "widen k row w i = (if k \<le> i \<and> i - k < length row then max (w i) (length (row ! (i - k))) else w i)"
proof (induction row arbitrary: k w i)
  case (Cons cell row)
  show ?case by (cases "i = k") (auto simp: Cons.IH nth_Cons' Suc_diff_le)
qed simp

lemma column_width_snoc: "column_width (rows @ [row]) i = max (column_width rows i) (if i < length row then length (row ! i) else 0)"
  by (induction rows) auto

lemma AddRow_fields:
  "tb_Rows (AddRow row t) = tb_Rows t @ [row]"
  "tb_ColumnWidths (AddRow row t) i = max (tb_ColumnWidths t i) (if i < length row then length (row ! i) else 0)"
  by (simp_all add: AddRow_def updateColumnWidths_def widen_width Let_def)

lemma table_fields:
  "tb_Rows (foldl (\<lambda>t row. AddRow row t) NewTable rows) = rows"
  "tb_ColumnWidths (foldl (\<lambda>t row. AddRow row t) NewTable rows) = column_width rows"
proof (induction rows rule: rev_induct)
  case (snoc row rows)
  then show "tb_Rows (foldl (\<lambda>t row. AddRow row t) NewTable (rows @ [row])) = rows @ [row]"
    "tb_ColumnWidths (foldl (\<lambda>t row. AddRow row t) NewTable (rows @ [row])) = column_width (rows @ [row])"
    by (simp_all add: AddRow_fields column_width_snoc fun_eq_iff)
qed (simp_all add: NewTable_def fun_eq_iff)

lemma column_width_ge: "row \<in> set rows \<Longrightarrow> i < length row \<Longrightarrow> length (row ! i) \<le> column_width rows i"
  by (induction rows) (auto simp: le_max_iff_disj)

text \<open>A cell, padded to the width of its column.\<close>

definition padded :: "nat \<Rightarrow> (nat \<Rightarrow> nat) \<Rightarrow> nat \<Rightarrow> string \<Rightarrow> string" where
  "padded rownum widths i cell = style_format (cell_style rownum i) cell @ replicate (widths i - length cell) (CHR '' '') @ ''  ''"

lemma print_cells_returns:
  "(\<And>j. j < length row \<Longrightarrow> length (row ! j) \<le> widths (i + j)) \<Longrightarrow>
     print_cells widths rownum i row = Returns (concat (map (\<lambda>j. padded rownum widths (i + j) (row ! j)) [0..<length row]))"
proof (induction row arbitrary: i)
  case (Cons cell row)
  from Cons.prems [of 0] have "length cell \<le> widths i" by simp
  then have "Repeat (CHR '' '') (int (widths i) - int (length cell)) = Returns (replicate (widths i - length cell) (CHR '' ''))"
    by (simp add: Repeat_def nat_diff_distrib)
  moreover have "print_cells widths rownum (i + 1) row =
      Returns (concat (map (\<lambda>j. padded rownum widths (i + 1 + j) (row ! j)) [0..<length row]))"
    using Cons.prems [of "Suc _"] by (intro Cons.IH) simp
  moreover have "map (\<lambda>j. padded rownum widths (i + j) ((cell # row) ! j)) [0..<length (cell # row)] =
      padded rownum widths i cell # map (\<lambda>j. padded rownum widths (i + 1 + j) (row ! j)) [0..<length row]"
    by (simp add: upt_conv_Cons map_Suc_upt [symmetric] del: upt_Suc map_Suc_upt)
  ultimately show ?case by (simp add: padded_def del: upt_Suc)
qed simp

lemma print_rows_returns:
  "(\<And>row i. row \<in> set rows \<Longrightarrow> i < length row \<Longrightarrow> length (row ! i) \<le> widths i) \<Longrightarrow>
     print_rows widths k rows = Returns (concat (map (\<lambda>n. concat (map (\<lambda>i. padded (k + n) widths i (rows ! n ! i)) [0..<length (rows ! n)])
       @ [CHR 0x0A]) [0..<length rows]))"
proof (induction rows arbitrary: k)
  case (Cons row rows)
  have "print_cells widths k 0 row = Returns (concat (map (\<lambda>j. padded k widths j (row ! j)) [0..<length row]))"
    using print_cells_returns [of row widths 0 k] Cons.prems [of row] by simp
  moreover have "print_rows widths (k + 1) rows = Returns (concat (map (\<lambda>n. concat (map (\<lambda>i. padded (k + 1 + n) widths i (rows ! n ! i))
      [0..<length (rows ! n)]) @ [CHR 0x0A]) [0..<length rows]))"
    using Cons.prems by (intro Cons.IH) simp
  ultimately show ?case
    by (simp add: upt_conv_Cons map_Suc_upt [symmetric] comp_def del: upt_Suc map_Suc_upt)
qed simp

text \<open>Printing a table never panics: the widths are those of the widest cells. Every row is printed with
  each cell padded to the width of its column, so that the columns line up.\<close>

lemma table_printed:
  "Table_Print (foldl (\<lambda>t row. AddRow row t) NewTable rows) =
     Returns (concat (map (\<lambda>n. concat (map (\<lambda>i. padded n (column_width rows) i (rows ! n ! i)) [0..<length (rows ! n)])
       @ [CHR 0x0A]) [0..<length rows]))"
  using print_rows_returns [of rows "column_width rows" 0] column_width_ge [of _ rows]
  by (simp add: Table_Print_def table_fields)

lemma padded_length:
  "length cell \<le> widths i \<Longrightarrow> length (padded n widths i cell) = widths i + length (style_format (cell_style n i) []) + 2"
  by (simp add: padded_def style_format_def)

text \<open>The list of services is always printed.\<close>

lemma list_never_panics: "returns (displayResponse targets)"
proof -
  have "Table_Print (foldl (\<lambda>t row. AddRow row t) (AddRow row NewTable) rows)
      = Table_Print (foldl (\<lambda>t row. AddRow row t) NewTable (row # rows))" for row rows by simp
  then show ?thesis unfolding displayResponse_def Let_def table_printed by simp
qed

end
