(* ===== verification/HealthChecks.thy ===== *)
theory HealthChecks
  imports Draining
begin

section \<open>The health-check goroutine\<close>

text \<open>
  Models \<open>internal/server/health_check.go\<close>: \<open>NewHealthCheck\<close>, \<open>run\<close>, \<open>Close\<close> and the report to the target, as a step
  relation between the goroutine and whoever closes it. What the client returns for a request is an
  argument; a request that is started on a cancelled context gets no response.
\<close>

record HealthCheck =
  hk_endpoint :: string
  hk_interval :: duration
  hk_timeout :: duration
  hk_done :: bool

text \<open>Where the goroutine is: in \<open>check\<close>, on a context that was already cancelled or not; with the result of
  \<open>check\<close>, about to report it; in the \<open>select\<close>; or gone.\<close>

datatype CheckPhase =
    CheckRunning bool
  | CheckReporting "(bool \<times> go_error option) option"
  | CheckWaiting
  | CheckExited

definition NewHealthCheck :: "string \<Rightarrow> duration \<Rightarrow> duration \<Rightarrow> HealthCheck \<times> CheckPhase" where
  "NewHealthCheck endpoint interval timeout =
     (\<lparr>hk_endpoint = endpoint, hk_interval = interval, hk_timeout = timeout, hk_done = False\<rparr>, CheckRunning False)"

definition HealthCheck_Close :: "HealthCheck \<Rightarrow> HealthCheck" where
  "HealthCheck_Close hc = hc\<lparr>hk_done := True\<rparr>"

definition reportResult :: "bool \<Rightarrow> Target \<Rightarrow> Target" where
  "reportResult success t = fst (HealthCheckCompleted success t)"

record HealthSys =
  hs_check :: HealthCheck
  hs_phase :: CheckPhase
  hs_target :: Target

fun no_response :: "CheckResponse \<Rightarrow> bool" where
  "no_response CheckCanceled = True"
| "no_response (CheckBadRequest _) = True"
| "no_response _ = False"

datatype health_event = HvRespond CheckResponse | HvReport bool | HvSilent | HvTick | HvExit | HvClose

text \<open>When the context is cancelled and the ticker has fired, \<open>select\<close> may choose either.\<close>

inductive health_step :: "HealthSys \<Rightarrow> health_event \<Rightarrow> HealthSys \<Rightarrow> bool" where
  hstep_respond: "hs_phase s = CheckRunning late \<Longrightarrow> late \<longrightarrow> no_response resp \<Longrightarrow>
     health_step s (HvRespond resp) (s\<lparr>hs_phase := CheckReporting (HealthCheck_check resp)\<rparr>)"
| hstep_report: "hs_phase s = CheckReporting (Some (success, err)) \<Longrightarrow>
     health_step s (HvReport success) (s\<lparr>hs_phase := CheckWaiting, hs_target := reportResult success (hs_target s)\<rparr>)"
| hstep_silent: "hs_phase s = CheckReporting None \<Longrightarrow> health_step s HvSilent (s\<lparr>hs_phase := CheckWaiting\<rparr>)"
| hstep_tick: "hs_phase s = CheckWaiting \<Longrightarrow>
     health_step s HvTick (s\<lparr>hs_phase := CheckRunning (hk_done (hs_check s))\<rparr>)"
| hstep_exit: "hs_phase s = CheckWaiting \<Longrightarrow> hk_done (hs_check s) \<Longrightarrow> health_step s HvExit (s\<lparr>hs_phase := CheckExited\<rparr>)"
| hstep_close: "health_step s HvClose (s\<lparr>hs_check := HealthCheck_Close (hs_check s)\<rparr>)"

inductive_cases health_stepE: "health_step s e s'"

inductive health_run :: "HealthSys \<Rightarrow> health_event list \<Rightarrow> HealthSys \<Rightarrow> bool" where
  hrun_nil: "health_run s [] s"
| hrun_cons: "health_step s e s1 \<Longrightarrow> health_run s1 es s2 \<Longrightarrow> health_run s (e # es) s2"

text \<open>The goroutine and the target together only do what the target's own step relation allows: a report
  is a health event, every other step changes nothing of the target.\<close>

lemma health_step_target:
  assumes "health_step s e s'" "ds_target d = hs_target s"
  shows "hs_target s' = hs_target s
    \<or> (\<exists>ok d'. e = HvReport ok \<and> target_step d (EvHealth ok) d' \<and> ds_target d' = hs_target s')"
  using assms(1)
proof (cases rule: health_step.cases)
  case (hstep_report success err)
  with assms(2) target_step.step_health [of d success] show ?thesis by (auto simp: reportResult_def)
qed auto

subsection \<open>What the reports make of a target\<close>

fun report_of :: "health_event \<Rightarrow> bool list" where
  "report_of (HvReport ok) = [ok]"
| "report_of _ = []"

definition reports :: "health_event list \<Rightarrow> bool list" where
  "reports es = concat (map report_of es)"

lemma reports_simps [simp]: "reports [] = []" "reports (e # es) = report_of e @ reports es"
  by (simp_all add: reports_def)

text \<open>The state a target has after some reports: healthy or not by the last one, but only once it has been
  healthy.\<close>

definition state_after :: "TargetState \<Rightarrow> bool list \<Rightarrow> TargetState" where
  "state_after st rs =
     (if rs = [] then st
      else if last rs then TargetStateHealthy
      else if True \<in> set rs \<or> st = TargetStateHealthy then TargetStateUnhealthy else st)"

lemma reportResult_state: "t_state (reportResult ok t) = state_after (t_state t) [ok]"
  by (cases "t_state t") (auto simp: reportResult_def HealthCheckCompleted_def state_after_def split: bool.splits)

lemma state_after_append: "state_after (state_after st rs) rs' = state_after st (rs @ rs')"
proof (cases "rs = []")
  case False
  then have "last rs \<in> set rs" by simp
  then show ?thesis by (auto simp: state_after_def)
qed (simp add: state_after_def)

lemma health_run_state: "health_run s es s' \<Longrightarrow> t_state (hs_target s') = state_after (t_state (hs_target s)) (reports es)"
proof (induction rule: health_run.induct)
  case (hrun_nil s)
  then show ?case by (simp add: state_after_def)
next
  case (hrun_cons s e s1 es s2)
  from hrun_cons.hyps(1) have "t_state (hs_target s1) = state_after (t_state (hs_target s)) (report_of e)"
    by (cases rule: health_step.cases) (auto simp: reportResult_state state_after_def [of _ "[]"])
  with hrun_cons.IH show ?case by (simp add: state_after_append)
qed

subsection \<open>After the check is closed\<close>

text \<open>How many successes the goroutine can still report once its context is cancelled.\<close>

fun owed :: "CheckPhase \<Rightarrow> nat" where
  "owed (CheckRunning late) = (if late then 0 else 1)"
| "owed (CheckReporting (Some (True, _))) = 1"
| "owed _ = 0"

lemma no_response_report: "no_response resp \<Longrightarrow> owed (CheckReporting (HealthCheck_check resp)) = 0"
  by (cases resp) auto

lemma owed_le: "owed p \<le> 1"
  by (cases p rule: owed.cases) auto

lemma health_step_owed:
  assumes "health_step s e s'" "hk_done (hs_check s)"
  shows "hk_done (hs_check s') \<and> length (filter id (report_of e)) + owed (hs_phase s') \<le> owed (hs_phase s)"
  using assms
proof (cases rule: health_step.cases)
  case (hstep_respond late resp)
  then show ?thesis using assms(2) no_response_report owed_le by (cases late) auto
next
  case (hstep_report success err)
  then show ?thesis using assms(2) by (cases success) auto
qed (auto simp: HealthCheck_Close_def)

lemma health_run_owed:
  "health_run s es s' \<Longrightarrow> hk_done (hs_check s) \<Longrightarrow> length (filter id (reports es)) + owed (hs_phase s') \<le> owed (hs_phase s)"
proof (induction rule: health_run.induct)
  case (hrun_cons s e s1 es s2)
  from health_step_owed [OF hrun_cons.hyps(1) hrun_cons.prems] hrun_cons.IH show ?case by (simp add: id_def)
qed simp

text \<open>Whatever the goroutine of a health check does, the target's state is the one that its reports call
  for: healthy after a success, unhealthy after a failure once it was healthy, unchanged before
  that. Once the check is closed at most one more success is reported, and none if no check was
  under way.\<close>

theorem closed_check_reports_once:
  assumes "health_run s es s'"
  shows "t_state (hs_target s') = state_after (t_state (hs_target s)) (reports es)
    \<and> (hk_done (hs_check s) \<longrightarrow> length (filter id (reports es)) \<le> 1
        \<and> (hs_phase s \<in> {CheckWaiting, CheckExited} \<longrightarrow> True \<notin> set (reports es)))"
proof (intro conjI impI)
  show "t_state (hs_target s') = state_after (t_state (hs_target s)) (reports es)"
    using assms by (rule health_run_state)
next
  assume "hk_done (hs_check s)"
  from health_run_owed [OF assms this] owed_le [of "hs_phase s"] show "length (filter id (reports es)) \<le> 1" by linarith
next
  assume "hk_done (hs_check s)" "hs_phase s \<in> {CheckWaiting, CheckExited}"
  with health_run_owed [OF assms] have "filter id (reports es) = []" by auto
  then show "True \<notin> set (reports es)" by (auto simp: filter_empty_conv)
qed

text \<open>The one late report reaches a target that is being drained and makes it accept requests again: the
  check is closed and the drain begins while a successful response is on its way.\<close>

definition ex_checking :: HealthSys where
  "ex_checking = \<lparr>hs_check = HealthCheck_Close (fst (NewHealthCheck ''http://web-1:3000/up'' 1 5)), hs_phase = CheckRunning False,
     hs_target = snd (updateState TargetStateDraining example_target)\<rparr>"

theorem late_report_reopens:
  "\<exists>s'. health_run ex_checking [HvRespond (CheckStatus 200), HvReport True, HvExit] s'
     \<and> Target_StartRequest 1 (hs_target ex_checking, Map.empty) = Inl ErrorDraining
     \<and> (\<exists>ts. Target_StartRequest 1 (hs_target s', Map.empty) = Inr ts)"
proof -
  let ?s1 = "ex_checking\<lparr>hs_phase := CheckReporting (HealthCheck_check (CheckStatus 200))\<rparr>"
  let ?s2 = "?s1\<lparr>hs_phase := CheckWaiting, hs_target := reportResult True (hs_target ?s1)\<rparr>"
  let ?s3 = "?s2\<lparr>hs_phase := CheckExited\<rparr>"
  have "health_step ex_checking (HvRespond (CheckStatus 200)) ?s1" by (rule hstep_respond [of _ False]) (simp_all add: ex_checking_def)
  moreover have "health_step ?s1 (HvReport True) ?s2" by (rule hstep_report) simp
  moreover have "health_step ?s2 HvExit ?s3" by (rule hstep_exit) (simp_all add: ex_checking_def HealthCheck_Close_def)
  ultimately have "health_run ex_checking [HvRespond (CheckStatus 200), HvReport True, HvExit] ?s3" by (blast intro: health_run.intros)
  moreover have "t_state (hs_target ?s3) = TargetStateHealthy" by (simp add: reportResult_state state_after_def)
  ultimately show ?thesis
    by (intro exI [of _ ?s3]) (simp add: Target_StartRequest_def ex_checking_def updateState_def)
qed

theorem closed_check_reports_once_witness:
  "\<exists>s'. health_run ex_checking [HvRespond (CheckStatus 200), HvReport True] s' \<and> t_state (hs_target s') = TargetStateHealthy
     \<and> length (filter id (reports [HvRespond (CheckStatus 200), HvReport True])) \<le> 1"
proof -
  let ?s1 = "ex_checking\<lparr>hs_phase := CheckReporting (HealthCheck_check (CheckStatus 200))\<rparr>"
  let ?s2 = "?s1\<lparr>hs_phase := CheckWaiting, hs_target := reportResult True (hs_target ?s1)\<rparr>"
  have "health_step ex_checking (HvRespond (CheckStatus 200)) ?s1" by (rule hstep_respond [of _ False]) (simp_all add: ex_checking_def)
  moreover have "health_step ?s1 (HvReport True) ?s2" by (rule hstep_report) simp
  ultimately have r: "health_run ex_checking [HvRespond (CheckStatus 200), HvReport True] ?s2" by (blast intro: health_run.intros)
  have "hk_done (hs_check ex_checking)" by (simp add: ex_checking_def HealthCheck_Close_def)
  with closed_check_reports_once [OF r] r show ?thesis by (intro exI [of _ ?s2]) (simp add: state_after_def)
qed

end
