(* ===== verification/Buffers.thy ===== *)
theory Buffers
  imports LoadBalancing
begin

section \<open>Buffers and the buffering middleware\<close>

text \<open>
  Models \<open>internal/server/buffer.go\<close>, \<open>request_buffer_middleware.go\<close> and
  \<open>response_buffer_middleware.go\<close>: a buffer that keeps its first bytes in memory and spills the rest to
  a temporary file, up to a limit; requests that are read into it before they are proxied, and
  responses that are kept back in it until they are complete. Whether the temporary file can be
  created is an argument (\<open>spill\<close>); writes to it succeed, and it is read before it is closed.
\<close>

record Buffer =
  bf_maxBytes :: int
  bf_maxMemBytes :: int
  bf_memory :: "byte list"
  bf_memBytesWritten :: int
  bf_disk :: "byte list option"
  bf_diskBytesWritten :: int
  bf_overflowed :: bool
  bf_reading :: bool
  bf_removed :: bool

text \<open>\<open>bf_memory\<close> and \<open>bf_disk\<close> hold what has not been read yet; \<open>bf_removed\<close> says that the spill file
  was discarded.\<close>

definition NewBufferedWriteCloser :: "int \<Rightarrow> int \<Rightarrow> Buffer" where
  "NewBufferedWriteCloser maxBytes maxMemBytes =
     \<lparr>bf_maxBytes = maxBytes, bf_maxMemBytes = maxMemBytes, bf_memory = [], bf_memBytesWritten = 0,
      bf_disk = None, bf_diskBytesWritten = 0, bf_overflowed = False, bf_reading = False, bf_removed = False\<rparr>"

definition writeToMemory :: "byte list \<Rightarrow> Buffer \<Rightarrow> Buffer" where
  "writeToMemory p b =
     b\<lparr>bf_memory := bf_memory b @ p, bf_memBytesWritten := bf_memBytesWritten b + int (length p)\<rparr>"

definition writeToDisk :: "byte list \<Rightarrow> Buffer \<Rightarrow> Buffer" where
  "writeToDisk p b =
     b\<lparr>bf_disk := map_option (\<lambda>d. d @ p) (bf_disk b), bf_diskBytesWritten := bf_diskBytesWritten b + int (length p)\<rparr>"

definition ErrorSpill :: go_error where
  "ErrorSpill = ErrorText ''unable to create spill file''"

definition Buffer_Write :: "bool \<Rightarrow> byte list \<Rightarrow> Buffer \<Rightarrow> (int result \<times> Buffer) outcome" where
  "Buffer_Write spill p b =
     (if bf_reading b then Returns (Inl ErrWriteAfterRead, b)
      else
        (let len = int (length p); totalWritten = bf_memBytesWritten b + bf_diskBytesWritten b
         in if bf_maxBytes b > 0 \<and> totalWritten + len > bf_maxBytes b
            then Returns (Inl ErrMaximumSizeExceeded, b\<lparr>bf_overflowed := True\<rparr>)
            else if bf_disk b \<noteq> None then Returns (Inr len, writeToDisk p b)
            else if bf_memBytesWritten b + len \<le> bf_maxMemBytes b then Returns (Inr len, writeToMemory p b)
            else if \<not> spill then Returns (Inl ErrorSpill, b)
            else if bf_maxMemBytes b - bf_memBytesWritten b < 0 then Panics ''slice bounds out of range''
            else (let k = nat (bf_maxMemBytes b - bf_memBytesWritten b);
                      b1 = writeToMemory (take k p) (b\<lparr>bf_disk := Some []\<rparr>)
                  in Returns (Inr len, writeToDisk (drop k p) b1))))"

definition setReader :: "Buffer \<Rightarrow> Buffer" where
  "setReader b = b\<lparr>bf_reading := True\<rparr>"

text \<open>\<open>Read\<close> into a slice of \<open>n\<close> bytes: memory first, then the file; no bytes is the end.\<close>

definition Buffer_Read :: "nat \<Rightarrow> Buffer \<Rightarrow> byte list \<times> Buffer" where
  "Buffer_Read n b =
     (let b1 = setReader b
      in if bf_memory b1 \<noteq> [] then (take n (bf_memory b1), b1\<lparr>bf_memory := drop n (bf_memory b1)\<rparr>)
         else (case bf_disk b1 of
                 None \<Rightarrow> ([], b1)
               | Some d \<Rightarrow> (take n d, b1\<lparr>bf_disk := Some (drop n d)\<rparr>)))"

text \<open>\<open>io.Copy\<close> from the buffer: everything that is left.\<close>

definition contents :: "Buffer \<Rightarrow> byte list" where
  "contents b = bf_memory b @ (case bf_disk b of None \<Rightarrow> [] | Some d \<Rightarrow> d)"

definition Buffer_Send :: "Buffer \<Rightarrow> byte list \<times> Buffer" where
  "Buffer_Send b =
     (contents b, (setReader b)\<lparr>bf_memory := [], bf_disk := map_option (\<lambda>_. []) (bf_disk b)\<rparr>)"

definition Buffer_Close :: "Buffer \<Rightarrow> Buffer" where
  "Buffer_Close b = b\<lparr>bf_removed := (bf_removed b \<or> bf_disk b \<noteq> None)\<rparr>"

text \<open>\<open>io.Copy\<close> into a writer: the chunks that the source's \<open>Read\<close> returns, and its error if it ends
  with one other than \<open>io.EOF\<close>.\<close>

fun copy_chunks ::
  "(byte list \<Rightarrow> 'b \<Rightarrow> (int result \<times> 'b) outcome) \<Rightarrow> byte list list \<Rightarrow> go_error option \<Rightarrow> 'b \<Rightarrow>
     (go_error option \<times> 'b) outcome" where
  "copy_chunks write [] readErr b = Returns (readErr, b)"
| "copy_chunks write (c # cs) readErr b =
     bind_outcome (write c b) (\<lambda>(res, b').
       case res of Inl err \<Rightarrow> Returns (Some err, b') | Inr _ \<Rightarrow> copy_chunks write cs readErr b')"

definition NewBufferedReadCloser ::
  "bool \<Rightarrow> byte list list \<Rightarrow> go_error option \<Rightarrow> int \<Rightarrow> int \<Rightarrow> (go_error option \<times> Buffer) outcome" where
  "NewBufferedReadCloser spill chunks readErr maxBytes maxMemBytes =
     bind_outcome (copy_chunks (Buffer_Write spill) chunks readErr (NewBufferedWriteCloser maxBytes maxMemBytes))
       (\<lambda>(err, b). Returns (case err of None \<Rightarrow> (None, b) | Some e \<Rightarrow> (Some e, Buffer_Close b)))"

subsection \<open>Response writers\<close>

text \<open>The methods of the interface \<open>http.ResponseWriter\<close> (with \<open>http.Hijacker\<close> and \<open>http.Flusher\<close>) on a writer of type \<open>'w\<close>. The
  map that \<open>Header()\<close> returns is shared with its caller, who changes it: \<open>wo_SetHeader\<close>. Writes to the
  client succeed.\<close>

record 'w writer_ops =
  wo_Header :: "'w \<Rightarrow> Header"
  wo_SetHeader :: "Header \<Rightarrow> 'w \<Rightarrow> 'w"
  wo_WriteHeader :: "int \<Rightarrow> 'w \<Rightarrow> 'w"
  wo_Write :: "byte list \<Rightarrow> 'w \<Rightarrow> 'w"
  wo_Hijack :: "'w \<Rightarrow> 'w"
  wo_Flush :: "'w \<Rightarrow> 'w"

definition rw_ops :: "ResponseWriter writer_ops" where
  "rw_ops = \<lparr>wo_Header = rw_Header, wo_SetHeader = (\<lambda>h w. w\<lparr>rw_Header := h\<rparr>),
     wo_WriteHeader = (\<lambda>code w. w\<lparr>rw_status := rw_status w @ [code]\<rparr>),
     wo_Write = (\<lambda>p w. w\<lparr>rw_body := rw_body w @ p\<rparr>), wo_Hijack = (\<lambda>w. w), wo_Flush = rw_Flush\<rparr>"

text \<open>The writer of the load balancer as such a writer.\<close>

definition lb_ops :: "instant \<Rightarrow> loadBalancerResponseWriter writer_ops" where
  "lb_ops now = \<lparr>wo_Header = (\<lambda>w. rw_Header (lw_inner w)),
     wo_SetHeader = (\<lambda>h w. w\<lparr>lw_inner := (lw_inner w)\<lparr>rw_Header := h\<rparr>\<rparr>),
     wo_WriteHeader = lbWriteHeader now, wo_Write = lbWrite now, wo_Hijack = (\<lambda>w. w), wo_Flush = lbFlush\<rparr>"

lemma ops_header [simp]: "wo_Header rw_ops = rw_Header" "wo_Header (lb_ops now) lw = rw_Header (lw_inner lw)"
  by (simp_all add: rw_ops_def lb_ops_def)

text \<open>\<open>http.Error\<close> with a text.\<close>

definition http_Error :: "'w writer_ops \<Rightarrow> string \<Rightarrow> int \<Rightarrow> 'w \<Rightarrow> 'w" where
  "http_Error ops msg code w =
     (let h = Header_Set (Header_Set (Header_Del (wo_Header ops w) ''Content-Length'') ''Content-Type''
          ''text/plain; charset=utf-8'') ''X-Content-Type-Options'' ''nosniff''
      in wo_Write ops (msg @ [CHR 0x0A]) (wo_WriteHeader ops code (wo_SetHeader ops h w)))"

text \<open>What the request middleware does: answer with an error, or pass the buffered body on.\<close>

datatype 'w RequestBuffering = RejectRequest 'w | PassBody Buffer

definition RequestBuffer_ServeHTTP ::
  "'w writer_ops \<Rightarrow> bool \<Rightarrow> byte list list \<Rightarrow> go_error option \<Rightarrow> int \<Rightarrow> int \<Rightarrow> 'w \<Rightarrow> 'w RequestBuffering outcome" where
  "RequestBuffer_ServeHTTP ops spill chunks readErr maxBytes maxMemBytes w =
     bind_outcome (NewBufferedReadCloser spill chunks readErr maxBytes maxMemBytes) (\<lambda>(err, b).
       Returns (case err of
           None \<Rightarrow> PassBody b
         | Some e \<Rightarrow> RejectRequest (if e = ErrMaximumSizeExceeded then http_Error ops ''Request too large'' 413 w
                                   else http_Error ops ''Internal Server Error'' 500 w)))"

subsection \<open>Buffered responses\<close>

record 'w bufferedResponseWriter =
  bw_inner :: 'w
  bw_statusCode :: int
  bw_buffer :: Buffer
  bw_hijacked :: bool
  bw_headerWritten :: bool
  bw_bypass :: bool

text \<open>\<open>Buffer.Send\<close> into a writer: \<open>io.Copy\<close> does not write at all when there is nothing to read.\<close>

definition send_buffer :: "'w writer_ops \<Rightarrow> Buffer \<Rightarrow> 'w \<Rightarrow> 'w \<times> Buffer" where
  "send_buffer ops b w = (let (data, b') = Buffer_Send b in (if data = [] then w else wo_Write ops data w, b'))"

definition bw_Send :: "'w writer_ops \<Rightarrow> 'w bufferedResponseWriter \<Rightarrow> go_error option \<times> 'w bufferedResponseWriter" where
  "bw_Send ops w =
     (if bf_overflowed (bw_buffer w) then (Some ErrMaximumSizeExceeded, w)
      else if bw_hijacked w then (None, w)
      else (let inner = (if bw_headerWritten w then wo_WriteHeader ops (bw_statusCode w) (bw_inner w) else bw_inner w);
                (inner', buf) = send_buffer ops (bw_buffer w) inner
            in (None, w\<lparr>bw_inner := inner', bw_buffer := buf\<rparr>)))"

definition ShouldSwitchToUnbuffered :: "Header \<Rightarrow> bool" where
  "ShouldSwitchToUnbuffered h \<longleftrightarrow>
     takeWhile (\<lambda>c. c \<noteq> CHR '';'') (Header_Get h ''Content-Type'') = ''text/event-stream''"

definition SwitchToUnbuffered :: "'w writer_ops \<Rightarrow> 'w bufferedResponseWriter \<Rightarrow> 'w bufferedResponseWriter" where
  "SwitchToUnbuffered ops w = snd (bw_Send ops (w\<lparr>bw_bypass := True\<rparr>))"

definition bw_WriteHeader :: "'w writer_ops \<Rightarrow> int \<Rightarrow> 'w bufferedResponseWriter \<Rightarrow> 'w bufferedResponseWriter" where
  "bw_WriteHeader ops statusCode w =
     (if \<not> bw_headerWritten w then
        (let w1 = w\<lparr>bw_statusCode := statusCode, bw_headerWritten := True\<rparr>
         in if ShouldSwitchToUnbuffered (wo_Header ops (bw_inner w1)) then SwitchToUnbuffered ops w1 else w1)
      else w)"

definition bw_Write ::
  "'w writer_ops \<Rightarrow> bool \<Rightarrow> byte list \<Rightarrow> 'w bufferedResponseWriter \<Rightarrow> (int result \<times> 'w bufferedResponseWriter) outcome" where
  "bw_Write ops spill data w =
     (if bw_bypass w then Returns (Inr (int (length data)), w\<lparr>bw_inner := wo_Write ops data (bw_inner w)\<rparr>)
      else bind_outcome (Buffer_Write spill data (bw_buffer w)) (\<lambda>(res, buf).
        let w1 = w\<lparr>bw_buffer := buf\<rparr>
        in Returns (case res of
             Inl err \<Rightarrow> if err = ErrMaximumSizeExceeded then (Inr (int (length data)), w1) else (Inl err, w1)
           | Inr n \<Rightarrow> (Inr n, w1))))"

definition bw_Hijack :: "'w writer_ops \<Rightarrow> 'w bufferedResponseWriter \<Rightarrow> 'w bufferedResponseWriter" where
  "bw_Hijack ops w = w\<lparr>bw_hijacked := True, bw_inner := wo_Hijack ops (bw_inner w)\<rparr>"

definition bw_Flush :: "'w writer_ops \<Rightarrow> 'w bufferedResponseWriter \<Rightarrow> 'w bufferedResponseWriter" where
  "bw_Flush ops w = (if bw_bypass w then w\<lparr>bw_inner := wo_Flush ops (bw_inner w)\<rparr> else w)"

text \<open>What the wrapped handler does with its response writer, in order. A handler that cannot write its
  response, or has no more to write although it should, gives up with a panic, which \<open>net/http\<close> recovers
  by closing the connection.\<close>

definition ErrAbortHandler :: string where
  "ErrAbortHandler = ''net/http: abort Handler''"

datatype ResponseEvent = AddHeader string string | SendHeader int | SendBody "byte list" | TakeConnection | AbortResponse

definition response_event ::
  "'w writer_ops \<Rightarrow> bool \<Rightarrow> ResponseEvent \<Rightarrow> 'w bufferedResponseWriter \<Rightarrow> (int result \<times> 'w bufferedResponseWriter) outcome" where
  "response_event ops spill e w =
     (case e of
        AddHeader k v \<Rightarrow> Returns (Inr 0,
          w\<lparr>bw_inner := wo_SetHeader ops (Header_Add (wo_Header ops (bw_inner w)) k v) (bw_inner w)\<rparr>)
      | SendHeader code \<Rightarrow> Returns (Inr 0, bw_WriteHeader ops code w)
      | SendBody data \<Rightarrow> bw_Write ops spill data w
      | TakeConnection \<Rightarrow> Returns (Inr 0, bw_Hijack ops w)
      | AbortResponse \<Rightarrow> Panics ErrAbortHandler)"

fun run_handler ::
  "'w writer_ops \<Rightarrow> bool \<Rightarrow> ResponseEvent list \<Rightarrow> 'w bufferedResponseWriter \<Rightarrow> 'w bufferedResponseWriter outcome" where
  "run_handler ops spill [] w = Returns w"
| "run_handler ops spill (e # es) w = bind_outcome (response_event ops spill e w) (\<lambda>(res, w').
     case res of Inl _ \<Rightarrow> Panics ErrAbortHandler | Inr _ \<Rightarrow> run_handler ops spill es w')"

definition ResponseBuffer_ServeHTTP ::
  "'w writer_ops \<Rightarrow> bool \<Rightarrow> int \<Rightarrow> int \<Rightarrow> ResponseEvent list \<Rightarrow> 'w \<Rightarrow> ('w \<times> Buffer) outcome" where
  "ResponseBuffer_ServeHTTP ops spill maxMemBytes maxBytes events w =
     bind_outcome (run_handler ops spill events
         \<lparr>bw_inner = w, bw_statusCode = 200, bw_buffer = NewBufferedWriteCloser maxBytes maxMemBytes,
          bw_hijacked = False, bw_headerWritten = False, bw_bypass = False\<rparr>)
       (\<lambda>bw. case bw_Send ops bw of
           (None, bw') \<Rightarrow> Returns (bw_inner bw', Buffer_Close (bw_buffer bw'))
         | (Some err, bw') \<Rightarrow>
             Returns (http_Error ops ''Internal Server Error'' 500 (bw_inner bw'), Buffer_Close (bw_buffer bw')))"

subsection \<open>A sink with a limit\<close>

text \<open>The contract of a writer that keeps what it is given up to a limit (none when it is not positive),
  and what copying a stream into it then does.\<close>

locale bounded_sink =
  fixes ok :: "'b \<Rightarrow> bool" and content :: "'b \<Rightarrow> byte list" and limit :: "'b \<Rightarrow> int"
    and put_bytes :: "byte list \<Rightarrow> 'b \<Rightarrow> (int result \<times> 'b) outcome"
  assumes accepts: "ok b \<Longrightarrow> limit b \<le> 0 \<or> int (length (content b) + length p) \<le> limit b \<Longrightarrow>
      \<exists>b'. put_bytes p b = Returns (Inr (int (length p)), b') \<and> ok b' \<and> content b' = content b @ p \<and> limit b' = limit b"
    and refuses: "ok b \<Longrightarrow> 0 < limit b \<Longrightarrow> limit b < int (length (content b) + length p) \<Longrightarrow>
      \<exists>b'. put_bytes p b = Returns (Inl ErrMaximumSizeExceeded, b') \<and> ok b' \<and> content b' = content b \<and> limit b' = limit b"
begin

lemma copy_fits:
  "ok b \<Longrightarrow> limit b \<le> 0 \<or> int (length (content b) + length (concat cs)) \<le> limit b \<Longrightarrow>
     \<exists>b'. copy_chunks put_bytes cs e b = Returns (e, b') \<and> ok b' \<and> content b' = content b @ concat cs \<and> limit b' = limit b"
proof (induction cs arbitrary: b)
  case Nil
  then show ?case by simp
next
  case (Cons c cs)
  from Cons.prems accepts [of b c] obtain b1 where b1: "put_bytes c b = Returns (Inr (int (length c)), b1)" "ok b1"
    "content b1 = content b @ c" "limit b1 = limit b" by fastforce
  with Cons.prems Cons.IH [of b1] obtain b' where "copy_chunks put_bytes cs e b1 = Returns (e, b')" "ok b'"
    "content b' = content b1 @ concat cs" "limit b' = limit b1" by (auto simp: ac_simps)
  with b1 show ?case by simp
qed

lemma copy_exceeds:
  "ok b \<Longrightarrow> 0 < limit b \<Longrightarrow> limit b < int (length (content b) + length (concat cs)) \<Longrightarrow>
     int (length (content b)) \<le> limit b \<Longrightarrow>
     \<exists>b'. copy_chunks put_bytes cs e b = Returns (Some ErrMaximumSizeExceeded, b') \<and> ok b'"
proof (induction cs arbitrary: b)
  case Nil
  then show ?case by simp
next
  case (Cons c cs)
  show ?case
  proof (cases "int (length (content b) + length c) \<le> limit b")
    case True
    with Cons.prems accepts [of b c] obtain b1 where b1: "put_bytes c b = Returns (Inr (int (length c)), b1)" "ok b1"
      "content b1 = content b @ c" "limit b1 = limit b" by fastforce
    with Cons.prems True Cons.IH [of b1] obtain b' where
      "copy_chunks put_bytes cs e b1 = Returns (Some ErrMaximumSizeExceeded, b')" "ok b'" by (auto simp: ac_simps)
    with b1 show ?thesis by simp
  next
    case False
    with Cons.prems refuses [of b c] show ?thesis by fastforce
  qed
qed

end

definition buf_ok :: "Buffer \<Rightarrow> bool" where
  "buf_ok b \<longleftrightarrow> 0 \<le> bf_maxMemBytes b \<and> \<not> bf_reading b
     \<and> bf_memBytesWritten b = int (length (bf_memory b)) \<and> bf_memBytesWritten b \<le> bf_maxMemBytes b
     \<and> (case bf_disk b of
          None \<Rightarrow> bf_diskBytesWritten b = 0
        | Some d \<Rightarrow> bf_diskBytesWritten b = int (length d) \<and> bf_memBytesWritten b = bf_maxMemBytes b)"

lemmas buf_defs = Buffer_Write_def writeToMemory_def writeToDisk_def contents_def buf_ok_def Let_def

text \<open>One write that is accepted, and one that is not.\<close>

lemma Buffer_Write_accepts:
  assumes "buf_ok b" "bf_maxBytes b \<le> 0 \<or> int (length (contents b) + length p) \<le> bf_maxBytes b"
  shows "\<exists>b'. Buffer_Write True p b = Returns (Inr (int (length p)), b') \<and> buf_ok b'
    \<and> contents b' = contents b @ p \<and> bf_maxBytes b' = bf_maxBytes b \<and> bf_overflowed b' = bf_overflowed b
    \<and> bf_maxMemBytes b' = bf_maxMemBytes b"
  using assms by (cases "bf_disk b") (auto simp: buf_defs)

lemma Buffer_Write_refuses:
  assumes "buf_ok b" "0 < bf_maxBytes b" "bf_maxBytes b < int (length (contents b) + length p)"
  shows "Buffer_Write True p b = Returns (Inl ErrMaximumSizeExceeded, b\<lparr>bf_overflowed := True\<rparr>)"
  using assms by (cases "bf_disk b") (auto simp: buf_defs)

lemma overflow_kept [simp]: "buf_ok (b\<lparr>bf_overflowed := x\<rparr>) = buf_ok b" "contents (b\<lparr>bf_overflowed := x\<rparr>) = contents b"
  by (simp_all add: buf_ok_def contents_def split: option.split)

interpretation spilling: bounded_sink buf_ok contents bf_maxBytes "Buffer_Write True"
proof
  fix b :: Buffer and p :: "byte list" assume "buf_ok b" "bf_maxBytes b \<le> 0 \<or> int (length (contents b) + length p) \<le> bf_maxBytes b"
  from Buffer_Write_accepts [OF this]
  show "\<exists>b'. Buffer_Write True p b = Returns (Inr (int (length p)), b') \<and> buf_ok b' \<and> contents b' = contents b @ p
    \<and> bf_maxBytes b' = bf_maxBytes b" by blast
next
  fix b :: Buffer and p :: "byte list" assume "buf_ok b" "0 < bf_maxBytes b" "bf_maxBytes b < int (length (contents b) + length p)"
  from Buffer_Write_refuses [OF this] \<open>buf_ok b\<close>
  show "\<exists>b'. Buffer_Write True p b = Returns (Inl ErrMaximumSizeExceeded, b') \<and> buf_ok b' \<and> contents b' = contents b
    \<and> bf_maxBytes b' = bf_maxBytes b" by simp
qed

lemma new_buf_ok: "0 \<le> mem \<Longrightarrow> buf_ok (NewBufferedWriteCloser maxBytes mem)"
  "contents (NewBufferedWriteCloser maxBytes mem) = []" "bf_maxBytes (NewBufferedWriteCloser maxBytes mem) = maxBytes"
  "\<not> bf_overflowed (NewBufferedWriteCloser maxBytes mem)"
  by (simp_all add: NewBufferedWriteCloser_def buf_ok_def contents_def)

text \<open>Reading a buffer in slices of any positive sizes gives its bytes in order, once.\<close>

fun read_slices :: "nat list \<Rightarrow> Buffer \<Rightarrow> byte list" where
  "read_slices [] b = []"
| "read_slices (n # ns) b = fst (Buffer_Read n b) @ read_slices ns (snd (Buffer_Read n b))"

lemma Buffer_Read_step:
  "fst (Buffer_Read n b) @ contents (snd (Buffer_Read n b)) = contents b"
  "0 < n \<Longrightarrow> contents b \<noteq> [] \<Longrightarrow> fst (Buffer_Read n b) \<noteq> []"
  by (auto simp: Buffer_Read_def setReader_def contents_def Let_def split: option.splits)

lemma read_slices_prefix: "prefix (read_slices ns b) (contents b)"
proof (induction ns b rule: read_slices.induct)
  case (2 n ns b)
  then show ?case by (metis Buffer_Read_step(1) read_slices.simps(2) same_prefix_prefix)
qed simp

lemma read_slices_all:
  "\<forall>n \<in> set ns. 0 < n \<Longrightarrow> length (contents b) \<le> length ns \<Longrightarrow> read_slices ns b = contents b"
proof (induction ns b rule: read_slices.induct)
  case (2 n ns b)
  note st = Buffer_Read_step [of n b]
  show ?case
  proof (cases "contents b = []")
    case True
    with read_slices_prefix [of "n # ns" b] show ?thesis by simp
  next
    case False
    with st 2(2) have "fst (Buffer_Read n b) \<noteq> []" by simp
    with st(1) have "length (contents (snd (Buffer_Read n b))) < length (contents b)"
      by (metis length_append length_greater_0_conv less_add_same_cancel2)
    with 2 have "read_slices ns (snd (Buffer_Read n b)) = contents (snd (Buffer_Read n b))" by simp
    with st(1) show ?thesis by simp
  qed
qed simp

lemma copy_chunks_frame:
  "copy_chunks (Buffer_Write spill) cs e b = Returns (r, b') \<Longrightarrow> bf_maxMemBytes b' = bf_maxMemBytes b"
  by (induction cs arbitrary: b)
    (auto simp: Buffer_Write_def writeToMemory_def writeToDisk_def Let_def split: if_splits sum.splits)

lemma request_buffer_passes:
  assumes "0 \<le> maxMem" "maxBytes \<le> 0 \<or> int (length (concat chunks)) \<le> maxBytes"
  shows "\<exists>b. RequestBuffer_ServeHTTP ops True chunks None maxBytes maxMem w = Returns (PassBody b)
    \<and> contents b = concat chunks \<and> int (length (bf_memory b)) \<le> maxMem"
proof -
  note n = new_buf_ok(1) [OF assms(1), of maxBytes] new_buf_ok(2,3)
  from spilling.copy_fits [OF n(1), of chunks None] assms(2) obtain b where
    b: "copy_chunks (Buffer_Write True) chunks None (NewBufferedWriteCloser maxBytes maxMem) = Returns (None, b)" "buf_ok b"
    "contents b = concat chunks" by (auto simp: n)
  from copy_chunks_frame [OF b(1)] b(2) have "int (length (bf_memory b)) \<le> maxMem"
    by (simp add: NewBufferedWriteCloser_def buf_ok_def)
  with b show ?thesis by (simp add: RequestBuffer_ServeHTTP_def NewBufferedReadCloser_def)
qed

lemma request_buffer_rejects:
  assumes "0 \<le> maxMem" "0 < maxBytes" "maxBytes < int (length (concat chunks))"
  shows "RequestBuffer_ServeHTTP ops True chunks e maxBytes maxMem w = Returns (RejectRequest (http_Error ops ''Request too large'' 413 w))"
proof -
  note n = new_buf_ok(1) [OF assms(1), of maxBytes] new_buf_ok(2,3)
  from spilling.copy_exceeds [OF n(1), of chunks e] assms(2,3) obtain b where
    "copy_chunks (Buffer_Write True) chunks e (NewBufferedWriteCloser maxBytes maxMem) = Returns (Some ErrMaximumSizeExceeded, b)"
    by (auto simp: n)
  then show ?thesis by (simp add: RequestBuffer_ServeHTTP_def NewBufferedReadCloser_def)
qed

text \<open>C29: buffering a request body is transparent: a body within the limit is passed on, reads back as
  exactly the bytes that came in whatever the sizes of the incoming chunks and of the reads, and
  keeps at most the configured number of bytes in memory; a body over the limit is rejected with
  413.\<close>

theorem request_buffer_roundtrip:
  assumes "0 \<le> maxMem"
  shows "(maxBytes \<le> 0 \<or> int (length (concat chunks)) \<le> maxBytes \<longrightarrow>
      (\<exists>b. RequestBuffer_ServeHTTP ops True chunks None maxBytes maxMem w = Returns (PassBody b)
        \<and> fst (Buffer_Send b) = concat chunks
        \<and> (\<forall>ns. list_all (\<lambda>n. 0 < n) ns \<and> length (concat chunks) \<le> length ns \<longrightarrow> read_slices ns b = concat chunks)
        \<and> int (length (bf_memory b)) \<le> maxMem))
   \<and> (0 < maxBytes \<and> maxBytes < int (length (concat chunks)) \<longrightarrow>
      RequestBuffer_ServeHTTP ops True chunks None maxBytes maxMem w = Returns (RejectRequest (http_Error ops ''Request too large'' 413 w)))"
proof (intro conjI impI)
  assume "maxBytes \<le> 0 \<or> int (length (concat chunks)) \<le> maxBytes"
  from request_buffer_passes [OF assms this, of ops w] obtain b where
    "RequestBuffer_ServeHTTP ops True chunks None maxBytes maxMem w = Returns (PassBody b)" "contents b = concat chunks"
    "int (length (bf_memory b)) \<le> maxMem" by blast
  with read_slices_all [of _ b] show "\<exists>b. RequestBuffer_ServeHTTP ops True chunks None maxBytes maxMem w = Returns (PassBody b)
      \<and> fst (Buffer_Send b) = concat chunks
      \<and> (\<forall>ns. list_all (\<lambda>n. 0 < n) ns \<and> length (concat chunks) \<le> length ns \<longrightarrow> read_slices ns b = concat chunks)
      \<and> int (length (bf_memory b)) \<le> maxMem"
    by (intro exI [of _ b]) (simp add: Buffer_Send_def list_all_iff)
next
  assume "0 < maxBytes \<and> maxBytes < int (length (concat chunks))"
  then show "RequestBuffer_ServeHTTP ops True chunks None maxBytes maxMem w =
      Returns (RejectRequest (http_Error ops ''Request too large'' 413 w))"
    by (auto intro: request_buffer_rejects [OF assms])
qed

subsection \<open>A buffered response is sent whole or not at all\<close>

fun event_body :: "ResponseEvent \<Rightarrow> byte list" where
  "event_body (SendBody data) = data"
| "event_body _ = []"

definition body_of :: "ResponseEvent list \<Rightarrow> byte list" where
  "body_of es = concat (map event_body es)"

fun status_of :: "ResponseEvent list \<Rightarrow> int option" where
  "status_of [] = None"
| "status_of (SendHeader c # es) = Some c"
| "status_of (_ # es) = status_of es"

text \<open>A handler that neither takes over the connection nor streams events.\<close>

fun quiet :: "ResponseEvent \<Rightarrow> bool" where
  "quiet TakeConnection = False"
| "quiet AbortResponse = False"
| "quiet (AddHeader k v) = (\<not> (k = ''Content-Type'' \<and> takeWhile (\<lambda>c. c \<noteq> CHR '';'') v = ''text/event-stream''))"
| "quiet _ = True"

lemma Buffer_Write_overflowed:
  assumes "buf_ok b"
  shows "\<exists>res b'. Buffer_Write True p b = Returns (res, b') \<and> buf_ok b' \<and> bf_maxBytes b' = bf_maxBytes b
    \<and> (bf_overflowed b \<longrightarrow> bf_overflowed b') \<and> (\<forall>err. res = Inl err \<longrightarrow> err = ErrMaximumSizeExceeded)"
proof (cases "bf_maxBytes b \<le> 0 \<or> int (length (contents b) + length p) \<le> bf_maxBytes b")
  case True
  from Buffer_Write_accepts [OF assms this] show ?thesis by blast
next
  case False
  with Buffer_Write_refuses [OF assms, of p] assms show ?thesis by simp
qed

subsection \<open>The contract of a response writer\<close>

text \<open>A writer keeps the status lines and the bytes that were written to it, in order; a first write without a
  status line may send the default one.\<close>

locale response_writer =
  fixes ops :: "'w writer_ops" and wok :: "'w \<Rightarrow> bool" and statuses :: "'w \<Rightarrow> int list"
    and sent :: "'w \<Rightarrow> byte list" and implicit :: "int list"
  assumes header_law: "wok w \<Longrightarrow> wok (wo_SetHeader ops h w) \<and> statuses (wo_SetHeader ops h w) = statuses w
      \<and> sent (wo_SetHeader ops h w) = sent w \<and> wo_Header ops (wo_SetHeader ops h w) = h"
    and status_law: "wok w \<Longrightarrow> wok (wo_WriteHeader ops code w) \<and> statuses (wo_WriteHeader ops code w) = statuses w @ [code]
      \<and> sent (wo_WriteHeader ops code w) = sent w"
    and body_law: "wok w \<Longrightarrow> wok (wo_Write ops p w) \<and> sent (wo_Write ops p w) = sent w @ p
      \<and> statuses (wo_Write ops p w) = (if statuses w = [] then implicit else statuses w)"
    and append_law: "wok w \<Longrightarrow> wo_Write ops q (wo_Write ops p w) = wo_Write ops (p @ q) w"
begin

lemma http_Error_sent:
  "wok w \<Longrightarrow> wok (http_Error ops msg code w) \<and> statuses (http_Error ops msg code w) = statuses w @ [code]
     \<and> sent (http_Error ops msg code w) = sent w @ msg @ [CHR 0x0A]"
  by (simp add: http_Error_def Let_def header_law status_law body_law)

text \<open>Invariant of the buffered writer while the handler runs, as long as nothing went through.\<close>

definition held_back :: "'w \<Rightarrow> int \<Rightarrow> byte list \<Rightarrow> 'w bufferedResponseWriter \<Rightarrow> bool" where
  "held_back w0 M body w \<longleftrightarrow>
     buf_ok (bw_buffer w) \<and> bf_maxBytes (bw_buffer w) = M \<and> \<not> bw_bypass w \<and> \<not> bw_hijacked w
     \<and> wok (bw_inner w) \<and> statuses (bw_inner w) = statuses w0 \<and> sent (bw_inner w) = sent w0
     \<and> \<not> ShouldSwitchToUnbuffered (wo_Header ops (bw_inner w))
     \<and> (if bf_overflowed (bw_buffer w) then 0 < M \<and> M < int (length body)
        else contents (bw_buffer w) = body \<and> (M \<le> 0 \<or> int (length body) \<le> M))"

lemma bw_Write_buffer:
  assumes "\<not> bw_bypass w" "Buffer_Write True p (bw_buffer w) = Returns (res, b)"
    "\<forall>err. res = Inl err \<longrightarrow> err = ErrMaximumSizeExceeded"
  shows "\<exists>n. bw_Write ops True p w = Returns (Inr n, w\<lparr>bw_buffer := b\<rparr>)"
  using assms by (cases res) (auto simp: bw_Write_def Let_def)

lemma held_back_write:
  assumes "held_back w0 M body w"
  shows "\<exists>n w'. bw_Write ops True p w = Returns (Inr n, w') \<and> held_back w0 M (body @ p) w'
    \<and> bw_headerWritten w' = bw_headerWritten w \<and> bw_statusCode w' = bw_statusCode w"
proof -
  let ?b = "bw_buffer w"
  from assms have ok: "buf_ok ?b" and m: "bf_maxBytes ?b = M" by (simp_all add: held_back_def)
  consider (over) "bf_overflowed ?b" | (fits) "\<not> bf_overflowed ?b" "M \<le> 0 \<or> int (length body + length p) \<le> M"
    | (exceeds) "\<not> bf_overflowed ?b" "0 < M" "M < int (length body + length p)" by linarith
  then have "\<exists>res b'. Buffer_Write True p ?b = Returns (res, b') \<and> (\<forall>err. res = Inl err \<longrightarrow> err = ErrMaximumSizeExceeded)
    \<and> held_back w0 M (body @ p) (w\<lparr>bw_buffer := b'\<rparr>)"
  proof cases
    case over
    with Buffer_Write_overflowed [OF ok, of p] m obtain res b' where
      "Buffer_Write True p ?b = Returns (res, b')" "\<forall>err. res = Inl err \<longrightarrow> err = ErrMaximumSizeExceeded"
      "buf_ok b'" "bf_maxBytes b' = M" "bf_overflowed b'" by auto
    with assms over show ?thesis by (intro exI [of _ res] exI [of _ b']) (simp add: held_back_def)
  next
    case fits
    with assms Buffer_Write_accepts [OF ok, of p] obtain b' where
      "Buffer_Write True p ?b = Returns (Inr (int (length p)), b')" "buf_ok b'" "bf_maxBytes b' = M"
      "\<not> bf_overflowed b'" "contents b' = body @ p" by (auto simp: held_back_def)
    with assms fits show ?thesis by (simp add: held_back_def)
  next
    case exceeds
    with assms Buffer_Write_refuses [OF ok, of p] have
      "Buffer_Write True p ?b = Returns (Inl ErrMaximumSizeExceeded, ?b\<lparr>bf_overflowed := True\<rparr>)"
      by (simp add: held_back_def)
    with assms exceeds show ?thesis by (simp add: held_back_def)
  qed
  then obtain res b' where b': "Buffer_Write True p ?b = Returns (res, b')" "\<forall>err. res = Inl err \<longrightarrow> err = ErrMaximumSizeExceeded"
    "held_back w0 M (body @ p) (w\<lparr>bw_buffer := b'\<rparr>)" by blast
  moreover from assms have "\<not> bw_bypass w" by (simp add: held_back_def)
  ultimately obtain n where "bw_Write ops True p w = Returns (Inr n, w\<lparr>bw_buffer := b'\<rparr>)"
    using bw_Write_buffer by blast
  with b'(3) show ?thesis by (intro exI [of _ n] exI [of _ "w\<lparr>bw_buffer := b'\<rparr>"]) simp
qed

lemma held_back_event:
  assumes "held_back w0 M body w" "quiet e"
  shows "\<exists>n w'. response_event ops True e w = Returns (Inr n, w') \<and> held_back w0 M (body @ event_body e) w'
    \<and> (bw_headerWritten w' \<longleftrightarrow> bw_headerWritten w \<or> (\<exists>c. e = SendHeader c))
    \<and> bw_statusCode w' = (case e of SendHeader c \<Rightarrow> if bw_headerWritten w then bw_statusCode w else c | _ \<Rightarrow> bw_statusCode w)"
proof (cases e)
  case (SendBody p)
  with held_back_write [OF assms(1), of p] show ?thesis by (auto simp: response_event_def)
next
  case (AddHeader k v)
  with assms show ?thesis
    by (auto simp: response_event_def held_back_def ShouldSwitchToUnbuffered_def header_law split: if_splits)
next
  case (SendHeader c)
  with assms show ?thesis by (auto simp: response_event_def held_back_def bw_WriteHeader_def Let_def)
qed (use assms in simp_all)

lemma held_back_run:
  assumes "held_back w0 M body w" "list_all quiet es"
  shows "\<exists>w'. run_handler ops True es w = Returns w' \<and> held_back w0 M (body @ body_of es) w'
    \<and> (bw_headerWritten w' \<longleftrightarrow> bw_headerWritten w \<or> status_of es \<noteq> None)
    \<and> (bw_headerWritten w \<longrightarrow> bw_statusCode w' = bw_statusCode w)
    \<and> (\<not> bw_headerWritten w \<longrightarrow> (\<forall>c. status_of es = Some c \<longrightarrow> bw_statusCode w' = c))"
  using assms
proof (induction es arbitrary: w body)
  case Nil
  then show ?case by (simp add: body_of_def)
next
  case (Cons e es)
  from Cons.prems held_back_event [of w0 M body w e] obtain n w1 where
    w1: "response_event ops True e w = Returns (Inr n, w1)" "held_back w0 M (body @ event_body e) w1"
    "bw_headerWritten w1 \<longleftrightarrow> bw_headerWritten w \<or> (\<exists>c. e = SendHeader c)"
    "bw_statusCode w1 = (case e of SendHeader c \<Rightarrow> if bw_headerWritten w then bw_statusCode w else c | _ \<Rightarrow> bw_statusCode w)"
    by auto
  from Cons.IH [OF w1(2)] Cons.prems(2) obtain w2 where
    "run_handler ops True es w1 = Returns w2" "held_back w0 M (body @ body_of (e # es)) w2"
    "bw_headerWritten w2 \<longleftrightarrow> bw_headerWritten w1 \<or> status_of es \<noteq> None"
    "bw_headerWritten w1 \<longrightarrow> bw_statusCode w2 = bw_statusCode w1"
    "\<not> bw_headerWritten w1 \<longrightarrow> (\<forall>c. status_of es = Some c \<longrightarrow> bw_statusCode w2 = c)"
    by (auto simp: body_of_def)
  with w1 show ?case by (cases e) auto
qed

text \<open>The status lines a handler's events leave on a writer that they are passed on to.\<close>

definition status_lines :: "ResponseEvent list \<Rightarrow> int list \<Rightarrow> int list" where
  "status_lines es before =
     (case status_of es of Some c \<Rightarrow> before @ [c]
      | None \<Rightarrow> if body_of es = [] \<or> before \<noteq> [] then before else implicit)"

lemma all_or_nothing:
  assumes "0 \<le> maxMem" and "list_all quiet es" and "wok w" and "\<not> ShouldSwitchToUnbuffered (wo_Header ops w)"
  shows "\<exists>w' b. ResponseBuffer_ServeHTTP ops True maxMem maxBytes es w = Returns (w', b) \<and> wok w' \<and>
    (if maxBytes \<le> 0 \<or> int (length (body_of es)) \<le> maxBytes
     then statuses w' = status_lines es (statuses w) \<and> sent w' = sent w @ body_of es
     else statuses w' = statuses w @ [500] \<and> sent w' = sent w @ ''Internal Server Error'' @ [CHR 0x0A])"
proof -
  let ?w = "\<lparr>bw_inner = w, bw_statusCode = 200, bw_buffer = NewBufferedWriteCloser maxBytes maxMem,
     bw_hijacked = False, bw_headerWritten = False, bw_bypass = False\<rparr>"
  have "held_back w maxBytes [] ?w"
    using assms(1,3,4) by (auto simp: held_back_def new_buf_ok)
  from held_back_run [OF this assms(2)] obtain bw where r: "run_handler ops True es ?w = Returns bw"
    and h: "held_back w maxBytes (body_of es) bw" and hw: "bw_headerWritten bw \<longleftrightarrow> status_of es \<noteq> None"
    and sc: "\<forall>c. status_of es = Some c \<longrightarrow> bw_statusCode bw = c" by auto
  show ?thesis
  proof (cases "bf_overflowed (bw_buffer bw)")
    case True
    with h r show ?thesis
      using http_Error_sent [of "bw_inner bw"] by (auto simp: held_back_def ResponseBuffer_ServeHTTP_def bw_Send_def)
  next
    case False
    with h r hw sc show ?thesis
      by (auto simp: held_back_def ResponseBuffer_ServeHTTP_def bw_Send_def send_buffer_def Buffer_Send_def
          status_lines_def status_law body_law Let_def split: option.splits)
  qed
qed

end

subsection \<open>The writers of the proxy\<close>

interpretation plain_writer: response_writer rw_ops "\<lambda>_. True" rw_status rw_body "[]"
  by unfold_locales (auto simp: rw_ops_def)

definition lw_ok :: "loadBalancerResponseWriter \<Rightarrow> bool" where
  "lw_ok w \<longleftrightarrow> (lw_headerWritten w \<longleftrightarrow> rw_status (lw_inner w) \<noteq> [])"

interpretation affinity_writer: response_writer "lb_ops now" lw_ok "rw_status \<circ> lw_inner" "rw_body \<circ> lw_inner" "[200]"
  for now
  by unfold_locales (auto simp: lb_ops_def lw_ok_def lbWriteHeader_def lbWrite_def setWriterAffinityCookie_def Let_def)

text \<open>A buffered response reaches the client whole or not at all: within the limit the client gets
  the handler's first status, or the default one, and exactly the bytes it wrote; over the limit it
  gets a 500 response and none of them.\<close>

theorem response_all_or_nothing:
  assumes "0 \<le> maxMem" and "list_all quiet es" and "\<not> ShouldSwitchToUnbuffered (rw_Header w)"
  shows "\<exists>w' b. ResponseBuffer_ServeHTTP rw_ops True maxMem maxBytes es w = Returns (w', b) \<and>
    (if maxBytes \<le> 0 \<or> int (length (body_of es)) \<le> maxBytes
     then rw_status w' = rw_status w @ (case status_of es of None \<Rightarrow> [] | Some c \<Rightarrow> [c])
          \<and> rw_body w' = rw_body w @ body_of es
     else rw_status w' = rw_status w @ [500]
          \<and> rw_body w' = rw_body w @ ''Internal Server Error'' @ [CHR 0x0A])"
proof -
  from assms(3) have "\<not> ShouldSwitchToUnbuffered (wo_Header rw_ops w)" by (simp add: rw_ops_def)
  from plain_writer.all_or_nothing [OF assms(1,2) TrueI this, of maxBytes] show ?thesis
    by (auto simp: plain_writer.status_lines_def split: option.splits if_splits)
qed

theorem request_buffer_roundtrip_witness:
  "\<exists>b. RequestBuffer_ServeHTTP rw_ops True [''hel'', ''lo''] None 10 4 ex_response = Returns (PassBody b) \<and> fst (Buffer_Send b) = ''hello''
     \<and> read_slices [2, 1, 9, 9, 9] b = ''hello''"
proof -
  from request_buffer_roundtrip [of 4 10 "[''hel'', ''lo'']" rw_ops ex_response] obtain b where
    "RequestBuffer_ServeHTTP rw_ops True [''hel'', ''lo''] None 10 4 ex_response = Returns (PassBody b)" "fst (Buffer_Send b) = ''hello''"
    and r: "\<And>ns. list_all (\<lambda>n. 0 < n) ns \<Longrightarrow> 5 \<le> length ns \<Longrightarrow> read_slices ns b = ''hello''" by auto
  with r [of "[2, 1, 9, 9, 9]"] show ?thesis by auto
qed

theorem response_all_or_nothing_witness:
  "\<exists>w' b. ResponseBuffer_ServeHTTP rw_ops True 2 4 [SendHeader 201, SendBody ''hel'', SendBody ''lo''] ex_response = Returns (w', b)
     \<and> rw_status w' = [500] \<and> rw_body w' = ''Internal Server Error'' @ [CHR 0x0A]"
  using response_all_or_nothing [of 2 "[SendHeader 201, SendBody ''hel'', SendBody ''lo'']" ex_response 4]
  by (auto simp: body_of_def ex_response_def ShouldSwitchToUnbuffered_def Header_Get_def)

end
