(* ===== verification/Middlewares.thy ===== *)
theory Middlewares
  imports Buffers
begin

section \<open>Error pages, request headers and logging\<close>

text \<open>
  Models \<open>internal/server/error_page_middleware.go\<close>, \<open>request_id_middleware.go\<close>,
  \<open>request_start_middleware.go\<close> and \<open>logging_middleware.go\<close>. A handler turns the shared error response
  and the response writer into new ones. Templates are a lookup by status code; executing one gives its
  output, or what it wrote before it failed. A generated request id is an argument.
\<close>

subsection \<open>Error pages\<close>

record errorResponse =
  er_StatusCode :: int
  er_TemplateArguments :: "string option"

type_synonym Templates = "int \<Rightarrow> (string option \<Rightarrow> string + string) option"

record ErrorPageMiddleware =
  ep_template :: Templates
  ep_root :: bool

type_synonym handler = "errorResponse \<times> ResponseWriter \<Rightarrow> errorResponse \<times> ResponseWriter"

text \<open>\<open>http.StatusText\<close>.\<close>

definition status_texts :: "(int \<times> string) list" where
  "status_texts = [(100, ''Continue''), (101, ''Switching Protocols''), (102, ''Processing''), (103, ''Early Hints''),
     (200, ''OK''), (201, ''Created''), (202, ''Accepted''), (203, ''Non-Authoritative Information''),
     (204, ''No Content''), (205, ''Reset Content''), (206, ''Partial Content''), (207, ''Multi-Status''),
     (208, ''Already Reported''), (226, ''IM Used''), (300, ''Multiple Choices''), (301, ''Moved Permanently''),
     (302, ''Found''), (303, ''See Other''), (304, ''Not Modified''), (305, ''Use Proxy''),
     (307, ''Temporary Redirect''), (308, ''Permanent Redirect''), (400, ''Bad Request''), (401, ''Unauthorized''),
     (402, ''Payment Required''), (403, ''Forbidden''), (404, ''Not Found''), (405, ''Method Not Allowed''),
     (406, ''Not Acceptable''), (407, ''Proxy Authentication Required''), (408, ''Request Timeout''),
     (409, ''Conflict''), (410, ''Gone''), (411, ''Length Required''), (412, ''Precondition Failed''),
     (413, ''Request Entity Too Large''), (414, ''Request URI Too Long''), (415, ''Unsupported Media Type''),
     (416, ''Requested Range Not Satisfiable''), (417, ''Expectation Failed''), (421, ''Misdirected Request''),
     (422, ''Unprocessable Entity''), (423, ''Locked''), (424, ''Failed Dependency''), (425, ''Too Early''),
     (426, ''Upgrade Required''), (428, ''Precondition Required''), (429, ''Too Many Requests''),
     (431, ''Request Header Fields Too Large''), (451, ''Unavailable For Legal Reasons''),
     (500, ''Internal Server Error''), (501, ''Not Implemented''), (502, ''Bad Gateway''),
     (503, ''Service Unavailable''), (504, ''Gateway Timeout''), (505, ''HTTP Version Not Supported''),
     (506, ''Variant Also Negotiates''), (507, ''Insufficient Storage''), (508, ''Loop Detected''),
     (510, ''Not Extended''), (511, ''Network Authentication Required'')]"

definition StatusText :: "int \<Rightarrow> string" where
  "StatusText code =
     (if code = 418 then ''I'' @ [CHR 0x27] @ ''m a teapot''
      else (case map_of status_texts code of Some t \<Rightarrow> t | None \<Rightarrow> []))"

text \<open>\<open>SetErrorResponse\<close> when an error page middleware is in the chain, and its fallback.\<close>

definition SetErrorResponse :: "int \<Rightarrow> string option \<Rightarrow> handler" where
  "SetErrorResponse statusCode args = (\<lambda>(er, w).
     (er\<lparr>er_StatusCode := statusCode, er_TemplateArguments := args\<rparr>, w))"

definition SetErrorResponse_fallback :: "int \<Rightarrow> ResponseWriter \<Rightarrow> ResponseWriter" where
  "SetErrorResponse_fallback statusCode w = http_Error rw_ops (StatusText statusCode) statusCode w"

definition write_body :: "string \<Rightarrow> ResponseWriter \<Rightarrow> ResponseWriter" where
  "write_body out w = w\<lparr>rw_body := rw_body w @ out\<rparr>"

definition fallback_page :: "int \<Rightarrow> string" where
  "fallback_page code = ''<h1>'' @ FormatInt code @ '' '' @ StatusText code @ ''</h1>''"

definition writeErrorWithoutTemplate :: "ErrorPageMiddleware \<Rightarrow> int \<Rightarrow> ResponseWriter \<Rightarrow> bool \<times> ResponseWriter" where
  "writeErrorWithoutTemplate h code w =
     (if ep_root h then (True, write_body (fallback_page code) w) else (False, w))"

definition respondWithErrorPage ::
  "ErrorPageMiddleware \<Rightarrow> int \<Rightarrow> string option \<Rightarrow> ResponseWriter \<Rightarrow> bool \<times> ResponseWriter" where
  "respondWithErrorPage h code args w =
     (let w1 = w\<lparr>rw_Header := Header_Set (rw_Header w) ''Content-Type'' ''text/html; charset=utf-8'',
                 rw_status := rw_status w @ [code]\<rparr>
      in case ep_template h code of
           None \<Rightarrow> writeErrorWithoutTemplate h code w1
         | Some t \<Rightarrow> (case t args of
               Inr out \<Rightarrow> (True, write_body out w1)
             | Inl partial \<Rightarrow> writeErrorWithoutTemplate h code (write_body partial w1)))"

text \<open>\<open>ServeHTTP\<close>, given the error response found in the request's context, if any.\<close>

definition ErrorPage_ServeHTTP ::
  "ErrorPageMiddleware \<Rightarrow> handler \<Rightarrow> errorResponse option \<times> ResponseWriter \<Rightarrow> errorResponse \<times> ResponseWriter" where
  "ErrorPage_ServeHTTP h next' = (\<lambda>(ctx, w).
     let er = (case ctx of None \<Rightarrow> \<lparr>er_StatusCode = 0, er_TemplateArguments = None\<rparr> | Some e \<Rightarrow> e);
         (er1, w1) = next' (er, w)
     in if er_StatusCode er1 \<noteq> 0 then
          (let (handled, w2) = respondWithErrorPage h (er_StatusCode er1) (er_TemplateArguments er1) w1
           in (if handled then er1\<lparr>er_StatusCode := 0\<rparr> else er1, w2))
        else (er1, w1))"

text \<open>What a middleware's own templates write for an error, and whether that settles it.\<close>

definition page_of :: "ErrorPageMiddleware \<Rightarrow> int \<Rightarrow> string option \<Rightarrow> string \<times> bool" where
  "page_of h code args = (case ep_template h code of
       None \<Rightarrow> ([], False)
     | Some t \<Rightarrow> (case t args of Inr out \<Rightarrow> (out, True) | Inl partial \<Rightarrow> (partial, False)))"

lemma respond_cases:
  "respondWithErrorPage h code args w =
     (snd (page_of h code args) \<or> ep_root h,
      w\<lparr>rw_Header := Header_Set (rw_Header w) ''Content-Type'' ''text/html; charset=utf-8'',
        rw_status := rw_status w @ [code],
        rw_body := rw_body w @ fst (page_of h code args)
          @ (if snd (page_of h code args) \<or> \<not> ep_root h then [] else fallback_page code)\<rparr>)"
  by (auto simp: respondWithErrorPage_def page_of_def writeErrorWithoutTemplate_def write_body_def Let_def
      split: option.splits sum.splits)

text \<open>An error is always answered. With the proxy's own pages outermost and a service's custom pages
  inside, a handler that reports an error status ends with that status sent first, with the custom
  page when the service has one that renders, else with the proxy's page for the status, else with
  the plain fallback, and with the error settled. A response without an error passes through both.\<close>

theorem error_pages_answer:
  assumes "ep_root proxy" and "\<not> ep_root custom" and "code \<noteq> 0"
  shows "\<exists>er w'. ErrorPage_ServeHTTP proxy (\<lambda>(er, w). ErrorPage_ServeHTTP custom (SetErrorResponse code args) (Some er, w))
        (None, w) = (er, w')
      \<and> er_StatusCode er = 0
      \<and> rw_status w' = rw_status w @ (if snd (page_of custom code args) then [code] else [code, code])
      \<and> Header_Get (rw_Header w') ''Content-Type'' = ''text/html; charset=utf-8''
      \<and> rw_body w' = rw_body w @ fst (page_of custom code args)
          @ (if snd (page_of custom code args) then []
             else fst (page_of proxy code args)
               @ (if snd (page_of proxy code args) then [] else fallback_page code))"
  using assms by (simp add: ErrorPage_ServeHTTP_def SetErrorResponse_def respond_cases)

lemma no_error_passes:
  "er_StatusCode (fst (next' (\<lparr>er_StatusCode = 0, er_TemplateArguments = None\<rparr>, w))) = 0 \<Longrightarrow>
     ErrorPage_ServeHTTP h next' (None, w) = next' (\<lparr>er_StatusCode = 0, er_TemplateArguments = None\<rparr>, w)"
  by (auto simp: ErrorPage_ServeHTTP_def Let_def split: prod.splits)

subsection \<open>Request headers\<close>

definition requestIDHeader :: string where
  "requestIDHeader = ''X-Request-ID''"

definition requestStartHeader :: string where
  "requestStartHeader = ''X-Request-Start''"

text \<open>The header map is keyed by the canonical form, which for this name is \<open>X-Request-Id\<close>.\<close>

definition RequestID_ServeHTTP :: "string \<Rightarrow> Request \<Rightarrow> Request" where
  "RequestID_ServeHTTP newID r =
     (if Header_Get (rq_Header r) (CanonicalHeaderKey requestIDHeader) = []
      then r\<lparr>rq_Header := Header_Set (rq_Header r) (CanonicalHeaderKey requestIDHeader) newID\<rparr> else r)"

definition RequestStart_ServeHTTP :: "instant \<Rightarrow> Request \<Rightarrow> Request" where
  "RequestStart_ServeHTTP now r =
     (if Header_Get (rq_Header r) (CanonicalHeaderKey requestStartHeader) = []
      then r\<lparr>rq_Header := Header_Set (rq_Header r) (CanonicalHeaderKey requestStartHeader) (FormatInt (UnixMilli now))\<rparr>
      else r)"

subsection \<open>Logging\<close>

record loggingRequestContext =
  lc_Service :: string
  lc_Target :: string
  lc_RequestHeaders :: "string list"
  lc_ResponseHeaders :: "string list"

record LoggingMiddleware =
  lm_httpPort :: int
  lm_httpsPort :: int

record loggerResponseWriter =
  lr_inner :: ResponseWriter
  lr_statusCode :: int
  lr_bytesWritten :: int

definition newLoggerResponseWriter :: "ResponseWriter \<Rightarrow> loggerResponseWriter" where
  "newLoggerResponseWriter w = \<lparr>lr_inner = w, lr_statusCode = 200, lr_bytesWritten = 0\<rparr>"

definition lr_WriteHeader :: "int \<Rightarrow> loggerResponseWriter \<Rightarrow> loggerResponseWriter" where
  "lr_WriteHeader statusCode r =
     r\<lparr>lr_statusCode := statusCode, lr_inner := (lr_inner r)\<lparr>rw_status := rw_status (lr_inner r) @ [statusCode]\<rparr>\<rparr>"

definition lr_Write :: "byte list \<Rightarrow> loggerResponseWriter \<Rightarrow> loggerResponseWriter" where
  "lr_Write b r =
     r\<lparr>lr_inner := (lr_inner r)\<lparr>rw_body := rw_body (lr_inner r) @ b\<rparr>,
       lr_bytesWritten := lr_bytesWritten r + int (length b)\<rparr>"

definition lr_Hijack :: "bool \<Rightarrow> loggerResponseWriter \<Rightarrow> loggerResponseWriter" where
  "lr_Hijack succeeds r = (if succeeds then r\<lparr>lr_statusCode := 101\<rparr> else r)"

definition lr_Flush :: "loggerResponseWriter \<Rightarrow> loggerResponseWriter" where
  "lr_Flush r = r\<lparr>lr_inner := rw_Flush (lr_inner r)\<rparr>"

definition replace_byte :: "byte \<Rightarrow> byte \<Rightarrow> string \<Rightarrow> string" where
  "replace_byte x y s = map (\<lambda>c. if c = x then y else c) s"

definition retrieveCustomHeaders :: "string list \<Rightarrow> Header \<Rightarrow> string \<Rightarrow> (string \<times> string) list" where
  "retrieveCustomHeaders headerNames header prefix' =
     map (\<lambda>headerName.
       (prefix' @ ''_'' @ replace_byte (CHR ''-'') (CHR ''_'') (ToLower headerName), Join (header headerName) '',''))
       headerNames"

text \<open>The attributes of a log line, in the order of the source; \<open>elapsed\<close> is the measured duration in
  nanoseconds.\<close>

record LogEntry =
  le_host :: string
  le_port :: int
  le_path :: string
  le_request_id :: string
  le_status :: int
  le_service :: string
  le_target :: string
  le_duration :: duration
  le_method :: string
  le_req_content_length :: int
  le_req_content_type :: string
  le_resp_content_length :: int
  le_resp_content_type :: string
  le_client_addr :: string
  le_client_port :: string
  le_remote_addr :: string
  le_user_agent :: string
  le_proto :: string
  le_scheme :: string
  le_query :: string
  le_custom :: "(string \<times> string) list"

definition log_entry ::
  "LoggingMiddleware \<Rightarrow> duration \<Rightarrow> loggingRequestContext \<Rightarrow> Request \<Rightarrow> loggerResponseWriter \<Rightarrow> LogEntry" where
  "log_entry h elapsed lc r w =
     (let port = (if rq_TLS r then lm_httpsPort h else lm_httpPort h);
          scheme = (if rq_TLS r then ''https'' else ''http'');
          (clientAddr, clientPort) =
            (case SplitHostPort (rq_RemoteAddr r) of None \<Rightarrow> (rq_RemoteAddr r, []) | Some hp \<Rightarrow> hp);
          forwarded = Header_Get (rq_Header r) ''X-Forwarded-For'';
          remoteAddr = (if forwarded = [] then clientAddr else forwarded)
      in \<lparr>le_host = rq_Host r, le_port = port, le_path = rq_Path r,
          le_request_id = Header_Get (rq_Header r) (CanonicalHeaderKey requestIDHeader),
          le_status = lr_statusCode w, le_service = lc_Service lc, le_target = lc_Target lc,
          le_duration = elapsed, le_method = rq_Method r, le_req_content_length = rq_ContentLength r,
          le_req_content_type = Header_Get (rq_Header r) ''Content-Type'',
          le_resp_content_length = lr_bytesWritten w,
          le_resp_content_type = Header_Get (rw_Header (lr_inner w)) ''Content-Type'',
          le_client_addr = clientAddr, le_client_port = clientPort, le_remote_addr = remoteAddr,
          le_user_agent = Header_Get (rq_Header r) ''User-Agent'', le_proto = rq_Proto r,
          le_scheme = scheme, le_query = rq_RawQuery r,
          le_custom = retrieveCustomHeaders (lc_RequestHeaders lc) (rq_Header r) ''req''
            @ retrieveCustomHeaders (lc_ResponseHeaders lc) (rw_Header (lr_inner w)) ''resp''\<rparr>)"

datatype WriterCall = CallWriteHeader int | CallWrite "byte list" | CallFlush

fun logger_call :: "WriterCall \<Rightarrow> loggerResponseWriter \<Rightarrow> loggerResponseWriter" where
  "logger_call (CallWriteHeader c) = lr_WriteHeader c"
| "logger_call (CallWrite b) = lr_Write b"
| "logger_call CallFlush = lr_Flush"

lemma logger_fields [simp]:
  "lr_bytesWritten (lr_WriteHeader c l) = lr_bytesWritten l" "lr_statusCode (lr_WriteHeader c l) = c"
  "rw_body (lr_inner (lr_WriteHeader c l)) = rw_body (lr_inner l)"
  "rw_status (lr_inner (lr_WriteHeader c l)) = rw_status (lr_inner l) @ [c]"
  "lr_bytesWritten (lr_Write b l) = lr_bytesWritten l + int (length b)" "lr_statusCode (lr_Write b l) = lr_statusCode l"
  "rw_body (lr_inner (lr_Write b l)) = rw_body (lr_inner l) @ b"
  "rw_status (lr_inner (lr_Write b l)) = rw_status (lr_inner l)"
  by (simp_all add: lr_WriteHeader_def lr_Write_def)

definition log_consistent :: "loggerResponseWriter \<Rightarrow> bool" where
  "log_consistent l \<longleftrightarrow> lr_bytesWritten l = int (length (rw_body (lr_inner l)))
     \<and> lr_statusCode l = (if rw_status (lr_inner l) = [] then 200 else last (rw_status (lr_inner l)))"

lemma logger_call_consistent: "log_consistent l \<Longrightarrow> log_consistent (logger_call c l)"
  by (cases c) (simp_all add: log_consistent_def lr_Flush_def rw_Flush_def)

lemma logger_calls_consistent: "log_consistent l \<Longrightarrow> log_consistent (fold logger_call cs l)"
  by (induction cs arbitrary: l) (simp_all add: logger_call_consistent)

text \<open>The log tells what was sent: the logged length is the number of body bytes written, the
  logged status is the last one written (200 when none was), and the logged request id is the one
  the target receives, the client's own when it sent one.\<close>

theorem log_matches_response:
  assumes "rw_body w = []" and "rw_status w = []" and "newID \<noteq> []"
  shows "let l = fold logger_call cs (newLoggerResponseWriter w);
             e = log_entry h elapsed lc (RequestID_ServeHTTP newID r) l
         in le_resp_content_length e = int (length (rw_body (lr_inner l)))
            \<and> le_status e = (if rw_status (lr_inner l) = [] then 200 else last (rw_status (lr_inner l)))
            \<and> le_request_id e = (let own = Header_Get (rq_Header r) (CanonicalHeaderKey requestIDHeader)
                                 in if own = [] then newID else own)"
proof -
  have "log_consistent (newLoggerResponseWriter w)"
    using assms(1,2) by (simp add: log_consistent_def newLoggerResponseWriter_def)
  from logger_calls_consistent [OF this, of cs] assms(3) show ?thesis
    by (simp add: Let_def log_entry_def log_consistent_def RequestID_ServeHTTP_def split: prod.split)
qed

subsection \<open>Examples\<close>

definition ex_pages :: Templates where
  "ex_pages = (\<lambda>code. if code = 503 then Some (\<lambda>args. Inr (''down: '' @ (case args of None \<Rightarrow> [] | Some m \<Rightarrow> m))) else None)"

theorem error_pages_answer_witness:
  "\<exists>er w'. ErrorPage_ServeHTTP \<lparr>ep_template = ex_pages, ep_root = True\<rparr>
       (\<lambda>(er, w). ErrorPage_ServeHTTP \<lparr>ep_template = (\<lambda>_. None), ep_root = False\<rparr>
          (SetErrorResponse 503 (Some ''lunch'')) (Some er, w)) (None, ex_response) = (er, w')
     \<and> er_StatusCode er = 0 \<and> rw_body w' = ''down: lunch''"
  using error_pages_answer [of "\<lparr>ep_template = ex_pages, ep_root = True\<rparr>" "\<lparr>ep_template = (\<lambda>_. None), ep_root = False\<rparr>"
      503 "Some ''lunch''" ex_response]
  by (simp add: page_of_def ex_pages_def ex_response_def) blast

theorem log_matches_response_witness:
  "le_resp_content_length (log_entry \<lparr>lm_httpPort = 80, lm_httpsPort = 443\<rparr> 7
      \<lparr>lc_Service = ''web'', lc_Target = ''web-1'', lc_RequestHeaders = [], lc_ResponseHeaders = []\<rparr>
      (RequestID_ServeHTTP ''id-1'' (get_request ''app'' ''/''))
      (fold logger_call [CallWriteHeader 404, CallWrite ''gone''] (newLoggerResponseWriter ex_response))) = 4"
  using log_matches_response [of ex_response "''id-1''" "[CallWriteHeader 404, CallWrite ''gone'']"
      "\<lparr>lm_httpPort = 80, lm_httpsPort = 443\<rparr>" 7
      "\<lparr>lc_Service = ''web'', lc_Target = ''web-1'', lc_RequestHeaders = [], lc_ResponseHeaders = []\<rparr>"
      "get_request ''app'' ''/''"]
  by (simp add: ex_response_def Let_def newLoggerResponseWriter_def lr_WriteHeader_def lr_Write_def)

end
