(* ===== verification/HttpChain.thy ===== *)
theory HttpChain
  imports Routers Middlewares Md5
begin

section \<open>A request through the whole handler\<close>

text \<open>
  Models \<open>buildHandler\<close> of \<open>internal/server/server.go\<close>: the router inside the error pages, the log and the
  two middlewares that add request headers, with the services' own handlers inside the router. What
  a target answers, the ACME challenges, the templates and the clock are an environment.
\<close>

record ChainEnv =
  ce_env :: Environment
  ce_pages :: Templates
  ce_custom :: "string \<Rightarrow> Templates"
  ce_backend :: "Target \<Rightarrow> duration option \<Rightarrow> Request \<Rightarrow> handler"
  ce_challenge :: "Request \<Rightarrow> handler"
  ce_newID :: string
  ce_started :: instant
  ce_elapsed :: duration

subsection \<open>Redirects\<close>

text \<open>\<open>http.Redirect\<close> to an absolute URL.\<close>

definition htmlEscape :: "string \<Rightarrow> string" where
  "htmlEscape s = concat (map (\<lambda>c.
     if c = CHR ''&'' then ''&amp;'' else if c = CHR ''<'' then ''&lt;'' else if c = CHR ''>'' then ''&gt;''
     else if c = CHR 0x22 then ''&#34;'' else if c = CHR 0x27 then ''&#39;'' else [c]) s)"

definition hexEscapeNonASCII :: "string \<Rightarrow> string" where
  "hexEscapeNonASCII s = concat (map (\<lambda>c. if 128 \<le> (of_char c :: nat) then CHR ''%'' # hex [c] else [c]) s)"

definition http_Redirect :: "Request \<Rightarrow> string \<Rightarrow> int \<Rightarrow> ResponseWriter \<Rightarrow> ResponseWriter" where
  "http_Redirect r url code w =
     (let hadCT = rw_Header w ''Content-Type'' \<noteq> [];
          h1 = Header_Set (rw_Header w) ''Location'' (hexEscapeNonASCII url);
          h2 = (if \<not> hadCT \<and> (rq_Method r = ''GET'' \<or> rq_Method r = ''HEAD'')
                then Header_Set h1 ''Content-Type'' ''text/html; charset=utf-8'' else h1);
          body = (if \<not> hadCT \<and> rq_Method r = ''GET''
                  then ''<a href='' @ [CHR 0x22] @ htmlEscape url @ [CHR 0x22, CHR ''>''] @ StatusText code @ ''</a>.''
                    @ [CHR 0x0A, CHR 0x0A] else [])
      in w\<lparr>rw_Header := h2, rw_status := rw_status w @ [code], rw_body := rw_body w @ body\<rparr>)"

definition redirect_response :: "Request \<Rightarrow> string \<Rightarrow> handler" where
  "redirect_response r url = (\<lambda>(er, w).
     (er, http_Redirect r url 301 (w\<lparr>rw_Header := Header_Set (rw_Header w) ''Connection'' ''close''\<rparr>)))"

subsection \<open>The services' handlers\<close>

definition balancer_target :: "Router \<Rightarrow> string \<Rightarrow> TargetSlot \<Rightarrow> nat \<Rightarrow> Target option" where
  "balancer_target r name slot i =
     (case ServiceMap_Get (r_services r) name of
        None \<Rightarrow> None
      | Some s \<Rightarrow> (case (case slot of TargetSlotActive \<Rightarrow> sv_active s | TargetSlotRollout \<Rightarrow> sv_rollout s) of
          None \<Rightarrow> None
        | Some lb \<Rightarrow> if i < length (lb_all lb) then Some (lb_all lb ! i) else None))"

text \<open>What the service's own handler does once its decision for the request is made.\<close>

fun respond :: "ChainEnv \<Rightarrow> Router \<Rightarrow> string \<Rightarrow> Request \<Rightarrow> ServiceResponse \<Rightarrow> handler" where
  "respond ce r name req (RedirectTo url) = redirect_response req url"
| "respond ce r name req (ErrorResponse code args) = SetErrorResponse code args"
| "respond ce r name req (PlainStatus code) = (\<lambda>(er, w). (er, w\<lparr>rw_status := rw_status w @ [code]\<rparr>))"
| "respond ce r name req (Balanced slot (StartFailed code)) = SetErrorResponse code None"
| "respond ce r name req (Balanced slot (StartProxy i req' affinity)) =
     (case balancer_target r name slot i of None \<Rightarrow> (\<lambda>x. x) | Some t \<Rightarrow> ce_backend ce t affinity req')"

text \<open>\<open>createMiddleware\<close>: the custom error pages, if the service has any, around its handler.\<close>

definition service_chain :: "ChainEnv \<Rightarrow> Router \<Rightarrow> string \<Rightarrow> handler \<Rightarrow> handler" where
  "service_chain ce r name inner =
     (case ServiceMap_Get (r_services r) name of
        None \<Rightarrow> inner
      | Some s \<Rightarrow> (case sv_middleware s of
          None \<Rightarrow> inner
        | Some mw \<Rightarrow> (case mw_errorPages mw of
            None \<Rightarrow> inner
          | Some path \<Rightarrow> (\<lambda>(er, w). ErrorPage_ServeHTTP \<lparr>ep_template = ce_custom ce path, ep_root = False\<rparr> inner (Some er, w)))))"

fun router_handler :: "ChainEnv \<Rightarrow> Router \<Rightarrow> Request \<Rightarrow> RouterAnswer \<Rightarrow> handler" where
  "router_handler ce r req NotFound = SetErrorResponse 404 None"
| "router_handler ce r req AcmeChallenge = ce_challenge ce req"
| "router_handler ce r req (Served name req' (Answer resp)) = service_chain ce r name (respond ce r name req' resp)"
| "router_handler ce r req (Served name req' (Holding w)) = (\<lambda>x. x)"

text \<open>What the log context holds in the end: the router sets the service, and \<open>SendRequest\<close> the target and the
  headers that it logs.\<close>

definition SendRequest_log :: "Target \<Rightarrow> loggingRequestContext \<Rightarrow> loggingRequestContext" where
  "SendRequest_log t lc = lc\<lparr>lc_Target := t_address t, lc_RequestHeaders := to_LogRequestHeaders (t_options t),
     lc_ResponseHeaders := to_LogResponseHeaders (t_options t)\<rparr>"

definition empty_log :: "string \<Rightarrow> loggingRequestContext" where
  "empty_log service = \<lparr>lc_Service = service, lc_Target = [], lc_RequestHeaders = [], lc_ResponseHeaders = []\<rparr>"

fun log_context :: "Router \<Rightarrow> RouterAnswer \<Rightarrow> loggingRequestContext" where
  "log_context r (Served name req' a) =
     (case (case a of Answer (Balanced slot (StartProxy i _ _)) \<Rightarrow> balancer_target r name slot i | _ \<Rightarrow> None) of
        None \<Rightarrow> empty_log name
      | Some t \<Rightarrow> SendRequest_log t (empty_log name))"
| "log_context r _ = empty_log []"

lemma empty_log_fields [simp]: "lc_Service (empty_log s) = s" "lc_Target (empty_log s) = []"
  "lc_Service (SendRequest_log t lc) = lc_Service lc" "lc_Target (SendRequest_log t lc) = t_address t"
  by (simp_all add: empty_log_def SendRequest_log_def)

subsection \<open>The chain\<close>

text \<open>The logging writer around a response: whatever is written through it, it has the last status and the
  length of the body.\<close>

definition logged :: "ResponseWriter \<Rightarrow> loggerResponseWriter" where
  "logged w = \<lparr>lr_inner = w, lr_statusCode = (if rw_status w = [] then 200 else last (rw_status w)),
     lr_bytesWritten = int (length (rw_body w))\<rparr>"

lemma logged_iff: "log_consistent l \<longleftrightarrow> l = logged (lr_inner l)"
  by (cases l) (auto simp: log_consistent_def logged_def)

lemma logged_calls:
  assumes "rw_body w = []" "rw_status w = []"
  shows "fold logger_call cs (newLoggerResponseWriter w) = logged (lr_inner (fold logger_call cs (newLoggerResponseWriter w)))"
proof -
  have "log_consistent (newLoggerResponseWriter w)"
    using assms by (simp add: log_consistent_def newLoggerResponseWriter_def)
  from logger_calls_consistent [OF this] show ?thesis by (simp add: logged_iff)
qed

datatype served = Responded ResponseWriter LogEntry | Held WaitStatus

definition empty_response :: ResponseWriter where
  "empty_response = \<lparr>rw_Header = (\<lambda>_. []), rw_SetCookies = [], rw_status = [], rw_body = [], rw_flushed = 0\<rparr>"

definition with_headers :: "ChainEnv \<Rightarrow> Request \<Rightarrow> Request" where
  "with_headers ce req = RequestID_ServeHTTP (ce_newID ce) (RequestStart_ServeHTTP (ce_started ce) req)"

definition buildHandler ::
  "ChainEnv \<Rightarrow> LoggingMiddleware \<Rightarrow> instant \<Rightarrow> nat \<Rightarrow> Request \<Rightarrow> Router \<Rightarrow> (served \<times> Router) outcome" where
  "buildHandler ce lm now rid req r =
     (let req1 = with_headers ce req
      in bind_outcome (Router_ServeHTTP (ce_env ce) now rid req1 r) (\<lambda>(a, r').
           case a of
             Served _ _ (Holding w) \<Rightarrow> Returns (Held w, r')
           | _ \<Rightarrow>
               (let w = snd (ErrorPage_ServeHTTP \<lparr>ep_template = ce_pages ce, ep_root = True\<rparr> (router_handler ce r' req1 a)
                          (None, empty_response))
                in Returns (Responded w (log_entry lm (ce_elapsed ce) (log_context r' a) req1 (logged w)), r'))))"

subsection \<open>Error pages in the chain\<close>

text \<open>The page for an error: the service's own when it has one that renders, else the proxy's, else the
  plain fallback; what a failing template wrote stays in front.\<close>

definition error_body :: "Templates \<Rightarrow> Templates option \<Rightarrow> int \<Rightarrow> string option \<Rightarrow> string" where
  "error_body pages custom code args =
     (let own = (case custom of None \<Rightarrow> ([], False) | Some t \<Rightarrow> page_of \<lparr>ep_template = t, ep_root = False\<rparr> code args);
          proxy = page_of \<lparr>ep_template = pages, ep_root = True\<rparr> code args
      in fst own @ (if snd own then [] else fst proxy @ (if snd proxy then [] else fallback_page code)))"

definition custom_pages :: "ChainEnv \<Rightarrow> Service \<Rightarrow> Templates option" where
  "custom_pages ce s = (case sv_middleware s of None \<Rightarrow> None | Some mw \<Rightarrow> map_option (ce_custom ce) (mw_errorPages mw))"

lemma chain_error:
  assumes "ServiceMap_Get (r_services r) name = Some s" "code \<noteq> 0"
  shows "\<exists>er w'. ErrorPage_ServeHTTP \<lparr>ep_template = ce_pages ce, ep_root = True\<rparr> (service_chain ce r name (SetErrorResponse code args))
      (None, empty_response) = (er, w') \<and> set (rw_status w') = {code} \<and> rw_status w' \<noteq> []
      \<and> rw_body w' = error_body (ce_pages ce) (custom_pages ce s) code args"
  using assms
  by (auto simp: service_chain_def custom_pages_def error_body_def ErrorPage_ServeHTTP_def SetErrorResponse_def respond_cases
      empty_response_def page_of_def split: option.split)

lemma root_error:
  assumes "code \<noteq> 0"
  shows "\<exists>er w'. ErrorPage_ServeHTTP \<lparr>ep_template = ce_pages ce, ep_root = True\<rparr> (SetErrorResponse code args)
      (None, empty_response) = (er, w') \<and> rw_status w' = [code] \<and> rw_body w' = error_body (ce_pages ce) None code args"
  using assms by (simp add: error_body_def ErrorPage_ServeHTTP_def SetErrorResponse_def respond_cases empty_response_def page_of_def)

lemma with_headers_fields [simp]:
  "rq_Host (with_headers ce req) = rq_Host req" "rq_Path (with_headers ce req) = rq_Path req"
  "rq_Method (with_headers ce req) = rq_Method req" "rq_TLS (with_headers ce req) = rq_TLS req"
  by (simp_all add: with_headers_def RequestID_ServeHTTP_def RequestStart_ServeHTTP_def)

lemma with_headers_routed [simp]: "ServiceForRequest m (with_headers ce req) = ServiceForRequest m req"
  by (simp add: ServiceForRequest_def)

lemma log_entry_fields [simp]:
  "le_status (log_entry lm d lc req l) = lr_statusCode l" "le_resp_content_length (log_entry lm d lc req l) = lr_bytesWritten l"
  "le_service (log_entry lm d lc req l) = lc_Service lc" "le_target (log_entry lm d lc req l) = lc_Target lc"
  "le_request_id (log_entry lm d lc req l) = Header_Get (rq_Header req) (CanonicalHeaderKey requestIDHeader)"
  by (simp_all add: log_entry_def Let_def split: prod.split)

lemma with_headers_id:
  "ce_newID ce \<noteq> [] \<Longrightarrow> Header_Get (rq_Header (with_headers ce req)) (CanonicalHeaderKey requestIDHeader) \<noteq> []"
  by (simp add: with_headers_def RequestID_ServeHTTP_def)

lemma buildHandler_shape:
  assumes "rt_ok r"
  obtains a r' where "Router_ServeHTTP (ce_env ce) now rid (with_headers ce req) r = Returns (a, r')" "rt_ok r'"
    "(\<exists>x. buildHandler ce lm now rid req r = Returns (Held x, r')) \<or>
     (let w = snd (ErrorPage_ServeHTTP \<lparr>ep_template = ce_pages ce, ep_root = True\<rparr> (router_handler ce r' (with_headers ce req) a)
            (None, empty_response))
      in buildHandler ce lm now rid req r =
           Returns (Responded w (log_entry lm (ce_elapsed ce) (log_context r' a) (with_headers ce req) (logged w)), r'))"
proof -
  obtain a r' where r: "Router_ServeHTTP (ce_env ce) now rid (with_headers ce req) r = Returns (a, r')" "rt_ok r'"
    using ServeHTTP_ok [OF assms] by blast
  then show ?thesis
    by (intro that) (auto simp: buildHandler_def Let_def split: RouterAnswer.split ServiceAnswer.split)
qed


subsection \<open>A stopped service\<close>

lemma save_frame: "saveStateSnapshot env r = Returns r' \<Longrightarrow> r_services r' = r_services r"
  by (auto simp: saveStateSnapshot_def split: if_splits)

lemma StopService_effect:
  assumes ok: "rt_ok r" and s: "ServiceMap_Get (r_services r) name = Some s"
    and d: "StopService env name msg r = Returns (err, r')"
  shows "\<exists>p. ServiceMap_Get (r_services r') name = Some (s\<lparr>sv_pauseController := Some p\<rparr>)
    \<and> pc_State p = PauseStateStopped \<and> pc_StopMessage p = msg \<and> sm_requests (r_services r') = sm_requests (r_services r)"
proof -
  have n: "sv_name s = name" using rt_okD(3) [OF ok rt_ok_Get [OF ok s]] .
  with s d show ?thesis
    by (auto simp: StopService_def on_service_def control_def Service_Stop_def with_pause_def PauseController_Stop_def setState_def
        put_service_def ServiceMap_Get_def dest!: save_frame split: option.splits)
qed

text \<open>A request that reaches the service's own decision.\<close>

definition plain_request :: "ChainEnv \<Rightarrow> Service \<Rightarrow> Request \<Rightarrow> bool" where
  "plain_request ce s req \<longleftrightarrow> so_TLSEnabled (sv_options s) = rq_TLS req \<and> \<not> IsHealthCheckRequest (sv_targetOptions s) req
     \<and> (\<forall>r. \<not> env_acme_handles (ce_env ce) r)"

lemma routed_request_fields [simp]:
  "rq_TLS (routed_request s p req) = rq_TLS req" "rq_Method (routed_request s p req) = rq_Method req"
  "rq_Path (routed_request s p req) = rq_Path req"
  by (simp_all add: routed_request_def)

lemma stopped_routed:
  assumes "ServiceForRequest (r_services r) req = Some (name, p)" "ServiceMap_Get (r_services r) name = Some s"
    "sv_pauseController s = Some pc" "pc_State pc = PauseStateStopped" "plain_request ce s req" "sv_name s = name"
  shows "Router_ServeHTTP (ce_env ce) now rid (with_headers ce req) r =
    Returns (Served name (routed_request s p (with_headers ce req)) (Answer (ErrorResponse 503 (Some (pc_StopMessage pc)))),
      put_service s r)"
  using assms
  by (auto simp: Router_ServeHTTP_def serviceRequestWithTarget_def shouldRedirectToHTTPS_def handlePausedAndStoppedRequests_def
      after_wait_begin plain_request_def IsHealthCheckRequest_def Let_def)


subsection \<open>Examples\<close>

definition ex_chain :: ChainEnv where
  "ex_chain = \<lparr>ce_env = example_environment, ce_pages = ex_pages, ce_custom = (\<lambda>_ _. None),
     ce_backend = (\<lambda>t affinity req (er, w). (er, w\<lparr>rw_status := rw_status w @ [200]\<rparr>)), ce_challenge = (\<lambda>_ x. x),
     ce_newID = ''id-1'', ce_started = 0, ce_elapsed = 7\<rparr>"

definition ex_logging :: LoggingMiddleware where
  "ex_logging = \<lparr>lm_httpPort = 80, lm_httpsPort = 443\<rparr>"



end
