(* ===== verification/Metrics.thy ===== *)
theory Metrics
  imports HttpChain
begin

section \<open>Metrics\<close>

text \<open>
  Models \<open>internal/metrics/metrics.go\<close>: the tracker that the service and the logging middleware call, as no
  tracker and as the one that keeps three Prometheus vectors. The vectors and their registry belong to the
  client library: they are a record of operations over a state of any type, and what the code relies on is
  \<open>vector_laws\<close>. A request is the sequence of calls that it makes on the vectors, deferred ones and
  panics included; requests interleave by single calls.
\<close>

subsection \<open>The vectors\<close>

datatype metric = HttpRequests | HttpDuration | InflightRequests

definition BuildFQName :: "string \<Rightarrow> string \<Rightarrow> string \<Rightarrow> string" where
  "BuildFQName namespace subsystem name = namespace @ ''_'' @ subsystem @ ''_'' @ name"

fun metric_name :: "metric \<Rightarrow> string" where
  "metric_name HttpRequests = BuildFQName ''kamal'' ''proxy'' ''http_requests_total''"
| "metric_name HttpDuration = BuildFQName ''kamal'' ''proxy'' ''http_request_duration_seconds''"
| "metric_name InflightRequests = BuildFQName ''kamal'' ''proxy'' ''http_in_flight_requests''"

fun metric_labels :: "metric \<Rightarrow> string list" where
  "metric_labels HttpRequests = [''service'', ''method'', ''status'']"
| "metric_labels HttpDuration = [''service'', ''method'', ''status'']"
| "metric_labels InflightRequests = [''service'']"

text \<open>What the client library offers: \<open>MustRegister\<close>, whether \<open>WithLabelValues\<close> accepts values for labels
  (it panics otherwise), and the operations on the series that it returns. The value of a histogram series is the number of
  its observations.\<close>

record 'v Prometheus =
  pm_MustRegister :: "string list \<Rightarrow> 'v \<Rightarrow> 'v outcome"
  pm_accepts :: "string list \<Rightarrow> string list \<Rightarrow> bool"
  pm_Inc :: "string \<Rightarrow> string list \<Rightarrow> 'v \<Rightarrow> 'v"
  pm_Dec :: "string \<Rightarrow> string list \<Rightarrow> 'v \<Rightarrow> 'v"
  pm_Observe :: "string \<Rightarrow> string list \<Rightarrow> duration \<Rightarrow> 'v \<Rightarrow> 'v"
  pm_value :: "'v \<Rightarrow> string \<Rightarrow> string list \<Rightarrow> int"
  pm_registered :: "'v \<Rightarrow> string set"

definition moved :: "('v, 'z) Prometheus_scheme \<Rightarrow> string \<Rightarrow> string list \<Rightarrow> int \<Rightarrow> 'v \<Rightarrow> 'v \<Rightarrow> bool" where
  "moved pm name ls k v v' \<longleftrightarrow> pm_registered pm v' = pm_registered pm v \<and>
     (\<forall>name' ls'. pm_value pm v' name' ls' = pm_value pm v name' ls' + (if name' = name \<and> ls' = ls then k else 0))"

definition vector_laws :: "('v, 'z) Prometheus_scheme \<Rightarrow> bool" where
  "vector_laws pm \<longleftrightarrow>
     (\<forall>name ls v. moved pm name ls 1 v (pm_Inc pm name ls v)) \<and>
     (\<forall>name ls v. moved pm name ls (- 1) v (pm_Dec pm name ls v)) \<and>
     (\<forall>name ls d v. moved pm name ls 1 v (pm_Observe pm name ls d v))"

definition register_laws :: "('v, 'z) Prometheus_scheme \<Rightarrow> bool" where
  "register_laws pm \<longleftrightarrow> (\<forall>names v.
     ((\<exists>msg. pm_MustRegister pm names v = Panics msg) \<longleftrightarrow> \<not> distinct names \<or> set names \<inter> pm_registered pm v \<noteq> {}) \<and>
     (\<forall>v'. pm_MustRegister pm names v = Returns v' \<longrightarrow>
        pm_registered pm v' = pm_registered pm v \<union> set names \<and> pm_value pm v' = pm_value pm v))"

subsection \<open>The trackers\<close>

datatype vector_call = Inc metric "string list" | Dec metric "string list" | Observe metric "string list" duration

datatype tracker = nullTracker | prometheusTracker

definition NewPrometheusTracker :: "('v, 'z) Prometheus_scheme \<Rightarrow> 'v \<Rightarrow> (tracker \<times> 'v) outcome" where
  "NewPrometheusTracker pm v =
     bind_outcome (pm_MustRegister pm (map metric_name [HttpRequests, HttpDuration, InflightRequests]) v)
       (\<lambda>v'. Returns (prometheusTracker, v'))"

text \<open>\<open>Enable\<close> replaces the tracker of the process; the handler that it returns belongs to the library.\<close>

definition Enable :: "('v, 'z) Prometheus_scheme \<Rightarrow> tracker \<times> 'v \<Rightarrow> (tracker \<times> 'v) outcome" where
  "Enable pm st = NewPrometheusTracker pm (snd st)"

fun TrackRequest :: "tracker \<Rightarrow> string \<Rightarrow> string \<Rightarrow> int \<Rightarrow> duration \<Rightarrow> vector_call list" where
  "TrackRequest nullTracker service method status d = []"
| "TrackRequest prometheusTracker service method status d =
     (let statusString = FormatInt status
      in [Inc HttpRequests [service, method, statusString], Observe HttpDuration [service, method, statusString] d])"

fun AddInflightRequest :: "tracker \<Rightarrow> string \<Rightarrow> vector_call list" where
  "AddInflightRequest nullTracker service = []"
| "AddInflightRequest prometheusTracker service = [Inc InflightRequests [service]]"

fun SubtractInflightRequest :: "tracker \<Rightarrow> string \<Rightarrow> vector_call list" where
  "SubtractInflightRequest nullTracker service = []"
| "SubtractInflightRequest prometheusTracker service = [Dec InflightRequests [service]]"

subsection \<open>The calls of a request\<close>

text \<open>The calls that a piece of code makes, and whether it returned or panicked.\<close>

datatype ending = Completed | Panicked

type_synonym run = "vector_call list \<times> ending"

fun call_metric :: "vector_call \<Rightarrow> metric" where
  "call_metric (Inc m ls) = m"
| "call_metric (Dec m ls) = m"
| "call_metric (Observe m ls d) = m"

fun call_values :: "vector_call \<Rightarrow> string list" where
  "call_values (Inc m ls) = ls"
| "call_values (Dec m ls) = ls"
| "call_values (Observe m ls d) = ls"

definition accepted :: "('v, 'z) Prometheus_scheme \<Rightarrow> vector_call \<Rightarrow> bool" where
  "accepted pm c \<longleftrightarrow> pm_accepts pm (metric_labels (call_metric c)) (call_values c)"

fun make_calls :: "('v, 'z) Prometheus_scheme \<Rightarrow> vector_call list \<Rightarrow> run" where
  "make_calls pm [] = ([], Completed)"
| "make_calls pm (c # cs) =
     (if accepted pm c then (let (ds, e) = make_calls pm cs in (c # ds, e)) else ([], Panicked))"

text \<open>One piece of code after another, which runs only when the first has returned; and a deferred call, which
  runs in any case.\<close>

definition and_then :: "run \<Rightarrow> run \<Rightarrow> run" where
  "and_then a b = (if snd a = Completed then (fst a @ fst b, snd b) else a)"

definition deferring :: "run \<Rightarrow> run \<Rightarrow> run" where
  "deferring d a = (fst a @ fst d, if snd d = Panicked then Panicked else snd a)"

definition Service_ServeHTTP :: "('v, 'z) Prometheus_scheme \<Rightarrow> tracker \<Rightarrow> string \<Rightarrow> run \<Rightarrow> run" where
  "Service_ServeHTTP pm tr name middleware =
     and_then (make_calls pm (AddInflightRequest tr name))
       (deferring (make_calls pm (SubtractInflightRequest tr name)) middleware)"

definition Logging_ServeHTTP :: "('v, 'z) Prometheus_scheme \<Rightarrow> tracker \<Rightarrow> string \<Rightarrow> string \<Rightarrow> int \<Rightarrow> duration \<Rightarrow> run \<Rightarrow> run" where
  "Logging_ServeHTTP pm tr service method status elapsed next =
     deferring (make_calls pm (TrackRequest tr service method status elapsed)) next"

text \<open>A request: the service that it is routed to, if any, the service and the status that the log context
  and the recording writer have in the end, and how the handler inside ended: the reverse proxy panics when
  it cannot copy the response.\<close>

record Visit =
  vi_routed :: "string option"
  vi_service :: string
  vi_method :: string
  vi_status :: int
  vi_elapsed :: duration
  vi_ending :: ending

definition visit_calls :: "('v, 'z) Prometheus_scheme \<Rightarrow> tracker \<Rightarrow> Visit \<Rightarrow> vector_call list" where
  "visit_calls pm tr vi =
     fst (Logging_ServeHTTP pm tr (vi_service vi) (vi_method vi) (vi_status vi) (vi_elapsed vi)
       (case vi_routed vi of
          None \<Rightarrow> ([], vi_ending vi)
        | Some name \<Rightarrow> Service_ServeHTTP pm tr name ([], vi_ending vi)))"

subsection \<open>Requests that interleave\<close>

definition perform :: "('v, 'z) Prometheus_scheme \<Rightarrow> vector_call \<Rightarrow> 'v \<Rightarrow> 'v" where
  "perform pm c v =
     (case c of
        Inc m ls \<Rightarrow> pm_Inc pm (metric_name m) ls v
      | Dec m ls \<Rightarrow> pm_Dec pm (metric_name m) ls v
      | Observe m ls d \<Rightarrow> pm_Observe pm (metric_name m) ls d v)"

text \<open>A request with the calls that it has made and those it has still to make.\<close>

record Progress =
  pr_visit :: Visit
  pr_made :: "vector_call list"
  pr_left :: "vector_call list"

record 'v Metered =
  mt_vectors :: 'v
  mt_requests :: "Progress list"

inductive metrics_step :: "('v, 'z) Prometheus_scheme \<Rightarrow> tracker \<Rightarrow> 'v Metered \<Rightarrow> 'v Metered \<Rightarrow> bool"
  for pm :: "('v, 'z) Prometheus_scheme" and tr :: tracker where
  arrive: "metrics_step pm tr st
    (st\<lparr>mt_requests := mt_requests st @ [\<lparr>pr_visit = vi, pr_made = [], pr_left = visit_calls pm tr vi\<rparr>]\<rparr>)"
| call: "i < length (mt_requests st) \<Longrightarrow> mt_requests st ! i = \<lparr>pr_visit = vi, pr_made = made, pr_left = c # left\<rparr> \<Longrightarrow>
    metrics_step pm tr st (st\<lparr>mt_vectors := perform pm c (mt_vectors st),
      mt_requests := (mt_requests st)[i := \<lparr>pr_visit = vi, pr_made = made @ [c], pr_left = left\<rparr>]\<rparr>)"

definition metrics_start :: "('v, 'z) Prometheus_scheme \<Rightarrow> 'v Metered \<Rightarrow> bool" where
  "metrics_start pm st \<longleftrightarrow> mt_requests st = [] \<and> (\<forall>m ls. pm_value pm (mt_vectors st) (metric_name m) ls = 0)"

text \<open>The value that the calls made so far give a series.\<close>

fun effect :: "metric \<Rightarrow> string list \<Rightarrow> vector_call \<Rightarrow> int" where
  "effect m ls (Inc m' ls') = (if m' = m \<and> ls' = ls then 1 else 0)"
| "effect m ls (Dec m' ls') = (if m' = m \<and> ls' = ls then - 1 else 0)"
| "effect m ls (Observe m' ls' d) = (if m' = m \<and> ls' = ls then 1 else 0)"

definition contribution :: "metric \<Rightarrow> string list \<Rightarrow> Progress \<Rightarrow> int" where
  "contribution m ls pr = sum_list (map (effect m ls) (pr_made pr))"

definition metered :: "('v, 'z) Prometheus_scheme \<Rightarrow> tracker \<Rightarrow> 'v Metered \<Rightarrow> bool" where
  "metered pm tr st \<longleftrightarrow>
     (\<forall>pr\<in>set (mt_requests st). pr_made pr @ pr_left pr = visit_calls pm tr (pr_visit pr)) \<and>
     (\<forall>m ls. pm_value pm (mt_vectors st) (metric_name m) ls = sum_list (map (contribution m ls) (mt_requests st)))"

lemma metric_name_inject [simp]: "metric_name m = metric_name m' \<longleftrightarrow> m = m'"
  by (cases m; cases m') (simp_all add: BuildFQName_def)

lemma perform_value:
  assumes "vector_laws pm"
  shows "pm_value pm (perform pm c v) (metric_name m) ls = pm_value pm v (metric_name m) ls + effect m ls c"
  using assms by (cases c) (auto simp: vector_laws_def moved_def perform_def)

lemma sum_list_replaced:
  fixes xs :: "int list"
  shows "i < length xs \<Longrightarrow> sum_list (xs[i := x]) = sum_list xs + (x - xs ! i)"
  by (induction xs arbitrary: i) (auto split: nat.split)

lemma metrics_start_metered: "metrics_start pm st \<Longrightarrow> metered pm tr st"
  by (simp add: metrics_start_def metered_def)

lemma metrics_step_metered:
  assumes "vector_laws pm" "metered pm tr st" "metrics_step pm tr st st'"
  shows "metered pm tr st'"
  using assms(3)
proof cases
  case (arrive vi)
  then show ?thesis using assms(2) by (simp add: metered_def contribution_def)
next
  case (call i vi made c left)
  let ?new = "\<lparr>pr_visit = vi, pr_made = made @ [c], pr_left = left\<rparr>"
  have old: "mt_requests st ! i \<in> set (mt_requests st)" using call(2) by simp
  have "sum_list (map (contribution m ls) ((mt_requests st)[i := ?new])) =
      sum_list (map (contribution m ls) (mt_requests st)) + effect m ls c" for m ls
    using call(2,3) by (simp add: map_update sum_list_replaced contribution_def)
  moreover have "\<forall>pr\<in>set ((mt_requests st)[i := ?new]). pr_made pr @ pr_left pr = visit_calls pm tr (pr_visit pr)"
    using assms(2) old call(3) by (auto simp: metered_def dest!: set_update_subset_insert [THEN subsetD])
  ultimately show ?thesis
    using assms(2) call(1) by (simp add: metered_def perform_value [OF assms(1)])
qed

interpretation metering: kept_invariant "metrics_start pm" "metrics_step pm tr" "\<lambda>st. vector_laws pm \<longrightarrow> metered pm tr st" for pm tr
  by unfold_locales (auto intro: metrics_start_metered metrics_step_metered)

subsection \<open>What a request contributes\<close>

text \<open>A request is in its service after it was counted in and until it is counted out.\<close>

definition in_service :: "string \<Rightarrow> Progress \<Rightarrow> bool" where
  "in_service s pr \<longleftrightarrow> Inc InflightRequests [s] \<in> set (pr_made pr) \<and> Dec InflightRequests [s] \<in> set (pr_left pr)"

definition counted :: "string list \<Rightarrow> Progress \<Rightarrow> bool" where
  "counted ls pr \<longleftrightarrow> Inc HttpRequests ls \<in> set (pr_made pr)"

definition visit_labels :: "Visit \<Rightarrow> string list" where
  "visit_labels vi = [vi_service vi, vi_method vi, FormatInt (vi_status vi)]"

definition all_done :: "'v Metered \<Rightarrow> bool" where
  "all_done st \<longleftrightarrow> (\<forall>pr\<in>set (mt_requests st). pr_left pr = [])"

text \<open>The calls of a request, in full: in and out of its service, when the library accepts its name, then
  its count and its duration, when the library accepts the labels.\<close>

lemma accepted_pairs [simp]:
  "accepted pm (Dec InflightRequests ls) = accepted pm (Inc InflightRequests ls)"
  "accepted pm (Observe HttpDuration ls d) = accepted pm (Inc HttpRequests ls)"
  by (simp_all add: accepted_def)

lemma visit_calls_prometheus:
  "visit_calls pm prometheusTracker vi =
     (case vi_routed vi of None \<Rightarrow> [] | Some s \<Rightarrow>
        if accepted pm (Inc InflightRequests [s]) then [Inc InflightRequests [s], Dec InflightRequests [s]] else []) @
     (if accepted pm (Inc HttpRequests (visit_labels vi))
      then [Inc HttpRequests (visit_labels vi), Observe HttpDuration (visit_labels vi) (vi_elapsed vi)] else [])"
  by (simp add: visit_calls_def Logging_ServeHTTP_def Service_ServeHTTP_def deferring_def and_then_def visit_labels_def Let_def
      split: option.split)

lemma visit_calls_null: "visit_calls pm nullTracker vi = []"
  by (simp add: visit_calls_def Logging_ServeHTTP_def Service_ServeHTTP_def deferring_def and_then_def split: option.split)

lemma append_split4:
  "xs @ ys = [a, b] \<longleftrightarrow> (xs, ys) \<in> {([], [a, b]), ([a], [b]), ([a, b], [])}"
  "xs @ ys = [a, b, c, d] \<longleftrightarrow>
     (xs, ys) \<in> {([], [a, b, c, d]), ([a], [b, c, d]), ([a, b], [c, d]), ([a, b, c], [d]), ([a, b, c, d], [])}"
  by (auto simp: append_eq_Cons_conv)

lemma contribution_inflight:
  assumes "pr_made pr @ pr_left pr = visit_calls pm prometheusTracker (pr_visit pr)"
  shows "contribution InflightRequests [s] pr = (if in_service s pr then 1 else 0)"
  using assms
  by (auto simp: visit_calls_prometheus contribution_def in_service_def append_split4 split: option.splits if_splits)

lemma contribution_requests:
  assumes "pr_made pr @ pr_left pr = visit_calls pm prometheusTracker (pr_visit pr)"
  shows "contribution HttpRequests ls pr = (if counted ls pr then 1 else 0)"
    and "contribution HttpDuration ls pr \<in> {0 .. contribution HttpRequests ls pr}"
    and "pr_left pr = [] \<Longrightarrow> contribution HttpDuration ls pr = contribution HttpRequests ls pr"
  using assms
  by (auto simp: visit_calls_prometheus contribution_def counted_def append_split4 split: option.splits if_splits)

lemma done_contribution:
  assumes "pr_made pr @ pr_left pr = visit_calls pm prometheusTracker (pr_visit pr)" "pr_left pr = []"
  shows "in_service s pr = False"
    and "counted ls pr \<longleftrightarrow> visit_labels (pr_visit pr) = ls \<and> accepted pm (Inc HttpRequests ls)"
  using assms
  by (auto simp: visit_calls_prometheus counted_def in_service_def split: option.splits if_splits)

lemma sum_list_count: "sum_list (map (\<lambda>x. if P x then 1 else 0) xs) = int (length (filter P xs))"
  by (induction xs) simp_all

subsection \<open>The series are exact\<close>

lemma metered_values:
  assumes "vector_laws pm" "reach (metrics_start pm) (metrics_step pm prometheusTracker) st"
  shows "\<forall>pr\<in>set (mt_requests st). pr_made pr @ pr_left pr = visit_calls pm prometheusTracker (pr_visit pr)"
    and "pm_value pm (mt_vectors st) (metric_name m) ls = sum_list (map (contribution m ls) (mt_requests st))"
  using metering.reach_inv [OF assms(2)] assms(1) by (simp_all add: metered_def)

lemma inflight_value:
  assumes "vector_laws pm" "reach (metrics_start pm) (metrics_step pm prometheusTracker) st"
  shows "pm_value pm (mt_vectors st) (metric_name InflightRequests) [s] = int (length (filter (in_service s) (mt_requests st)))"
proof -
  have "map (contribution InflightRequests [s]) (mt_requests st) = map (\<lambda>pr. if in_service s pr then 1 else 0) (mt_requests st)"
    using metered_values(1) [OF assms] by (simp add: contribution_inflight)
  then show ?thesis by (simp only: metered_values(2) [OF assms] sum_list_count)
qed

lemma requests_value:
  assumes "vector_laws pm" "reach (metrics_start pm) (metrics_step pm prometheusTracker) st"
  shows "pm_value pm (mt_vectors st) (metric_name HttpRequests) ls = int (length (filter (counted ls) (mt_requests st)))"
proof -
  have "map (contribution HttpRequests ls) (mt_requests st) = map (\<lambda>pr. if counted ls pr then 1 else 0) (mt_requests st)"
    using metered_values(1) [OF assms] by (simp add: contribution_requests(1))
  then show ?thesis by (simp only: metered_values(2) [OF assms] sum_list_count)
qed

lemma duration_value:
  assumes "vector_laws pm" "reach (metrics_start pm) (metrics_step pm prometheusTracker) st"
  shows "pm_value pm (mt_vectors st) (metric_name HttpDuration) ls \<le> pm_value pm (mt_vectors st) (metric_name HttpRequests) ls"
    and "all_done st \<Longrightarrow>
      pm_value pm (mt_vectors st) (metric_name HttpDuration) ls = pm_value pm (mt_vectors st) (metric_name HttpRequests) ls"
proof -
  note whole = metered_values(1) [OF assms] and sums = metered_values(2) [OF assms]
  show "pm_value pm (mt_vectors st) (metric_name HttpDuration) ls \<le> pm_value pm (mt_vectors st) (metric_name HttpRequests) ls"
    unfolding sums by (rule sum_list_mono) (use whole contribution_requests(2) in auto)
  assume "all_done st"
  then have "map (contribution HttpDuration ls) (mt_requests st) = map (contribution HttpRequests ls) (mt_requests st)"
    using whole by (intro map_cong refl) (metis all_done_def contribution_requests(3))
  then show "pm_value pm (mt_vectors st) (metric_name HttpDuration) ls = pm_value pm (mt_vectors st) (metric_name HttpRequests) ls"
    by (simp only: sums)
qed

lemma done_counts:
  assumes "vector_laws pm" "reach (metrics_start pm) (metrics_step pm prometheusTracker) st" "all_done st"
  shows "filter (in_service s) (mt_requests st) = []"
    and "filter (counted ls) (mt_requests st) =
      filter (\<lambda>pr. visit_labels (pr_visit pr) = ls \<and> accepted pm (Inc HttpRequests ls)) (mt_requests st)"
  using metered_values(1) [OF assms(1,2)] assms(3)
  by (auto simp: all_done_def filter_empty_conv done_contribution intro!: filter_cong)

text \<open>C21: in every interleaving of any number of requests, panicking ones included, the in-flight gauge of a service
  is the number of requests between their count in and their count out, so never negative; the request counter
  of a service, method and status is the number of requests counted under them, and the durations observed never
  outnumber them. When every request has ended the gauges are zero, and the counter and the durations
  are the number of requests with those labels, all of them when the library accepts the labels.\<close>

theorem metrics_exact:
  assumes "vector_laws pm" "reach (metrics_start pm) (metrics_step pm prometheusTracker) st"
  shows "pm_value pm (mt_vectors st) (metric_name InflightRequests) [s] = int (length (filter (in_service s) (mt_requests st)))
    \<and> pm_value pm (mt_vectors st) (metric_name HttpRequests) ls = int (length (filter (counted ls) (mt_requests st)))
    \<and> pm_value pm (mt_vectors st) (metric_name HttpDuration) ls \<le> pm_value pm (mt_vectors st) (metric_name HttpRequests) ls
    \<and> (all_done st \<longrightarrow>
         pm_value pm (mt_vectors st) (metric_name InflightRequests) [s] = 0
       \<and> pm_value pm (mt_vectors st) (metric_name HttpDuration) ls = pm_value pm (mt_vectors st) (metric_name HttpRequests) ls
       \<and> pm_value pm (mt_vectors st) (metric_name HttpRequests) ls =
           int (length (filter (\<lambda>pr. visit_labels (pr_visit pr) = ls \<and> accepted pm (Inc HttpRequests ls)) (mt_requests st))))"
  using inflight_value [OF assms] requests_value [OF assms] duration_value [OF assms] done_counts [OF assms] by simp

subsection \<open>Enabling\<close>

text \<open>Enabling the metrics in a process that has them starts from the values of the registry; a second time panics, since
  the names are taken.\<close>

lemma MustRegister_fresh:
  assumes "register_laws pm" "distinct names" "set names \<inter> pm_registered pm v = {}"
  shows "\<exists>v'. pm_MustRegister pm names v = Returns v' \<and> pm_registered pm v' = pm_registered pm v \<union> set names
    \<and> pm_value pm v' = pm_value pm v"
proof (cases "pm_MustRegister pm names v")
  case (Returns v')
  then show ?thesis using assms(1) by (simp add: register_laws_def)
next
  case (Panics msg)
  then show ?thesis using assms unfolding register_laws_def by blast
qed

lemma enable_once:
  assumes "register_laws pm" "pm_registered pm v = {}" "\<forall>name ls. pm_value pm v name ls = 0"
  obtains v' where "Enable pm (nullTracker, v) = Returns (prometheusTracker, v')"
    "metrics_start pm \<lparr>mt_vectors = v', mt_requests = []\<rparr>" "\<exists>msg. Enable pm (prometheusTracker, v') = Panics msg"
proof -
  let ?names = "map metric_name [HttpRequests, HttpDuration, InflightRequests]"
  have fresh: "distinct ?names" by (simp add: distinct_map inj_on_def del: metric_name.simps)
  then obtain v' where v': "pm_MustRegister pm ?names v = Returns v'"
    and after: "pm_registered pm v' = set ?names" "pm_value pm v' = pm_value pm v"
    using MustRegister_fresh [OF assms(1) fresh, of v] assms(2) by auto
  have "set ?names \<inter> pm_registered pm v' \<noteq> {}" using after(1) by simp
  then obtain msg where "pm_MustRegister pm ?names v' = Panics msg"
    using assms(1) unfolding register_laws_def by blast
  then show thesis
    using that [of v'] v' after assms(3) by (simp add: Enable_def NewPrometheusTracker_def metrics_start_def)
qed

subsection \<open>Witnesses\<close>

text \<open>Vectors as a function from series to values, with the names registered.\<close>

type_synonym table = "(string \<Rightarrow> string list \<Rightarrow> int) \<times> string list"

definition bump :: "int \<Rightarrow> string \<Rightarrow> string list \<Rightarrow> table \<Rightarrow> table" where
  "bump k name ls t = (\<lambda>name' ls'. fst t name' ls' + (if name' = name \<and> ls' = ls then k else 0), snd t)"

definition ex_vectors :: "table Prometheus" where
  "ex_vectors = \<lparr>
     pm_MustRegister = (\<lambda>names t. if distinct names \<and> (\<forall>n\<in>set names. n \<notin> set (snd t)) then Returns (fst t, names @ snd t)
       else Panics ''duplicate metrics collector registration attempted''),
     pm_accepts = (\<lambda>labels given. length labels = length given),
     pm_Inc = bump 1, pm_Dec = bump (- 1), pm_Observe = (\<lambda>name ls d. bump 1 name ls), pm_value = fst, pm_registered = (\<lambda>t. set (snd t))\<rparr>"

lemma ex_vectors_laws: "vector_laws ex_vectors" "register_laws ex_vectors"
  by (auto simp: vector_laws_def register_laws_def moved_def ex_vectors_def bump_def)

definition ex_visit :: Visit where
  "ex_visit = \<lparr>vi_routed = Some ''web'', vi_service = ''web'', vi_method = ''GET'', vi_status = 200, vi_elapsed = 5, vi_ending = Panicked\<rparr>"

definition ex_metered :: "table Metered" where
  "ex_metered = \<lparr>mt_vectors = perform ex_vectors (Inc InflightRequests [''web'']) (\<lambda>_ _. 0, []),
     mt_requests = [\<lparr>pr_visit = ex_visit, pr_made = [Inc InflightRequests [''web'']],
       pr_left = [Dec InflightRequests [''web''], Inc HttpRequests [''web'', ''GET'', ''200''],
         Observe HttpDuration [''web'', ''GET'', ''200''] 5]\<rparr>]\<rparr>"

lemma ex_visit_calls: "visit_calls ex_vectors prometheusTracker ex_visit =
  [Inc InflightRequests [''web''], Dec InflightRequests [''web''], Inc HttpRequests [''web'', ''GET'', ''200''],
   Observe HttpDuration [''web'', ''GET'', ''200''] 5]"
  by code_simp

lemma ex_metered_reached: "reach (metrics_start ex_vectors) (metrics_step ex_vectors prometheusTracker) ex_metered"
proof -
  let ?reached = "reach (metrics_start ex_vectors) (metrics_step ex_vectors prometheusTracker)"
  let ?s0 = "\<lparr>mt_vectors = (\<lambda>_ _. 0, []), mt_requests = []\<rparr> :: table Metered"
  let ?s1 = "?s0\<lparr>mt_requests := [\<lparr>pr_visit = ex_visit, pr_made = [], pr_left = visit_calls ex_vectors prometheusTracker ex_visit\<rparr>]\<rparr>"
  have "?reached ?s0"
    by (rule reach_start) (simp add: metrics_start_def ex_vectors_def)
  moreover have "metrics_step ex_vectors prometheusTracker ?s0 ?s1"
    using arrive [of ex_vectors prometheusTracker ?s0 ex_visit] by simp
  ultimately have "?reached ?s1" by (rule reach_step)
  moreover have "metrics_step ex_vectors prometheusTracker ?s1 ex_metered"
    using call [where i = 0 and st = ?s1 and vi = ex_visit and made = "[]" and c = "Inc InflightRequests [''web'']"
        and pm = ex_vectors and tr = prometheusTracker] by (simp add: ex_visit_calls ex_metered_def)
  ultimately show ?thesis by (rule reach_step)
qed

theorem metrics_exact_witness:
  "vector_laws ex_vectors \<and> reach (metrics_start ex_vectors) (metrics_step ex_vectors prometheusTracker) ex_metered
    \<and> pm_value ex_vectors (mt_vectors ex_metered) (metric_name InflightRequests) [''web''] = 1"
  using ex_vectors_laws ex_metered_reached metrics_exact [OF ex_vectors_laws(1) ex_metered_reached, of "''web''" "[]"]
  by (simp add: ex_metered_def in_service_def)

end
