(* ===== verification/StateFiles.thy ===== *)
theory StateFiles
  imports Routers
begin

section \<open>The state file\<close>

text \<open>
  The file that \<open>saveStateSnapshot\<close> of \<open>internal/server/router.go\<close> writes after every command, and what a process
  that starts from it restores: the file describes the services at every moment, not only after a save on
  shutdown, so a crash loses no routing.
\<close>

subsection \<open>The file after a command\<close>

text \<open>The file holds exactly what saving the services now would write.\<close>

definition file_current :: "Router \<Rightarrow> bool" where
  "file_current r \<longleftrightarrow>
     (case r_saved r of
        None \<Rightarrow> sm_services (r_services r) = []
      | Some mss \<Rightarrow> marshal_all (sm_services (r_services r)) = Returns mss)"

lemma bind_outcome_Returns:
  "bind_outcome x f = Returns y \<longleftrightarrow> (\<exists>z. x = Returns z \<and> f z = Returns y)"
  by (cases x) simp_all

lemma save_current:
  assumes "env_state_writable env" "saveStateSnapshot env r = Returns r'"
  shows "file_current r'"
  using assms by (auto simp: saveStateSnapshot_def file_current_def bind_outcome_Returns)

lemma retire_current [simp]: "file_current (retire x r) = file_current r"
  by (simp add: retire_def file_current_def split: option.splits)

lemma install_current:
  assumes "env_state_writable env" "installLoadBalancer env name slot lb options getService r = Returns (res, r')"
  shows "file_current r'"
  using assms save_current [OF assms(1)]
  by (auto simp: installLoadBalancer_def bind_outcome_Returns Let_def split: prod.splits)

lemma on_service_current:
  assumes "env_state_writable env" "on_service env name f r = Returns (err, r')"
  shows "file_current r'"
  using assms save_current [OF assms(1)] by (auto simp: on_service_def bind_outcome_Returns)

lemma finish_current: "file_current (snd x) \<Longrightarrow> finish_deploy x = (err, r') \<Longrightarrow> file_current r'"
  by (auto simp: finish_deploy_def split: sum.splits prod.splits)

text \<open>Every command, failed ones included, leaves the router as it was or a file that is current.\<close>

lemma exec_current:
  assumes "env_state_writable env" "exec env cmd r = Returns (err, r')"
  shows "r' = r \<or> file_current r'"
proof (cases cmd)
  case (CmdDeploy reports name ws rs opts topts timeout)
  with assms show ?thesis
    by (auto simp: DeployService_def bind_outcome_Returns Let_def split: sum.splits
        dest!: install_current [OF assms(1)] intro: finish_current [rotated])
next
  case (CmdRolloutDeploy reports name ws rs timeout)
  with assms show ?thesis
    by (auto simp: SetRolloutTargets_def bind_outcome_Returns split: sum.splits option.splits
        dest!: install_current [OF assms(1)] intro: finish_current [rotated])
qed (use assms in \<open>auto simp: Router_SetRolloutSplit_def Router_StopRollout_def PauseService_def StopService_def ResumeService_def
    RemoveService_def dest: on_service_current [OF assms(1)]\<close>)

subsection \<open>The file while requests are served\<close>

lemma marshal_kinds:
  assumes "named_kinds (lb_all lb') = named_kinds (lb_all lb)"
  shows "TargetList_Names (WriteTargets lb') = TargetList_Names (WriteTargets lb)
    \<and> TargetList_Names (ReadTargets lb') = TargetList_Names (ReadTargets lb)"
  using assms by (simp_all add: WriteTargets_def ReadTargets_def names_matching)

lemma startLoadBalancerRequest_marshal:
  assumes "startLoadBalancerRequest now rid req (s, st) = Returns (a, s', st')"
  shows "Service_MarshalJSON s' = Service_MarshalJSON s"
  using assms
  by (auto simp: startLoadBalancerRequest_def Service_MarshalJSON_def split: TargetSlot.splits option.splits prod.splits
      dest!: StartRequest_named_kinds marshal_kinds)

lemma serviceRequest_marshal:
  assumes "serviceRequestWithTarget now rid req (s, st) = Returns (a, s', st')"
  shows "Service_MarshalJSON s' = Service_MarshalJSON s"
  using assms
  by (auto simp: serviceRequestWithTarget_def bind_outcome_Returns split: PauseVerdict.splits if_splits option.splits
      dest!: startLoadBalancerRequest_marshal)

text \<open>What a service is saved as, but for the TLS settings that it may take over from another service.\<close>

definition content :: "service_table \<Rightarrow> (string \<times> marshalledService outcome) list" where
  "content t = map (\<lambda>(n, s). (n, Service_MarshalJSON (with_tls defaultServiceOptions s))) t"

lemma marshal_with_tls:
  "Service_MarshalJSON (with_tls so s) =
     bind_outcome (Service_MarshalJSON s) (\<lambda>ms. Returns (ms\<lparr>ms_Options :=
       (ms_Options ms)\<lparr>so_TLSEnabled := so_TLSEnabled so, so_TLSRedirect := so_TLSRedirect so\<rparr>\<rparr>))"
  by (simp add: with_tls_def Service_MarshalJSON_def split: option.split)

lemma with_tls_synced: "with_tls so (sync_service rsm t s) = with_tls so s"
  by (simp add: sync_service_def with_tls_def split: option.split)

lemma content_put:
  assumes "map_of t n = Some s" "Service_MarshalJSON s' = Service_MarshalJSON s"
  shows "content (map_put n s' t) = content t"
  using assms by (induction t) (auto simp: content_def marshal_with_tls split: if_splits)

lemma ServeHTTP_content:
  assumes ok: "rt_ok r" and r: "Router_ServeHTTP env now rid req r = Returns (a, r')"
  shows "r_saved r' = r_saved r \<and> content (sm_services (r_services r')) = content (sm_services (r_services r))"
proof (cases "ServiceForRequest (r_services r) req")
  case None
  with r show ?thesis by (simp add: Router_ServeHTTP_def)
next
  case (Some np)
  obtain n p where np: "np = (n, p)" by fastforce
  show ?thesis
  proof (cases "ServiceMap_Get (r_services r) n")
    case None
    with Some np r show ?thesis by (simp add: Router_ServeHTTP_def)
  next
    case s: (Some s)
    note d = rt_okD [OF ok rt_ok_Get [OF ok s]]
    from serviceRequest_kept [OF d(1)] obtain a' s' st' where
      k: "serviceRequestWithTarget now rid (routed_request s p req) (s, r_requests r) = Returns (a', s', st')"
        "sv_name s' = sv_name s" by metis
    from s have "map_of (sm_services (r_services r)) n = Some s" by (simp add: ServiceMap_Get_def)
    note content_put [OF this serviceRequest_marshal [OF k(1)]]
    then have "content (sm_services (r_services (put_service s' (r\<lparr>r_requests := st'\<rparr>)))) = content (sm_services (r_services r))"
      using k(2) d(3) by (simp add: put_service_def)
    with Some np s k(1) r show ?thesis by (auto simp: Router_ServeHTTP_def Let_def put_service_def split: if_splits)
  qed
qed

subsection \<open>Processes that start from the file\<close>

text \<open>A file that describes services: it was written for a table with the same content that can be read
  back.\<close>

definition table_ok :: "service_table \<Rightarrow> bool" where
  "table_ok t \<longleftrightarrow> wf_map t \<and> (\<forall>(n, s) \<in> set t. sv_name s = n) \<and> conflict_free t \<and> (\<forall>(n, s) \<in> set t. saveable s)"

definition describes :: "marshalledService list option \<Rightarrow> service_table \<Rightarrow> bool" where
  "describes saved t \<longleftrightarrow>
     (case saved of
        None \<Rightarrow> t = []
      | Some mss \<Rightarrow> \<exists>t'. table_ok t' \<and> marshal_all t' = Returns mss \<and> content t' = content t)"

text \<open>The certificates and pages that the file names still load; no service was saved while paused.\<close>

definition loadable :: "Environment \<Rightarrow> marshalledService list option \<Rightarrow> bool" where
  "loadable env saved \<longleftrightarrow> (case saved of None \<Rightarrow> True | Some mss \<Rightarrow> \<forall>ms \<in> set mss. options_load env (ms_Options ms))"

definition none_paused :: "marshalledService list option \<Rightarrow> bool" where
  "none_paused saved \<longleftrightarrow>
     (case saved of None \<Rightarrow> True
      | Some mss \<Rightarrow> \<forall>ms \<in> set mss. case ms_PauseController ms of None \<Rightarrow> True | Some p \<Rightarrow> sp_State p \<noteq> PauseStatePaused)"

inductive saved_step :: "Router \<Rightarrow> Router \<Rightarrow> bool" where
  saved_command: "env_state_writable env \<Longrightarrow> admissible env cmd r \<Longrightarrow> exec env cmd r = Returns (err, r') \<Longrightarrow> saved_step r r'"
| saved_request: "Router_ServeHTTP env now rid req r = Returns (a, r') \<Longrightarrow> saved_step r r'"
| saved_crash: "loadable env (r_saved r) \<Longrightarrow> none_paused (r_saved r) \<Longrightarrow>
    RestoreLastSavedState env (NewRouter (r_saved r)) = Returns (err, r') \<Longrightarrow> saved_step r r'"

definition saved_start :: "Router \<Rightarrow> bool" where
  "saved_start r \<longleftrightarrow> r = NewRouter None"

definition saved_ok :: "Router \<Rightarrow> bool" where
  "saved_ok r \<longleftrightarrow> rt_ok r \<and> describes (r_saved r) (sm_services (r_services r))"

lemma rt_table_ok: "rt_ok r \<Longrightarrow> table_ok (sm_services (r_services r))"
  using rt_okD(1) by (fastforce simp: table_ok_def rt_ok_def sm_ok_def)

lemma current_describes: "rt_ok r \<Longrightarrow> file_current r \<Longrightarrow> describes (r_saved r) (sm_services (r_services r))"
  using rt_table_ok by (auto simp: file_current_def describes_def split: option.splits)

lemma marshal_all_entries:
  "marshal_all t = Returns mss \<Longrightarrow> ms \<in> set mss \<longleftrightarrow> (\<exists>(n, s) \<in> set t. Service_MarshalJSON s = Returns ms)"
  by (induction t arbitrary: mss) (auto simp: bind_outcome_Returns, blast+)

lemma marshal_fields:
  assumes "Service_MarshalJSON s = Returns ms"
  shows "ms_Name ms = sv_name s" "ms_Options ms = sv_options s" "ms_PauseController ms = map_option save_pause (sv_pauseController s)"
  using assms by (auto simp: Service_MarshalJSON_def split: option.splits)

lemma content_keys:
  assumes "wf_map t"
  shows "content t = map (\<lambda>n. (n, Service_MarshalJSON (with_tls defaultServiceOptions (the (map_of t n))))) (keys t)"
  using assms by (auto simp: content_def keys_def wf_map_def)

lemma content_update:
  assumes wf: "wf_map (sm_services m)" and nt: "normal_table (sm_services m)"
  shows "content (sm_services (updateRequestServiceMap m)) = content (sm_services m)"
proof -
  note u = update_services [OF wf nt]
  have wf': "wf_map (sm_services (updateRequestServiceMap m))" using wf u(1) by (simp add: wf_map_def)
  have "\<exists>s. map_of (sm_services m) n = Some s" if "n \<in> set (keys (sm_services m))" for n
    using that by (auto simp: keys_def dest: weak_map_of_SomeI)
  then show ?thesis unfolding content_keys [OF wf] content_keys [OF wf'] u(1)
    by (intro map_cong refl) (fastforce simp: u(2) with_tls_synced)
qed

lemma map_put_new: "n \<notin> set (keys t) \<Longrightarrow> map_put n s t = t @ [(n, s)]"
  by (induction t) auto

lemma content_Set:
  assumes "sm_ok m" "normal_options (sv_options s)" "sv_name s \<notin> set (keys (sm_services m))"
  shows "content (sm_services (ServiceMap_Set s m)) = content (sm_services m) @ content (named [s])"
proof -
  let ?t = "map_put (sv_name s) s (sm_services m)"
  from assms(1) have wf: "wf_map (sm_services m)" by (simp add: sm_ok_def)
  have "normal_table ?t" unfolding normal_table_def
    by (rule table_put_all [OF wf]) (use assms(1,2) in \<open>simp_all add: sm_ok_def normal_table_def\<close>)
  with wf have "content (sm_services (updateRequestServiceMap (m\<lparr>sm_services := ?t\<rparr>))) = content ?t"
    by (subst content_update) (simp_all add: wf_map_put)
  then show ?thesis using assms(3) by (simp add: ServiceMap_Set_def map_put_new content_def named_def)
qed

lemma content_set_all:
  assumes "distinct (map sv_name ss)" "conflict_free (named ss)" "\<forall>s \<in> set ss. normal_options (sv_options s)"
  shows "content (sm_services (foldl (\<lambda>m s. ServiceMap_Set s m) NewServiceMap ss)) = content (named ss)"
  using assms
proof (induction ss rule: rev_induct)
  case Nil
  then show ?case by (simp add: NewServiceMap_def named_def content_def)
next
  case (snoc s ss)
  let ?m = "foldl (\<lambda>m s. ServiceMap_Set s m) NewServiceMap ss"
  note cf = conflict_free_prefix [OF snoc.prems(2)]
  from snoc.prems cf set_all_services [of ss] have ok: "sm_ok ?m" by simp
  have ih: "content (sm_services ?m) = content (named ss)" using snoc cf by simp
  have "keys (sm_services ?m) = map sv_name ss"
    using arg_cong [OF ih, of "map fst"] by (simp add: content_def named_def keys_def comp_def split_def)
  with snoc.prems(1,3) content_Set [OF ok, of s] ih show ?case by (simp add: content_def named_def)
qed

subsection \<open>Restoring what was saved\<close>

text \<open>Service and file entry correspond by name, hosts and prefixes.\<close>

lemma saveable_marshal: "saveable s \<Longrightarrow> \<exists>ms. Service_MarshalJSON s = Returns ms \<and> ms_Name ms = sv_name s"
  by (auto simp: saveable_def Service_MarshalJSON_def split: option.splits)

definition saved_name :: "marshalledService outcome \<Rightarrow> string" where
  "saved_name m = (case m of Returns ms \<Rightarrow> ms_Name ms | Panics _ \<Rightarrow> [])"

definition plain :: "marshalledService outcome \<Rightarrow> marshalledService outcome" where
  "plain m = bind_outcome m (\<lambda>ms. Returns (ms\<lparr>ms_Options := (ms_Options ms)\<lparr>so_TLSEnabled := so_TLSEnabled defaultServiceOptions,
     so_TLSRedirect := so_TLSRedirect defaultServiceOptions\<rparr>\<rparr>))"

lemma content_marshalled:
  assumes "\<forall>(n, s) \<in> set t. sv_name s = n \<and> saveable s"
  shows "content t = map (\<lambda>m. (saved_name m, plain m)) (map (\<lambda>(n, s). Service_MarshalJSON s) t)"
  using assms saveable_marshal
  by (fastforce simp: content_def marshal_with_tls plain_def saved_name_def comp_def split_def)

definition claims :: "marshalledService outcome \<Rightarrow> string list \<times> string list" where
  "claims m = (case m of Returns ms \<Rightarrow> (so_Hosts (ms_Options ms), so_PathPrefixes (ms_Options ms)) | Panics _ \<Rightarrow> ([], []))"

lemma saveable_claims:
  "saveable s \<Longrightarrow> claims (Service_MarshalJSON (with_tls so s)) = (so_Hosts (sv_options s), so_PathPrefixes (sv_options s))"
  by (auto simp: saveable_def Service_MarshalJSON_def with_tls_def claims_def split: option.splits)

lemma bound_content:
  assumes "\<forall>(n, s) \<in> set t. saveable s"
  shows "bound t host p n \<longleftrightarrow> (\<exists>m. (n, m) \<in> set (content t) \<and> host \<in> set (fst (claims m)) \<and> p \<in> set (snd (claims m)))"
proof
  assume "bound t host p n"
  then obtain s where s: "(n, s) \<in> set t" "host \<in> set (so_Hosts (sv_options s))" "p \<in> set (so_PathPrefixes (sv_options s))"
    by (auto simp: bound_def)
  with assms have "saveable s" by blast
  with s show "\<exists>m. (n, m) \<in> set (content t) \<and> host \<in> set (fst (claims m)) \<and> p \<in> set (snd (claims m))"
    by (intro exI [of _ "Service_MarshalJSON (with_tls defaultServiceOptions s)"]) (auto simp: saveable_claims content_def)
next
  assume "\<exists>m. (n, m) \<in> set (content t) \<and> host \<in> set (fst (claims m)) \<and> p \<in> set (snd (claims m))"
  then obtain s where "(n, s) \<in> set t" "host \<in> set (fst (claims (Service_MarshalJSON (with_tls defaultServiceOptions s))))"
      "p \<in> set (snd (claims (Service_MarshalJSON (with_tls defaultServiceOptions s))))"
    by (auto simp: content_def)
  moreover with assms have "saveable s" by blast
  ultimately show "bound t host p n" by (auto simp: saveable_claims bound_def)
qed

lemma table_content_bound:
  assumes "table_ok t" "table_ok t'" "content t = content t'"
  shows "bound t = bound t'"
  using assms by (simp add: fun_eq_iff bound_content table_ok_def)

lemma file_restores:
  assumes t: "table_ok t" "marshal_all t = Returns mss" and l: "loadable env (Some mss)"
  obtains m where "RestoreLastSavedState env (NewRouter (Some mss)) = Returns (None, (NewRouter (Some mss))\<lparr>r_services := m\<rparr>)"
    "sm_ok m" "content (sm_services m) = content t"
    "none_paused (Some mss) \<Longrightarrow> rt_ok ((NewRouter (Some mss))\<lparr>r_services := m\<rparr>)" "bound (sm_services m) = bound t"
proof -
  from t have entry: "\<exists>ms \<in> set mss. ms_Options ms = sv_options s \<and> ms_PauseController ms = Some (save_pause (pause_of s))"
    if "(n, s) \<in> set t" for n s
    using that marshal_all_entries [OF t(2)] saveable_marshal [of s] marshal_fields [of s] saveable_pause [of s]
    by (fastforce simp: table_ok_def)
  have all: "\<forall>(n, s) \<in> set t. saveable s \<and> options_load env (sv_options s)"
    using t(1) l entry by (fastforce simp: table_ok_def loadable_def)
  have "wf_map t" "\<forall>(n, s) \<in> set t. sv_name s = n" "conflict_free t" using t(1) by (simp_all add: table_ok_def)
  from marshalled_restores [OF this all t(2)] obtain ss where r: "RestoreLastSavedState env (NewRouter (Some mss)) =
       Returns (None, (NewRouter (Some mss))\<lparr>r_services := foldl (\<lambda>m s. ServiceMap_Set s m) NewServiceMap ss\<rparr>)"
    and ss: "distinct (map sv_name ss)" "conflict_free (named ss)" "bound (named ss) = bound t"
      "\<forall>s \<in> set ss. saveable s \<and> (\<exists>(n, s') \<in> set t. pc_State (pause_of s) = pc_State (pause_of s'))"
    and ms: "map Service_MarshalJSON ss = map (\<lambda>(n, s). Service_MarshalJSON s) t" .
  let ?m = "foldl (\<lambda>m s. ServiceMap_Set s m) NewServiceMap ss"
  have no: "\<forall>s \<in> set ss. normal_options (sv_options s)" using ss(4) by (auto simp: saveable_def)
  have "content (named ss) = content t"
    using ss(4) t(1) ms by (subst (1 2) content_marshalled) (auto simp: named_def table_ok_def comp_def)
  with content_set_all [OF ss(1,2) no] have c: "content (sm_services ?m) = content t" by simp
  have paused: "rt_ok ((NewRouter (Some mss))\<lparr>r_services := ?m\<rparr>)" if "none_paused (Some mss)"
  proof (rule set_all_rt_ok [OF new_rt_ok _ ss(1,2)])
    show "r_services (NewRouter (Some mss)) = NewServiceMap" by (simp add: NewRouter_def)
    have "pc_State (pause_of s) \<noteq> PauseStatePaused" if "(n, s) \<in> set t" for n s
      using entry [OF that] \<open>none_paused _\<close> by (auto simp: none_paused_def save_pause_def split: option.splits)
    with ss(4) show "\<forall>s \<in> set ss. saveable s \<and> pc_State (pause_of s) \<noteq> PauseStatePaused" by fastforce
  qed
  show thesis
    using that [OF r _ c paused] set_all_services [OF ss(1,2) no] ss(3) by simp
qed

subsection \<open>The file describes the services\<close>

lemma describes_same: "content t' = content t \<Longrightarrow> describes saved t' = describes saved t"
  by (cases saved; cases t; cases t') (auto simp: describes_def content_def)

lemma saved_step_ok: "saved_step r r' \<Longrightarrow> saved_ok r \<Longrightarrow> saved_ok r'"
proof (induction rule: saved_step.induct)
  case (saved_command env cmd r err r')
  then have "rt_ok r'" using exec_ok [of r env cmd] by (auto simp: saved_ok_def)
  then show ?case
    using exec_current [OF saved_command.hyps(1,3)] saved_command.prems current_describes [of r'] by (auto simp: saved_ok_def)
next
  case (saved_request env now rid req r a r')
  then have "rt_ok r" by (simp add: saved_ok_def)
  from ServeHTTP_content [OF this saved_request.hyps]
  have "describes (r_saved r') (sm_services (r_services r')) = describes (r_saved r) (sm_services (r_services r))"
    using describes_same by metis
  with ServeHTTP_ok [OF \<open>rt_ok r\<close>, of env now rid req] saved_request show ?case by (auto simp: saved_ok_def)
next
  case (saved_crash env r err r')
  show ?case
  proof (cases "r_saved r")
    case None
    with saved_crash.hyps(3) have "r' = NewRouter None" by (simp add: RestoreLastSavedState_def NewRouter_def)
    then show ?thesis by (simp add: saved_ok_def new_rt_ok) (simp add: describes_def NewRouter_def NewServiceMap_def)
  next
    case (Some mss)
    with saved_crash.prems obtain t where t: "table_ok t" "marshal_all t = Returns mss"
      by (auto simp: saved_ok_def describes_def)
    from saved_crash.hyps(1) Some have "loadable env (Some mss)" by simp
    obtain m where m: "RestoreLastSavedState env (NewRouter (Some mss)) = Returns (None, (NewRouter (Some mss))\<lparr>r_services := m\<rparr>)"
      "rt_ok ((NewRouter (Some mss))\<lparr>r_services := m\<rparr>)" "content (sm_services m) = content t"
      by (rule file_restores [OF t \<open>loadable env (Some mss)\<close>]) (use saved_crash.hyps(2) Some in simp)
    with saved_crash.hyps(3) Some have "r' = (NewRouter (Some mss))\<lparr>r_services := m\<rparr>" by simp
    moreover have "describes (Some mss) (sm_services m)" using t m(3) unfolding describes_def by auto
    ultimately show ?thesis using m(2) by (simp add: saved_ok_def NewRouter_def)
  qed
qed

lemma saved_start_ok: "saved_start r \<Longrightarrow> saved_ok r"
  by (simp add: saved_start_def saved_ok_def new_rt_ok) (simp add: describes_def NewRouter_def NewServiceMap_def)

interpretation saving: kept_invariant saved_start saved_step saved_ok
  by unfold_locales (auto intro: saved_start_ok saved_step_ok)

lemma file_as_it_is:
  assumes "reach saved_start saved_step r" and "loadable env (r_saved r)"
  shows "\<exists>r2. RestoreLastSavedState env (NewRouter (r_saved r)) = Returns (None, r2)
    \<and> sm_ok (r_services r2)
    \<and> content (sm_services (r_services r2)) = content (sm_services (r_services r))
    \<and> serviceFor (sm_requests (r_services r2)) host path = serviceFor (sm_requests (r_services r)) host path"
proof -
  from assms(1) have "saved_ok r" by (rule saving.reach_inv)
  then have ok: "rt_ok r" and d: "describes (r_saved r) (sm_services (r_services r))" by (simp_all add: saved_ok_def)
  then have sm: "sm_ok (r_services r)" by (simp add: rt_ok_def)
  show ?thesis
  proof (cases "r_saved r")
    case None
    with d have e: "sm_services (r_services r) = []" by (simp add: describes_def)
    then have "serviceFor (sm_requests NewServiceMap) host path = serviceFor (sm_requests (r_services r)) host path"
      by (intro same_routes [OF NewServiceMap_ok sm]) (simp add: NewServiceMap_def)
    with None e show ?thesis
      by (simp add: RestoreLastSavedState_def) (simp add: NewRouter_def NewServiceMap_ok, simp add: NewServiceMap_def)
  next
    case (Some mss)
    with d obtain t where t: "table_ok t" "marshal_all t = Returns mss" "content t = content (sm_services (r_services r))"
      by (auto simp: describes_def)
    from assms(2) Some have "loadable env (Some mss)" by simp
    from file_restores [OF t(1,2) this] obtain m where m:
      "RestoreLastSavedState env (NewRouter (Some mss)) = Returns (None, (NewRouter (Some mss))\<lparr>r_services := m\<rparr>)"
      "sm_ok m" "content (sm_services m) = content t" "bound (sm_services m) = bound t" by metis
    from table_content_bound [OF t(1) rt_table_ok [OF ok] t(3)] m(4)
    have "serviceFor (sm_requests m) host path = serviceFor (sm_requests (r_services r)) host path"
      by (intro same_routes [OF m(2) sm]) simp
    with m Some t(3) show ?thesis by simp
  qed
qed


subsection \<open>What a state file holds\<close>

definition well_formed_service :: "marshalledService \<Rightarrow> bool" where
  "well_formed_service ms \<longleftrightarrow> normal_options (ms_Options ms)
     \<and> ms_ActiveTargets ms @ ms_ActiveReaders ms \<noteq> []
     \<and> list_all hostRegex (ms_ActiveTargets ms @ ms_ActiveReaders ms @ ms_RolloutTargets ms @ ms_RolloutReaders ms)
     \<and> (case ms_PauseController ms of None \<Rightarrow> False | Some p \<Rightarrow> sp_State p = PauseStateStopped \<or> sp_StopMessage p = [])
     \<and> upgradeLegacy ms = ms"

definition disjoint_claims :: "marshalledService \<Rightarrow> marshalledService \<Rightarrow> bool" where
  "disjoint_claims ms ms' \<longleftrightarrow>
     (\<forall>h \<in> set (so_Hosts (ms_Options ms)). \<forall>p \<in> set (so_PathPrefixes (ms_Options ms)).
        h \<notin> set (so_Hosts (ms_Options ms')) \<or> p \<notin> set (so_PathPrefixes (ms_Options ms')))"

definition well_formed_state :: "marshalledService list \<Rightarrow> bool" where
  "well_formed_state mss \<longleftrightarrow> distinct (map ms_Name mss) \<and> (\<forall>ms \<in> set mss. well_formed_service ms)
     \<and> (\<forall>ms \<in> set mss. \<forall>ms' \<in> set mss. ms_Name ms = ms_Name ms' \<or> disjoint_claims ms ms')"

lemma saveable_well_formed:
  assumes "saveable s" "Service_MarshalJSON s = Returns ms"
  shows "well_formed_service ms"
proof -
  from assms(1) obtain lb where a: "sv_active s = Some lb" "valid_balancer lb" by (auto simp: saveable_def split: option.splits)
  with assms names_empty_iff [of lb] have "ms_ActiveTargets ms @ ms_ActiveReaders ms \<noteq> []"
    by (auto simp: Service_MarshalJSON_def valid_balancer_def)
  moreover have "list_all hostRegex (ms_RolloutTargets ms @ ms_RolloutReaders ms)"
    using assms a by (auto simp: Service_MarshalJSON_def saveable_def dest!: valid_names split: option.splits)
  moreover have "upgradeLegacy ms = ms" using assms a
    by (intro upgradeLegacy_current) (auto simp: Service_MarshalJSON_def saveable_def)
  moreover have "list_all hostRegex (ms_ActiveTargets ms @ ms_ActiveReaders ms)"
    using valid_names [OF a(2)] assms(2) a(1) by (auto simp: Service_MarshalJSON_def)
  ultimately show ?thesis using assms a saveable_pause [OF assms(1)]
    by (auto simp: well_formed_service_def Service_MarshalJSON_def saveable_def save_pause_def)
qed

lemma marshal_all_names: "marshal_all t = Returns mss \<Longrightarrow> map ms_Name mss = map (\<lambda>(n, s). sv_name s) t"
  by (induction t arbitrary: mss) (auto simp: bind_outcome_Returns marshal_fields)

lemma table_well_formed:
  assumes "table_ok t" "marshal_all t = Returns mss"
  shows "well_formed_state mss"
proof -
  have "map ms_Name mss = keys t"
    using marshal_all_names [OF assms(2)] assms(1) by (auto simp: table_ok_def keys_def)
  then have "distinct (map ms_Name mss)" using assms(1) by (simp add: table_ok_def wf_map_def)
  moreover have e: "\<exists>s. (ms_Name ms, s) \<in> set t \<and> saveable s \<and> Service_MarshalJSON s = Returns ms" if "ms \<in> set mss" for ms
    using that marshal_all_entries [OF assms(2)] assms(1) marshal_fields(1) by (fastforce simp: table_ok_def)
  then have "\<forall>ms \<in> set mss. well_formed_service ms" using saveable_well_formed by blast
  moreover have "ms_Name ms = ms_Name ms' \<or> disjoint_claims ms ms'" if ms: "ms \<in> set mss" "ms' \<in> set mss" for ms ms'
  proof -
    from e [OF ms(1)] e [OF ms(2)] obtain s s' where s: "(ms_Name ms, s) \<in> set t" "(ms_Name ms', s') \<in> set t"
      "sv_options s = ms_Options ms" "sv_options s' = ms_Options ms'" using marshal_fields(2) by metis
    then have "bound t h p (ms_Name ms) \<and> bound t h p (ms_Name ms')"
      if "h \<in> set (so_Hosts (ms_Options ms))" "h \<in> set (so_Hosts (ms_Options ms'))"
        "p \<in> set (so_PathPrefixes (ms_Options ms))" "p \<in> set (so_PathPrefixes (ms_Options ms'))" for h p
      using that unfolding bound_def by metis
    with assms(1) show ?thesis unfolding table_ok_def conflict_free_def disjoint_claims_def by blast
  qed
  ultimately show ?thesis by (simp add: well_formed_state_def)
qed


subsection \<open>A rejected redeployment and the file\<close>

lemma initialize_fails: "\<not> options_load env (sv_options s) \<Longrightarrow> \<exists>err. initialize env s = (Some err, s)"
  by (auto simp: options_load_def initialize_def split: sum.splits)

lemma unmarshal_fails:
  assumes "saveable s" "Service_MarshalJSON s = Returns ms" "\<not> options_load env (sv_options s)"
  shows "\<exists>err h'. Service_UnmarshalJSON env ms h = Returns (Inl err, h')"
proof -
  from assms(1) have "pc_State (pause_of s) \<noteq> PauseStateStopped \<longrightarrow> pc_StopMessage (pause_of s) = []"
    using saveable_pause [OF assms(1)] by (simp add: saveable_def)
  from restorePause_saved [OF this, of h] obtain p' where
    p': "restorePause (Some (save_pause (pause_of s))) h = Returns (Some p', h)" by blast
  have u: "upgradeLegacy ms = ms" using saveable_well_formed [OF assms(1,2)] by (simp add: well_formed_service_def)
  have i: "\<exists>err. (case initialize env s' of (Some err, _) \<Rightarrow> Inl err | (None, s) \<Rightarrow> Inr s) = Inl err" if "sv_options s' = ms_Options ms" for s'
    using initialize_fails [of env s'] assms(3) that marshal_fields(2) [OF assms(2)] by auto
  have "restorePause (ms_PauseController ms) h = Returns (Some p', h)"
    using p' marshal_fields(3) [OF assms(2)] saveable_pause [OF assms(1)] by simp
  then show ?thesis using u by (auto simp: Service_UnmarshalJSON_def Let_def split: sum.split intro!: i)
qed

lemma unmarshal_all_fails:
  assumes "\<forall>(n, s) \<in> set t. saveable s" "\<exists>(n, s) \<in> set t. \<not> options_load env (sv_options s)" "marshal_all t = Returns mss"
  shows "\<exists>err h'. unmarshal_all env mss h = Returns (Inl err, h')"
  using assms
proof (induction t arbitrary: mss h)
  case Nil
  then show ?case by simp
next
  case (Cons x t)
  obtain n s where x: "x = (n, s)" by fastforce
  with Cons.prems obtain ms mss' where m: "Service_MarshalJSON s = Returns ms" "marshal_all t = Returns mss'"
    "mss = ms # mss'" and s: "saveable s" by (auto simp: bind_outcome_Returns)
  show ?case
  proof (cases "options_load env (sv_options s)")
    case False
    from unmarshal_fails [OF s m(1) False, of h] m show ?thesis by auto
  next
    case True
    from saveable_active [OF s] obtain lb where a: "sv_active s = Some lb" ..
    obtain s' where "Service_UnmarshalJSON env ms h = Returns (Inr s', h)"
      by (rule unmarshal_saved [OF s m(1) options_load_initialize [OF True] a saveable_pause [OF s]])
    moreover from Cons.IH [of mss' h] Cons.prems x True m obtain err h' where
      "unmarshal_all env mss' h = Returns (Inl err, h')" by auto
    ultimately show ?thesis using m by simp
  qed
qed

text \<open>C38: a rejected redeployment costs every service at the next restart: when the targets become healthy and the hosts
  are free but the new options of an existing service cannot be loaded, the command reports an error, and still
  writes the rejected options to the state file; a process that starts from that file fails to restore it, and has
  no service at all.\<close>

theorem rejected_redeploy_loses_services:
  assumes "reach router_start router_step r" and "env_state_writable env"
    and "ServiceMap_Get (r_services r) name = Some s"
    and "createLoadBalancer reports ws rs (Normalize opts) topts timeout = Inr lb"
    and "CheckAvailability (r_services r) name (Normalize opts) = None"
    and "\<not> options_load env (Normalize opts)"
  shows "\<exists>err r' err2 r2. DeployService env reports name ws rs opts topts timeout r = Returns (Some err, r')
    \<and> RestoreLastSavedState env (NewRouter (r_saved r')) = Returns (Some err2, r2)
    \<and> sm_services (r_services r2) = []"
proof -
  from assms(1) have ok: "rt_ok r" by (rule routing.reach_inv)
  note m = rt_ok_Get [OF ok assms(3)] and d = rt_okD [OF ok rt_ok_Get [OF ok assms(3)]]
  let ?s = "s\<lparr>sv_options := Normalize opts, sv_targetOptions := topts\<rparr>"
  let ?t = "map_put name ?s (sm_services (r_services r))"
  from ok have wf: "wf_map (sm_services (r_services r))" by (simp add: rt_ok_def sm_ok_def)
  have "saveable ?s" using d(1) Normalize_normal by (simp add: saveable_def)
  then have all: "\<forall>(n, s) \<in> set ?t. saveable s"
    by (intro table_put_all [OF wf]) (use rt_okD(1) [OF ok] in auto)
  then obtain mss where mss: "marshal_all ?t = Returns mss" using marshal_all_returns by blast
  have "(name, ?s) \<in> set ?t" by (simp add: set_map_put_iff [OF wf])
  with assms(6) have bad: "\<exists>(n, s) \<in> set ?t. \<not> options_load env (sv_options s)" by force
  from initialize_fails [of env ?s] assms(6) obtain err where "UpdateOptions env (Normalize opts) topts s = (Some err, ?s)"
    by (auto simp: UpdateOptions_def)
  then have "DeployService env reports name ws rs opts topts timeout r = Returns (Some err, (put_service ?s r)\<lparr>r_saved := Some mss\<rparr>)"
    using assms(2-5) mss d(3) by (simp add: DeployService_def installLoadBalancer_def createOrUpdateService_def
        saveStateSnapshot_def finish_deploy_def put_service_def Let_def)
  moreover from unmarshal_all_fails [OF all bad mss, of "r_channels (NewRouter (Some mss))"] obtain err2 h where
    "RestoreLastSavedState env (NewRouter (Some mss)) = Returns (Some err2, (NewRouter (Some mss))\<lparr>r_channels := h\<rparr>)"
    by (auto simp: RestoreLastSavedState_def NewRouter_def)
  ultimately show ?thesis by (auto simp: NewRouter_def NewServiceMap_def)
qed

subsection \<open>Examples\<close>

lemma ex_router1_saved: "reach saved_start saved_step ex_router1"
proof (rule reach.reach_step)
  show "reach saved_start saved_step (NewRouter None)" by (rule reach.reach_start) (simp add: saved_start_def)
  obtain err r' where e: "exec example_environment ex_deploy_web (NewRouter None) = Returns (err, r')"
    using exec_ok [OF router_start_ok ex_admissible] by (auto simp: router_start_def)
  then have "ex_router1 = r'" by (simp add: ex_router1_def ex_deploy_def ex_deploy_web_def)
  with e show "saved_step (NewRouter None) ex_router1"
    using saved_command [OF _ ex_admissible e] by (simp add: example_environment_def)
qed

lemma ex_router1_file: "loadable example_environment (r_saved ex_router1)" "r_saved ex_router1 \<noteq> None"
  "serviceFor (sm_requests (r_services ex_router1)) ''app'' ''/x'' = Some (''web'', ''/'')"
  by code_simp+



theorem rejected_redeploy_loses_services_witness:
  "\<exists>err r' err2 r2. DeployService example_environment [(0, True)] ''web'' [''web-1''] [] ex_bad_options example_options 30 ex_router1
      = Returns (Some err, r')
    \<and> RestoreLastSavedState example_environment (NewRouter (r_saved r')) = Returns (Some err2, r2)
    \<and> sm_services (r_services r2) = []"
proof -
  have w: "env_state_writable example_environment" by (simp add: example_environment_def)
  have "ServiceMap_Get (r_services ex_router1) ''web'' \<noteq> None"
    "CheckAvailability (r_services ex_router1) ''web'' (Normalize ex_bad_options) = None"
    "\<not> options_load example_environment (Normalize ex_bad_options)"
    "\<not> isl (createLoadBalancer [(0, True)] [''web-1''] [] (Normalize ex_bad_options) example_options 30)"
    by code_simp+
  then show ?thesis
    using rejected_redeploy_loses_services [OF ex_router1_reach w, of "''web''" _ "[(0, True)]" "[''web-1'']" "[]" ex_bad_options example_options 30]
    by (metis (no_types, lifting) isl_def not_None_eq obj_sumE)
qed

end
