(* ===== verification/Saves.thy ===== *)
theory Saves
  imports StateFiles
begin

section \<open>Saves that overlap\<close>

text \<open>
  Every remote call runs in a goroutine of its own, and \<open>saveStateSnapshot\<close> of \<open>internal/server/router.go\<close> is not one
  step: it lists the services under the read lock, creates the file, which empties it, and encodes the services that
  it listed, as they are by then, in one write from the start of the file. The decoder reads the first value of the file, so that a
  write decides its content. Services are objects that the map and the savers share.
\<close>

subsection \<open>The phases of a save\<close>

datatype StateFile = NoFile | EmptyFile | Holds "marshalledService list"

datatype Saver = Waiting | Listed "nat list" | Truncated "nat list" | Finished

record Saves =
  sa_objects :: "nat \<Rightarrow> Service"
  sa_services :: "(string \<times> nat) list"
  sa_file :: StateFile
  sa_savers :: "Saver list"

definition current_table :: "Saves \<Rightarrow> service_table" where
  "current_table st = map (\<lambda>(n, k). (n, sa_objects st k)) (sa_services st)"

definition listed_table :: "Saves \<Rightarrow> nat list \<Rightarrow> service_table" where
  "listed_table st ids = map (\<lambda>k. (sv_name (sa_objects st k), sa_objects st k)) ids"

text \<open>What a command does under the write lock: a new service, a change of one in place, a removal, or
  nothing. Each saves afterwards.\<close>

definition held_ids :: "Saves \<Rightarrow> nat set" where
  "held_ids st = snd ` set (sa_services st) \<union>
     (\<Union>x \<in> set (sa_savers st). case x of Listed ids \<Rightarrow> set ids | Truncated ids \<Rightarrow> set ids | _ \<Rightarrow> {})"

inductive change :: "Saves \<Rightarrow> Saves \<Rightarrow> bool" where
  change_new: "k \<notin> held_ids st \<Longrightarrow>
    change st (st\<lparr>sa_objects := (sa_objects st)(k := s), sa_services := map_put n k (sa_services st)\<rparr>)"
| change_in_place: "k \<in> snd ` set (sa_services st) \<Longrightarrow> change st (st\<lparr>sa_objects := (sa_objects st)(k := s)\<rparr>)"
| change_remove: "change st (st\<lparr>sa_services := map_delete n (sa_services st)\<rparr>)"
| change_nothing: "change st st"

inductive save_step :: "Saves \<Rightarrow> Saves \<Rightarrow> bool" where
  save_list: "i < length (sa_savers st) \<Longrightarrow> sa_savers st ! i = Waiting \<Longrightarrow>
    save_step st (st\<lparr>sa_savers := (sa_savers st)[i := Listed (map snd (sa_services st))]\<rparr>)"
| save_create: "i < length (sa_savers st) \<Longrightarrow> sa_savers st ! i = Listed ids \<Longrightarrow>
    save_step st (st\<lparr>sa_savers := (sa_savers st)[i := Truncated ids], sa_file := EmptyFile\<rparr>)"
| save_write: "i < length (sa_savers st) \<Longrightarrow> sa_savers st ! i = Truncated ids \<Longrightarrow> marshal_all (listed_table st ids) = Returns mss \<Longrightarrow>
    save_step st (st\<lparr>sa_savers := (sa_savers st)[i := Finished], sa_file := Holds mss\<rparr>)"

inductive saves_step :: "Saves \<Rightarrow> Saves \<Rightarrow> bool" where
  saves_command: "change st st1 \<Longrightarrow> saves_step st (st1\<lparr>sa_savers := sa_savers st1 @ [Waiting]\<rparr>)"
| saves_save: "save_step st st1 \<Longrightarrow> saves_step st st1"

text \<open>The same with commands that wait for the save of the one before.\<close>

definition settled :: "Saves \<Rightarrow> bool" where
  "settled st \<longleftrightarrow> (\<forall>x \<in> set (sa_savers st). x = Finished)"

inductive orderly_step :: "Saves \<Rightarrow> Saves \<Rightarrow> bool" where
  orderly_command: "settled st \<Longrightarrow> change st st1 \<Longrightarrow> orderly_step st (st1\<lparr>sa_savers := sa_savers st1 @ [Waiting]\<rparr>)"
| orderly_save: "save_step st st1 \<Longrightarrow> orderly_step st st1"

definition saves_start :: "Saves \<Rightarrow> bool" where
  "saves_start st \<longleftrightarrow> sa_services st = [] \<and> sa_file st = NoFile \<and> sa_savers st = []"

subsection \<open>Orderly saves\<close>

definition written :: "Saves \<Rightarrow> bool" where
  "written st \<longleftrightarrow>
     (case sa_file st of
        NoFile \<Rightarrow> sa_services st = []
      | EmptyFile \<Rightarrow> False
      | Holds mss \<Rightarrow> marshal_all (current_table st) = Returns mss)"

definition up_to_date :: "Saves \<Rightarrow> Saver \<Rightarrow> bool" where
  "up_to_date st x \<longleftrightarrow> (case x of Waiting \<Rightarrow> True | Finished \<Rightarrow> True
     | Listed ids \<Rightarrow> ids = map snd (sa_services st) | Truncated ids \<Rightarrow> ids = map snd (sa_services st))"

definition orderly :: "Saves \<Rightarrow> bool" where
  "orderly st \<longleftrightarrow> (if settled st then written st
     else \<forall>x \<in> set (butlast (sa_savers st)). x = Finished) \<and> (\<forall>x \<in> set (sa_savers st). up_to_date st x)"

lemma marshal_names: "marshal_all (map (\<lambda>x. (f x, g x)) xs) = marshal_all (map (\<lambda>x. (f' x, g x)) xs)"
  by (induction xs) simp_all

lemma marshal_listed: "marshal_all (listed_table st (map snd (sa_services st))) = marshal_all (current_table st)"
  using marshal_names [of "\<lambda>x. sv_name (sa_objects st (snd x))" "\<lambda>x. sa_objects st (snd x)" "sa_services st" fst]
  by (simp add: listed_table_def current_table_def comp_def split_def)

lemma change_savers: "change st st1 \<Longrightarrow> sa_savers st1 = sa_savers st \<and> sa_file st1 = sa_file st"
  by (induction rule: change.induct) simp_all

text \<open>Of savers that are done but for the last, a saver that is not done is the last.\<close>

lemma last_saver:
  assumes "\<forall>x \<in> set (butlast xs). x = Finished" "i < length xs" "xs ! i \<noteq> Finished"
  shows "xs[i := y] = butlast xs @ [y]"
proof -
  from assms(2) obtain ys z where xs: "xs = ys @ [z]" by (cases xs rule: rev_cases) auto
  then have "i = length ys" using assms by (auto simp: nth_append less_Suc_eq)
  with xs show ?thesis by simp
qed

lemma save_step_orderly:
  assumes "save_step st st1" "orderly st"
  shows "orderly st1"
proof -
  have u: "\<not> settled st" using assms(1) by cases (auto simp: settled_def dest!: nth_mem)
  then have b: "\<forall>x \<in> set (butlast (sa_savers st)). x = Finished" and d: "\<forall>x \<in> set (sa_savers st). up_to_date st x"
    using assms(2) by (simp_all add: orderly_def)
  show ?thesis using assms(1)
  proof cases
    case (save_list i)
    then show ?thesis using b last_saver [OF b, of i] by (auto simp: orderly_def settled_def up_to_date_def)
  next
    case (save_create i ids)
    then have "up_to_date st (Listed ids)" using d nth_mem [of i "sa_savers st"] by auto
    with save_create show ?thesis using b last_saver [OF b, of i] by (auto simp: orderly_def settled_def up_to_date_def)
  next
    case (save_write i ids mss)
    then have "up_to_date st (Truncated ids)" using d nth_mem [of i "sa_savers st"] by auto
    then have "marshal_all (current_table st) = Returns mss" using save_write(4) by (simp add: up_to_date_def marshal_listed)
    with save_write show ?thesis using b last_saver [OF b, of i]
      by (auto simp: orderly_def settled_def up_to_date_def written_def current_table_def)
  qed
qed

lemma orderly_step_orderly:
  assumes "orderly_step st st1" "orderly st"
  shows "orderly st1"
  using assms(1)
proof cases
  case (orderly_command st2)
  then have "sa_savers st2 = sa_savers st" using change_savers by blast
  with orderly_command show ?thesis by (auto simp: orderly_def settled_def up_to_date_def)
next
  case orderly_save
  then show ?thesis using save_step_orderly assms(2) by blast
qed

lemma saves_start_orderly: "saves_start st \<Longrightarrow> orderly st"
  by (simp add: saves_start_def orderly_def settled_def written_def)

interpretation orderly_saves: kept_invariant saves_start orderly_step orderly
  by unfold_locales (auto intro: saves_start_orderly orderly_step_orderly)

text \<open>An orderly save from start to end is the one step of the router's model.\<close>

definition file_of :: "marshalledService list option \<Rightarrow> StateFile" where
  "file_of saved = (case saved of None \<Rightarrow> NoFile | Some mss \<Rightarrow> Holds mss)"

lemma save_refined:
  assumes "env_state_writable env" "saveStateSnapshot env r = Returns r'"
    and "current_table st = sm_services (r_services r)" "sa_savers st = xs @ [Waiting]"
  shows "save_step\<^sup>*\<^sup>* st (st\<lparr>sa_savers := xs @ [Finished], sa_file := file_of (r_saved r')\<rparr>)"
proof -
  from assms(1-3) obtain mss where mss: "marshal_all (current_table st) = Returns mss" and r': "file_of (r_saved r') = Holds mss"
    by (auto simp: saveStateSnapshot_def bind_outcome_Returns file_of_def)
  let ?ids = "map snd (sa_services st)"
  let ?st1 = "st\<lparr>sa_savers := xs @ [Listed ?ids]\<rparr>"
  let ?st2 = "st\<lparr>sa_savers := xs @ [Truncated ?ids], sa_file := EmptyFile\<rparr>"
  have "save_step st ?st1" using save_list [of "length xs" st] assms(4) by simp
  moreover have "save_step ?st1 ?st2" using save_create [of "length xs" ?st1 ?ids] by simp
  moreover have "marshal_all (listed_table ?st2 ?ids) = Returns mss"
    using mss marshal_listed [of st] by (simp add: listed_table_def)
  then have "save_step ?st2 (st\<lparr>sa_savers := xs @ [Finished], sa_file := Holds mss\<rparr>)"
    using save_write [of "length xs" ?st2 ?ids mss] by simp
  ultimately show ?thesis using r' by simp
qed

subsection \<open>Overlapping saves\<close>

definition ex_named :: "string \<Rightarrow> Service" where
  "ex_named n = example_service\<lparr>sv_name := n\<rparr>"

lemma ex_named_marshal: "\<exists>ms. Service_MarshalJSON (ex_named n) = Returns ms \<and> ms_Name ms = n"
  by (simp add: ex_named_def example_service_def Service_MarshalJSON_def)

text \<open>Two deployments: the first lists the services before the second installs its own, and writes after it.\<close>

definition ex_saves :: "StateFile \<Rightarrow> Saver list \<Rightarrow> Saves" where
  "ex_saves f xs = \<lparr>sa_objects = (\<lambda>k. if k = 0 then ex_named ''web'' else ex_named ''api''),
     sa_services = [(''web'', 0), (''api'', 1)], sa_file = f, sa_savers = xs\<rparr>"

definition ex_first :: "StateFile \<Rightarrow> Saver list \<Rightarrow> Saves" where
  "ex_first f xs = \<lparr>sa_objects = (\<lambda>k. if k = 0 then ex_named ''web'' else ex_named ''api''),
     sa_services = [(''web'', 0)], sa_file = f, sa_savers = xs\<rparr>"

lemma ex_first_orderly: "reach saves_start orderly_step (ex_first NoFile [Waiting])"
  "reach saves_start orderly_step (ex_first EmptyFile [Truncated [0]])"
proof -
  let ?st0 = "\<lparr>sa_objects = (\<lambda>k. if k = 0 then ex_named ''web'' else ex_named ''api''), sa_services = [], sa_file = NoFile, sa_savers = []\<rparr>"
  have "change ?st0 (ex_first NoFile [])"
    using change_new [where k = 0 and st = ?st0 and s = "ex_named ''web''" and n = "''web''"]
    by (simp add: held_ids_def ex_first_def fun_upd_idem)
  from orderly_command [OF _ this] have "orderly_step ?st0 (ex_first NoFile [Waiting])"
    by (simp add: settled_def ex_first_def)
  moreover have "reach saves_start orderly_step ?st0" by (rule reach_start) (simp add: saves_start_def)
  ultimately show w: "reach saves_start orderly_step (ex_first NoFile [Waiting])" by (blast intro: reach_step)
  have "save_step (ex_first NoFile [Waiting]) (ex_first NoFile [Listed [0]])"
    using save_list [of 0 "ex_first NoFile [Waiting]"] by (simp add: ex_first_def)
  moreover have "save_step (ex_first NoFile [Listed [0]]) (ex_first EmptyFile [Truncated [0]])"
    using save_create [of 0 "ex_first NoFile [Listed [0]]" "[0]"] by (simp add: ex_first_def)
  ultimately show "reach saves_start orderly_step (ex_first EmptyFile [Truncated [0]])"
    using w by (blast intro: reach_step orderly_save)
qed

lemma reach_mono: "reach start step s \<Longrightarrow> (\<And>s t. step s t \<Longrightarrow> step' s t) \<Longrightarrow> reach start step' s"
  by (induction rule: reach.induct) (auto intro: reach.intros)

lemma orderly_is_saves: "orderly_step st st1 \<Longrightarrow> saves_step st st1"
  by (induction rule: orderly_step.induct) (auto intro: saves_step.intros)

lemma ex_lost_update:
  obtains w where "ms_Name w = ''web''" "reach saves_start saves_step (ex_saves (Holds [w]) [Finished, Finished])"
proof -
  obtain w where w: "Service_MarshalJSON (ex_named ''web'') = Returns w" "ms_Name w = ''web''" using ex_named_marshal by blast
  obtain a where a: "Service_MarshalJSON (ex_named ''api'') = Returns a" using ex_named_marshal by blast
  let ?reached = "reach saves_start saves_step"
  have "?reached (ex_first NoFile [Waiting])"
    using ex_first_orderly(1) orderly_is_saves by (rule reach_mono)
  moreover have "save_step (ex_first NoFile [Waiting]) (ex_first NoFile [Listed [0]])"
    using save_list [of 0 "ex_first NoFile [Waiting]"] by (simp add: ex_first_def)
  ultimately have "?reached (ex_first NoFile [Listed [0]])" by (blast intro: reach_step saves_save)
  moreover have "change (ex_first NoFile [Listed [0]]) (ex_saves NoFile [Listed [0]])"
    using change_new [where k = 1 and st = "ex_first NoFile [Listed [0]]" and s = "ex_named ''api''" and n = "''api''"]
    by (simp add: held_ids_def ex_first_def ex_saves_def fun_upd_idem)
  from saves_command [OF this] have "saves_step (ex_first NoFile [Listed [0]]) (ex_saves NoFile [Listed [0], Waiting])"
    by (simp add: ex_saves_def)
  ultimately have "?reached (ex_saves NoFile [Listed [0], Waiting])" by (blast intro: reach_step)
  moreover have "save_step (ex_saves NoFile [Listed [0], Waiting]) (ex_saves NoFile [Listed [0], Listed [0, 1]])"
    using save_list [of 1 "ex_saves NoFile [Listed [0], Waiting]"] by (simp add: ex_saves_def)
  ultimately have "?reached (ex_saves NoFile [Listed [0], Listed [0, 1]])" by (blast intro: reach_step saves_save)
  moreover have "save_step (ex_saves NoFile [Listed [0], Listed [0, 1]]) (ex_saves EmptyFile [Listed [0], Truncated [0, 1]])"
    using save_create [of 1 "ex_saves NoFile [Listed [0], Listed [0, 1]]" "[0, 1]"] by (simp add: ex_saves_def)
  ultimately have "?reached (ex_saves EmptyFile [Listed [0], Truncated [0, 1]])" by (blast intro: reach_step saves_save)
  moreover have "save_step (ex_saves EmptyFile [Listed [0], Truncated [0, 1]]) (ex_saves (Holds [w, a]) [Listed [0], Finished])"
    using save_write [of 1 "ex_saves EmptyFile [Listed [0], Truncated [0, 1]]" "[0, 1]" "[w, a]"] w a
    by (simp add: ex_saves_def listed_table_def)
  ultimately have "?reached (ex_saves (Holds [w, a]) [Listed [0], Finished])" by (blast intro: reach_step saves_save)
  moreover have "save_step (ex_saves (Holds [w, a]) [Listed [0], Finished]) (ex_saves EmptyFile [Truncated [0], Finished])"
    using save_create [of 0 "ex_saves (Holds [w, a]) [Listed [0], Finished]" "[0]"] by (simp add: ex_saves_def)
  ultimately have "?reached (ex_saves EmptyFile [Truncated [0], Finished])" by (blast intro: reach_step saves_save)
  moreover have "save_step (ex_saves EmptyFile [Truncated [0], Finished]) (ex_saves (Holds [w]) [Finished, Finished])"
    using save_write [of 0 "ex_saves EmptyFile [Truncated [0], Finished]" "[0]" "[w]"] w
    by (simp add: ex_saves_def listed_table_def)
  ultimately have "?reached (ex_saves (Holds [w]) [Finished, Finished])" by (blast intro: reach_step saves_save)
  with w(2) that show thesis by blast
qed

text \<open>C39: the state file is right when commands wait for each other: whenever every save has ended, the file holds the
  services as they are. When saves overlap it can be wrong for good: of two deployments that have ended, the file can
  hold only the first, since its save listed the services before the second deployment and wrote after it. And
  while a save is between creating and writing, the file is empty, so that a crash there loses every service.\<close>

theorem saves_can_lose_services:
  "(reach saves_start orderly_step st \<and> settled st \<longrightarrow> written st)
   \<and> (\<exists>st' mss. reach saves_start saves_step st' \<and> settled st' \<and> keys (sa_services st') = [''web'', ''api'']
        \<and> sa_file st' = Holds mss \<and> map ms_Name mss = [''web''])
   \<and> (\<exists>st'. reach saves_start orderly_step st' \<and> keys (sa_services st') = [''web''] \<and> sa_file st' = EmptyFile)"
proof (intro conjI impI)
  show "written st" if "reach saves_start orderly_step st \<and> settled st"
    using that orderly_saves.reach_inv [of st] by (simp add: orderly_def)
  obtain w where w: "ms_Name w = ''web''" "reach saves_start saves_step (ex_saves (Holds [w]) [Finished, Finished])"
    by (rule ex_lost_update)
  then show "\<exists>st' mss. reach saves_start saves_step st' \<and> settled st' \<and> keys (sa_services st') = [''web'', ''api'']
      \<and> sa_file st' = Holds mss \<and> map ms_Name mss = [''web'']"
    by (intro exI [of _ "ex_saves (Holds [w]) [Finished, Finished]"] exI [of _ "[w]"])
       (simp add: ex_saves_def settled_def keys_def)
  show "\<exists>st'. reach saves_start orderly_step st' \<and> keys (sa_services st') = [''web''] \<and> sa_file st' = EmptyFile"
    using ex_first_orderly(2)
    by (intro exI [of _ "ex_first EmptyFile [Truncated [0]]"]) (simp add: ex_first_def keys_def)
qed

theorem saves_can_lose_services_witness:
  "\<exists>st. reach saves_start orderly_step st \<and> settled st \<and> keys (sa_services st) = [''web''] \<and> written st"
proof -
  obtain w where w: "Service_MarshalJSON (ex_named ''web'') = Returns w" using ex_named_marshal by blast
  let ?st = "ex_first (Holds [w]) [Finished]"
  have "save_step (ex_first EmptyFile [Truncated [0]]) ?st"
    using save_write [of 0 "ex_first EmptyFile [Truncated [0]]" "[0]" "[w]"] w by (simp add: ex_first_def listed_table_def)
  with ex_first_orderly(2) have "reach saves_start orderly_step ?st" by (blast intro: reach_step orderly_save)
  moreover have "settled ?st" "keys (sa_services ?st) = [''web'']" by (simp_all add: settled_def ex_first_def keys_def)
  ultimately show ?thesis using saves_can_lose_services [of ?st] by blast
qed

end
