(* ===== verification/Overlaps.thy ===== *)
theory Overlaps
  imports Routers
begin

section \<open>Commands that overlap\<close>

text \<open>
  In \<open>Routers\<close> a command runs to its end before the next one starts. In the code every remote call has a
  goroutine of its own, and \<open>DeployService\<close> and \<open>SetRolloutTargets\<close> of \<open>internal/server/router.go\<close> wait for the
  health of their new targets without a lock; the lock is only taken by \<open>installLoadBalancer\<close>. Here such a
  command is split at its wait: it begins, its targets report, and it finishes or gives up, with other commands
  and requests in between. A rollout keeps a pointer to the service that it looked up, so services
  have identities, and one that has left the map lives on while a rollout points to it.
\<close>

subsection \<open>The state\<close>

datatype pending =
    PendingDeploy string ServiceOptions TargetOptions LoadBalancer
  | PendingRollout string nat LoadBalancer

text \<open>A service is identified by its name and a number. \<open>ov_objects\<close>: the number of the service that the map has
  under a name; \<open>ov_removed\<close>: the services that have left the map; \<open>ov_pending\<close>: the commands that wait, with the balancer that they have created.\<close>

record Overlap =
  ov_router :: Router
  ov_objects :: "string \<rightharpoonup> nat"
  ov_removed :: "(string \<times> nat) \<rightharpoonup> Service"
  ov_next :: nat
  ov_pending :: "pending list"

definition new_overlap :: "marshalledService list option \<Rightarrow> Overlap" where
  "new_overlap saved = \<lparr>ov_router = NewRouter saved, ov_objects = Map.empty, ov_removed = Map.empty,
     ov_next = 0, ov_pending = []\<rparr>"

primrec pending_balancer :: "pending \<Rightarrow> LoadBalancer" where
  "pending_balancer (PendingDeploy name options targetOptions lb) = lb"
| "pending_balancer (PendingRollout name k lb) = lb"

primrec with_balancer :: "LoadBalancer \<Rightarrow> pending \<Rightarrow> pending" where
  "with_balancer lb' (PendingDeploy name options targetOptions lb) = PendingDeploy name options targetOptions lb'"
| "with_balancer lb' (PendingRollout name k lb) = PendingRollout name k lb'"

definition pointed_service :: "Overlap \<Rightarrow> string \<Rightarrow> nat \<Rightarrow> Service option" where
  "pointed_service v name k =
     (if ov_objects v name = Some k then ServiceMap_Get (r_services (ov_router v)) name else ov_removed v (name, k))"

text \<open>The services that are in the map now have an identity: the old one or, for a new service, the next.\<close>

definition track :: "Router \<Rightarrow> Overlap \<Rightarrow> Overlap" where
  "track r' v = v\<lparr>ov_router := r', ov_next := Suc (ov_next v),
     ov_objects := (\<lambda>n. if ServiceMap_Get (r_services r') n = None then None
        else (case ov_objects v n of None \<Rightarrow> Some (ov_next v) | Some k \<Rightarrow> Some k))\<rparr>"

subsection \<open>The two halves of a deployment\<close>

text \<open>\<open>createLoadBalancer\<close> up to its wait.\<close>

definition newBalancer ::
  "string list \<Rightarrow> string list \<Rightarrow> ServiceOptions \<Rightarrow> TargetOptions \<Rightarrow> LoadBalancer result" where
  "newBalancer targetURLs readerURLs options targetOptions =
     (case NewTargetList targetURLs readerURLs targetOptions of
        Inl err \<Rightarrow> Inl err
      | Inr ts \<Rightarrow> Inr (NewLoadBalancer ts (so_WriterAffinityTimeout options) (so_ReadTargetsAcceptWebsockets options)))"

definition begin_deploy ::
  "string \<Rightarrow> string list \<Rightarrow> string list \<Rightarrow> ServiceOptions \<Rightarrow> TargetOptions \<Rightarrow> Overlap \<Rightarrow> go_error option \<times> Overlap" where
  "begin_deploy name targetURLs readerURLs opts targetOptions v =
     (case newBalancer targetURLs readerURLs (Normalize opts) targetOptions of
        Inl err \<Rightarrow> (Some err, v)
      | Inr lb \<Rightarrow> (None, v\<lparr>ov_pending := ov_pending v @ [PendingDeploy name (Normalize opts) targetOptions lb]\<rparr>))"

definition begin_rollout :: "string \<Rightarrow> string list \<Rightarrow> string list \<Rightarrow> Overlap \<Rightarrow> go_error option \<times> Overlap" where
  "begin_rollout name targetURLs readerURLs v =
     (case (ServiceMap_Get (r_services (ov_router v)) name, ov_objects v name) of
        (Some service, Some k) \<Rightarrow>
          (case newBalancer targetURLs readerURLs (sv_options service) (sv_targetOptions service) of
             Inl err \<Rightarrow> (Some err, v)
           | Inr lb \<Rightarrow> (None, v\<lparr>ov_pending := ov_pending v @ [PendingRollout name k lb]\<rparr>))
      | _ \<Rightarrow> (Some ErrorServiceNotFound, v))"

text \<open>A target of a waiting command reports.\<close>

definition report_health :: "nat \<Rightarrow> nat \<times> bool \<Rightarrow> Overlap \<Rightarrow> Overlap" where
  "report_health i x v =
     (if i < length (ov_pending v)
      then v\<lparr>ov_pending := (ov_pending v)[i := with_balancer (health_report (pending_balancer (ov_pending v ! i)) x) (ov_pending v ! i)]\<rparr>
      else v)"

definition drop_pending :: "nat \<Rightarrow> Overlap \<Rightarrow> Overlap" where
  "drop_pending i v = v\<lparr>ov_pending := take i (ov_pending v) @ drop (Suc i) (ov_pending v)\<rparr>"

text \<open>\<open>installLoadBalancer\<close> and what follows it. A rollout reads the options of its service again, takes the
  service by its pointer, and puts it into the map, where it takes the place of one deployed since.\<close>

definition put_back :: "string \<Rightarrow> nat \<Rightarrow> Router \<Rightarrow> Overlap \<Rightarrow> Overlap" where
  "put_back name k r' v = v\<lparr>ov_router := r', ov_objects := (ov_objects v)(name \<mapsto> k),
     ov_removed := (case ov_objects v name of
         None \<Rightarrow> ov_removed v
       | Some j \<Rightarrow> (ov_removed v)((name, j) := ServiceMap_Get (r_services (ov_router v)) name))((name, k) := None)\<rparr>"

definition finish_rollout ::
  "Environment \<Rightarrow> string \<Rightarrow> nat \<Rightarrow> LoadBalancer \<Rightarrow> Service \<Rightarrow> Overlap \<Rightarrow> (go_error option \<times> Overlap) outcome" where
  "finish_rollout env name k lb service v =
     bind_outcome (installLoadBalancer env name TargetSlotRollout lb (sv_options service)
         (\<lambda>r. (Inr service, r)) (ov_router v))
       (\<lambda>x. case finish_deploy x of
          (Some err, r') \<Rightarrow> Returns (Some err, v\<lparr>ov_router := r'\<rparr>)
        | (None, r') \<Rightarrow> Returns (None, put_back name k r' v))"

definition finish_pending :: "Environment \<Rightarrow> pending \<Rightarrow> Overlap \<Rightarrow> (go_error option \<times> Overlap) outcome" where
  "finish_pending env p v =
     (case p of
        PendingDeploy name options targetOptions lb \<Rightarrow>
          bind_outcome (installLoadBalancer env name TargetSlotActive lb options
              (createOrUpdateService env name options targetOptions) (ov_router v))
            (\<lambda>x. case finish_deploy x of (err, r') \<Rightarrow> Returns (err, track r' v))
      | PendingRollout name k lb \<Rightarrow>
          (case pointed_service v name k of
             None \<Rightarrow> Panics ''nil pointer dereference''
           | Some service \<Rightarrow> finish_rollout env name k lb service v))"

text \<open>The wait ends: with a healthy balancer the command finishes, after the timeout it gives up.\<close>

definition end_wait :: "Environment \<Rightarrow> nat \<Rightarrow> duration \<Rightarrow> Overlap \<Rightarrow> (go_error option \<times> Overlap) outcome" where
  "end_wait env i timeout v =
     (case WaitUntilHealthy timeout (lb_healthy (pending_balancer (ov_pending v ! i))) of
        Inl err \<Rightarrow> Returns (Some err, drop_pending i v)
      | Inr _ \<Rightarrow> finish_pending env (ov_pending v ! i) (drop_pending i v))"

subsection \<open>Commands and requests meanwhile\<close>

definition removed_by :: "command \<Rightarrow> Overlap \<Rightarrow> ((string \<times> nat) \<times> Service) option" where
  "removed_by cmd v =
     (case cmd of
        CmdRemove name \<Rightarrow>
          (case (ServiceMap_Get (r_services (ov_router v)) name, ov_objects v name) of
             (Some service, Some k) \<Rightarrow>
               (case Service_Dispose service of Returns service' \<Rightarrow> Some ((name, k), service') | Panics _ \<Rightarrow> None)
           | _ \<Rightarrow> None)
      | _ \<Rightarrow> None)"

definition add_removed :: "((string \<times> nat) \<times> Service) option \<Rightarrow> Overlap \<Rightarrow> Overlap" where
  "add_removed x v = v\<lparr>ov_removed := (case x of None \<Rightarrow> ov_removed v | Some (a, s) \<Rightarrow> (ov_removed v)(a \<mapsto> s))\<rparr>"

definition run_meanwhile :: "Environment \<Rightarrow> command \<Rightarrow> Overlap \<Rightarrow> (go_error option \<times> Overlap) outcome" where
  "run_meanwhile env cmd v =
     bind_outcome (exec env cmd (ov_router v)) (\<lambda>(err, r').
       Returns (err, add_removed (removed_by cmd v) (track r' v)))"

definition serve_meanwhile ::
  "Environment \<Rightarrow> instant \<Rightarrow> nat \<Rightarrow> Request \<Rightarrow> Overlap \<Rightarrow> (RouterAnswer \<times> Overlap) outcome" where
  "serve_meanwhile env now rid req v =
     bind_outcome (Router_ServeHTTP env now rid req (ov_router v)) (\<lambda>(a, r'). Returns (a, track r' v))"

text \<open>A deployment that replaces a service has options that can be loaded, as in \<open>admissible\<close>.\<close>

fun can_finish :: "Environment \<Rightarrow> pending \<Rightarrow> Overlap \<Rightarrow> bool" where
  "can_finish env (PendingDeploy name options targetOptions lb) v \<longleftrightarrow>
     ServiceMap_Get (r_services (ov_router v)) name = None \<or> options_load env options"
| "can_finish env (PendingRollout name k lb) v \<longleftrightarrow> True"

inductive overlap_step :: "Overlap \<Rightarrow> Overlap \<Rightarrow> bool" where
  ov_begin_deploy: "begin_deploy name ws rs opts topts v = (err, v') \<Longrightarrow> overlap_step v v'"
| ov_begin_rollout: "begin_rollout name ws rs v = (err, v') \<Longrightarrow> overlap_step v v'"
| ov_report: "overlap_step v (report_health i x v)"
| ov_end_wait: "i < length (ov_pending v) \<Longrightarrow> can_finish env (ov_pending v ! i) v \<Longrightarrow>
    end_wait env i timeout v = Returns (err, v') \<Longrightarrow> overlap_step v v'"
| ov_command: "admissible env cmd (ov_router v) \<Longrightarrow> run_meanwhile env cmd v = Returns (err, v') \<Longrightarrow> overlap_step v v'"
| ov_request: "serve_meanwhile env now rid req v = Returns (a, v') \<Longrightarrow> overlap_step v v'"

definition overlap_start :: "Overlap \<Rightarrow> bool" where
  "overlap_start v \<longleftrightarrow> (\<exists>saved. v = new_overlap saved)"


subsection \<open>What a command does to names and pause controllers\<close>

definition names :: "Router \<Rightarrow> string set" where
  "names r = set (keys (sm_services (r_services r)))"

definition table_pauses :: "service_table \<Rightarrow> PauseController set" where
  "table_pauses t = pause_of ` snd ` set t"

definition pauses :: "Router \<Rightarrow> PauseController set" where
  "pauses r = table_pauses (sm_services (r_services r))"

lemma Get_None_iff: "ServiceMap_Get (r_services r) n = None \<longleftrightarrow> n \<notin> names r"
  by (simp add: ServiceMap_Get_def names_def keys_def map_of_eq_None_iff)

lemma table_put: "table_pauses (map_put n s t) \<subseteq> insert (pause_of s) (table_pauses t)"
  unfolding table_pauses_def by (induction n s t rule: map_put.induct) auto

lemma sync_name_frame:
  "table_pauses (sync_name rsm t n) \<subseteq> table_pauses t" "set (keys (sync_name rsm t n)) = set (keys t)"
proof -
  have "table_pauses (sync_name rsm t n) \<subseteq> table_pauses t \<and> set (keys (sync_name rsm t n)) = set (keys t)"
  proof (cases "map_of t n")
    case (Some s)
    from map_of_SomeD [OF this] have "pause_of s \<in> table_pauses t" "n \<in> set (keys t)"
      by (force simp: table_pauses_def keys_def)+
    with Some table_put [of n "sync_service rsm t s" t] show ?thesis by (auto simp: sync_name_def)
  qed (simp add: sync_name_def)
  then show "table_pauses (sync_name rsm t n) \<subseteq> table_pauses t" "set (keys (sync_name rsm t n)) = set (keys t)" by auto
qed

lemma update_frame:
  "table_pauses (sm_services (updateRequestServiceMap m)) \<subseteq> table_pauses (sm_services m)"
  "set (keys (sm_services (updateRequestServiceMap m))) = set (keys (sm_services m))"
proof -
  have "table_pauses (foldl (sync_name rsm) t ns) \<subseteq> table_pauses t \<and> set (keys (foldl (sync_name rsm) t ns)) = set (keys t)"
    for rsm t ns
  proof (induction ns arbitrary: t)
    case (Cons n ns)
    with sync_name_frame [of rsm t n] show ?case by fastforce
  qed simp
  then show "table_pauses (sm_services (updateRequestServiceMap m)) \<subseteq> table_pauses (sm_services m)"
    "set (keys (sm_services (updateRequestServiceMap m))) = set (keys (sm_services m))"
    by (simp_all add: updateRequestServiceMap_def syncTLSOptionsFromRootDomain_def)
qed

lemma put_frame:
  "pauses (put_service s r) \<subseteq> insert (pause_of s) (pauses r)" "names (put_service s r) = insert (sv_name s) (names r)"
  "r_channels (put_service s r) = r_channels r"
  using table_put by (simp_all add: pauses_def names_def put_service_def)

lemma Set_frame:
  "pauses (r\<lparr>r_services := ServiceMap_Set s (r_services r)\<rparr>) \<subseteq> insert (pause_of s) (pauses r)"
  "names (r\<lparr>r_services := ServiceMap_Set s (r_services r)\<rparr>) = insert (sv_name s) (names r)"
  using update_frame [of "(r_services r)\<lparr>sm_services := map_put (sv_name s) s (sm_services (r_services r))\<rparr>"]
    table_put [of "sv_name s" s "sm_services (r_services r)"]
  by (auto simp: pauses_def names_def ServiceMap_Set_def)

lemma Remove_frame:
  "pauses (r\<lparr>r_services := ServiceMap_Remove n (r_services r)\<rparr>) \<subseteq>
     table_pauses (map_delete n (sm_services (r_services r)))"
  "names (r\<lparr>r_services := ServiceMap_Remove n (r_services r)\<rparr>) = names r - {n}"
  using update_frame [of "(r_services r)\<lparr>sm_services := map_delete n (sm_services (r_services r))\<rparr>"]
  by (auto simp: pauses_def names_def ServiceMap_Remove_def map_delete_def keys_def)

lemma same_frame [simp]:
  "pauses (r\<lparr>r_saved := x\<rparr>) = pauses r" "names (r\<lparr>r_saved := x\<rparr>) = names r"
  "pauses (r\<lparr>r_requests := y\<rparr>) = pauses r" "names (r\<lparr>r_requests := y\<rparr>) = names r"
  "pauses (r\<lparr>r_channels := h\<rparr>) = pauses r" "names (r\<lparr>r_channels := h\<rparr>) = names r"
  "pauses (retire z r) = pauses r" "names (retire z r) = names r" "r_channels (retire z r) = r_channels r"
  by (simp_all add: pauses_def names_def retire_def split: option.splits)

lemma snapshot_frame:
  "saveStateSnapshot env r = Returns r' \<Longrightarrow> r_services r' = r_services r \<and> r_channels r' = r_channels r"
  by (auto simp: saveStateSnapshot_def split: if_splits)

text \<open>A bound on what a step does: the channels stay, every controller is in \<open>A\<close>, and no name is lost.\<close>

definition keeps_to :: "PauseController set \<Rightarrow> Router \<Rightarrow> Router \<Rightarrow> bool" where
  "keeps_to A r r' \<longleftrightarrow> r_channels r' = r_channels r \<and> pauses r' \<subseteq> A \<and> names r \<subseteq> names r'"

lemma keeps_to_save: "keeps_to A r r1 \<Longrightarrow> saveStateSnapshot env r1 = Returns r' \<Longrightarrow> keeps_to A r r'"
  using snapshot_frame [of env r1 r'] by (simp add: keeps_to_def pauses_def names_def)

lemma keeps_to_retire [simp]: "keeps_to A r (retire z r') = keeps_to A r r'"
  by (simp add: keeps_to_def)

lemma keeps_to_put: "keeps_to A r r1 \<Longrightarrow> pause_of s \<in> A \<Longrightarrow> keeps_to A r (put_service s r1)"
  using put_frame [of s r1] by (auto simp: keeps_to_def)

lemma UpdateLoadBalancer_kept:
  "UpdateLoadBalancer lb slot s = (replaced, s') \<Longrightarrow> pause_of s' = pause_of s \<and> sv_name s' = sv_name s"
  by (auto simp: UpdateLoadBalancer_def pause_of_def split: if_splits)

lemma install_keeps_to:
  assumes i: "installLoadBalancer env name slot lb options getService r = Returns (res, r')"
    and g: "getService r = (x, r1)" and w: "keeps_to A r r" "keeps_to A r r1" and x: "\<And>s. x = Inr s \<Longrightarrow> pause_of s \<in> A"
  shows "keeps_to A r r'"
proof (cases "CheckAvailability (r_services r) name options")
  case None
  show ?thesis
  proof (cases x)
    case (Inl err)
    with i g None w(2) show ?thesis by (auto simp: installLoadBalancer_def intro: keeps_to_save)
  next
    case (Inr s)
    obtain replaced s' where u: "UpdateLoadBalancer lb slot s = (replaced, s')" by fastforce
    from UpdateLoadBalancer_kept [OF u] x [OF Inr] Set_frame [where r = r1 and s = s'] w(2)
    have "keeps_to A r (r1\<lparr>r_services := ServiceMap_Set s' (r_services r1)\<rparr>)" by (auto simp: keeps_to_def)
    with i g None u Inr show ?thesis by (auto simp: installLoadBalancer_def intro: keeps_to_save)
  qed
next
  case (Some c)
  with i w(1) show ?thesis by (auto simp: installLoadBalancer_def intro: keeps_to_save)
qed

lemma in_pauses: "(n, s) \<in> set (sm_services (r_services r)) \<Longrightarrow> pause_of s \<in> pauses r"
  by (force simp: pauses_def table_pauses_def)

lemma Get_in_pauses: "ServiceMap_Get (r_services r) n = Some s \<Longrightarrow> pause_of s \<in> pauses r"
  by (rule in_pauses, rule map_of_SomeD) (simp add: ServiceMap_Get_def)

lemma initialize_pause: "pause_of (snd (initialize env s)) = pause_of s"
  by (simp add: initialize_def pause_of_def split: sum.splits)

lemma createOrUpdate_keeps_to:
  assumes "createOrUpdateService env name options topts r = (x, r1)"
    and A: "A = insert NewPauseController (pauses r)"
  shows "keeps_to A r r1" "x = Inr s \<Longrightarrow> pause_of s \<in> A"
proof -
  have r: "keeps_to A r r" using A by (auto simp: keeps_to_def)
  have "keeps_to A r r1 \<and> (x = Inr s \<longrightarrow> pause_of s \<in> A)"
  proof (cases "ServiceMap_Get (r_services r) name")
    case None
    have "pause_of (snd (NewService env name options topts)) = NewPauseController"
      by (simp add: NewService_def initialize_pause) (simp add: pause_of_def)
    with assms None r show ?thesis by (auto simp: createOrUpdateService_def split: prod.splits option.splits)
  next
    case (Some s0)
    have "pause_of (snd (UpdateOptions env options topts s0)) = pause_of s0"
      by (simp add: UpdateOptions_def initialize_pause) (simp add: pause_of_def)
    with Get_in_pauses [OF Some] A have "pause_of (snd (UpdateOptions env options topts s0)) \<in> A" by simp
    with assms(1) Some r show ?thesis
      by (auto simp: createOrUpdateService_def split: prod.splits option.splits intro!: keeps_to_put)
  qed
  then show "keeps_to A r r1" "x = Inr s \<Longrightarrow> pause_of s \<in> A" by simp_all
qed

lemma finish_deploy_keeps_to: "finish_deploy (res, r1) = (err, r') \<Longrightarrow> keeps_to A r r1 \<Longrightarrow> keeps_to A r r'"
  by (auto simp: finish_deploy_def split: sum.splits)

lemma deploy_keeps_to:
  assumes "DeployService env reports name ws rs opts topts timeout r = Returns (err, r')"
  shows "keeps_to (insert NewPauseController (pauses r)) r r'"
proof (cases "createLoadBalancer reports ws rs (Normalize opts) topts timeout")
  case (Inl e)
  with assms show ?thesis by (auto simp: DeployService_def keeps_to_def)
next
  case (Inr lb)
  obtain x r1 where g: "createOrUpdateService env name (Normalize opts) topts r = (x, r1)" by fastforce
  from assms Inr obtain res r2 where
    i: "installLoadBalancer env name TargetSlotActive lb (Normalize opts)
      (createOrUpdateService env name (Normalize opts) topts) r = Returns (res, r2)"
    and f: "finish_deploy (res, r2) = (err, r')" by (auto simp: DeployService_def Let_def)
  from createOrUpdate_keeps_to [OF g refl] have "keeps_to (insert NewPauseController (pauses r)) r r2"
    by (intro install_keeps_to [OF i g]) (auto simp: keeps_to_def)
  with f show ?thesis by (rule finish_deploy_keeps_to)
qed

lemma rollout_keeps_to:
  assumes "installLoadBalancer env name TargetSlotRollout lb options (\<lambda>r. (Inr s, r)) r = Returns (res, r1)"
    and "finish_deploy (res, r1) = (err, r')"
  shows "keeps_to (insert (pause_of s) (pauses r)) r r'"
  by (rule finish_deploy_keeps_to [OF assms(2)], rule install_keeps_to [OF assms(1) refl]) (auto simp: keeps_to_def)

subsection \<open>Controllers that no service in the map shares\<close>

text \<open>A controller outside of the map whose channel, when it is paused, is open and belongs to nobody else. Every
  command and request keeps it so.\<close>

definition channel_free :: "PauseController \<Rightarrow> Router \<Rightarrow> bool" where
  "channel_free q r \<longleftrightarrow> ctl_ok q (r_channels r) \<and> (\<forall>p \<in> pauses r. held_channel q = None \<or> held_channel q \<noteq> held_channel p)"

lemma held_new [simp]: "held_channel NewPauseController = None"
  by (simp add: held_channel_def NewPauseController_def)

lemma free_requests [simp]: "channel_free q (r\<lparr>r_requests := y\<rparr>) = channel_free q r"
  by (simp add: channel_free_def)

lemma keeps_to_free:
  assumes "keeps_to A r r'" "channel_free q r" "\<And>p. p \<in> A \<Longrightarrow> p \<in> pauses r \<or> held_channel q = None \<or> held_channel q \<noteq> held_channel p"
  shows "channel_free q r'"
  using assms unfolding channel_free_def keeps_to_def by (metis subsetD)

lemma deploy_free: "keeps_to (insert NewPauseController (pauses r)) r r' \<Longrightarrow> channel_free q r \<Longrightarrow> channel_free q r'"
  by (erule (1) keeps_to_free) auto

lemma saved_free:
  "saveStateSnapshot env r = Returns r' \<Longrightarrow> channel_free q r' = channel_free q r"
  using snapshot_frame [of env r r'] by (simp add: channel_free_def pauses_def)

lemma on_service_free:
  assumes "on_service env name f r = Returns (err, r')" "channel_free q r"
    and "\<And>s err r1. (name, s) \<in> set (sm_services (r_services r)) \<Longrightarrow> f s r = Returns (err, r1) \<Longrightarrow> channel_free q r1"
  shows "channel_free q r'"
proof (cases "ServiceMap_Get (r_services r) name")
  case None
  with assms(1,2) show ?thesis by (auto simp: on_service_def saved_free)
next
  case (Some s)
  then have "(name, s) \<in> set (sm_services (r_services r))" by (simp add: ServiceMap_Get_def map_of_SomeD)
  with Some assms(1,3) show ?thesis by (auto simp: on_service_def saved_free)
qed

lemma on_service_names:
  assumes "on_service env name f r = Returns (err, r')"
    and "\<And>s err r1. (name, s) \<in> set (sm_services (r_services r)) \<Longrightarrow> f s r = Returns (err, r1) \<Longrightarrow> N \<subseteq> names r1"
    and "N \<subseteq> names r"
  shows "N \<subseteq> names r'"
proof -
  have sv: "saveStateSnapshot env r1 = Returns r2 \<Longrightarrow> names r2 = names r1" for r1 r2
    using snapshot_frame [of env r1 r2] by (simp add: names_def)
  show ?thesis
  proof (cases "ServiceMap_Get (r_services r) name")
    case None
    with assms(1,3) show ?thesis by (auto simp: on_service_def dest!: sv)
  next
    case (Some s)
    then have "(name, s) \<in> set (sm_services (r_services r))" by (simp add: ServiceMap_Get_def map_of_SomeD)
    with Some assms(1,2) show ?thesis by (fastforce simp: on_service_def dest!: sv)
  qed
qed

text \<open>The three commands on a pause controller.\<close>

lemma control_free:
  assumes ok: "rt_ok r" and s: "(n, s) \<in> set (sm_services (r_services r))" and q: "channel_free q r"
    and f: "f = (\<lambda>x. Returns (PauseController_Pause d x)) \<or> f = PauseController_Stop msg \<or> f = PauseController_Resume"
    and w: "with_pause f (s, r_channels r) = Returns (s', h)"
  shows "channel_free q (put_service s' (r\<lparr>r_channels := h\<rparr>))"
proof -
  note d = rt_okD [OF ok s]
  from pause_command [OF d(2) f] obtain p' h' where
    p: "f (pause_of s, r_channels r) = Returns (p', h')"
    and hc: "held_channel p' = None \<or> held_channel p' = held_channel (pause_of s) \<or> held_channel p' = Some (ch_next (r_channels r))"
    and oth: "\<And>q. ctl_ok q (r_channels r) \<Longrightarrow> held_channel q = None \<or> held_channel q \<noteq> held_channel (pause_of s) \<Longrightarrow> ctl_ok q h'"
    by blast
  from p w saveable_pause [OF d(1)] have s': "s' = s\<lparr>sv_pauseController := Some p'\<rparr>" "h = h'" by (auto simp: with_pause_def)
  from q in_pauses [OF s] have c: "ctl_ok q (r_channels r)" "held_channel q = None \<or> held_channel q \<noteq> held_channel (pause_of s)"
    by (auto simp: channel_free_def)
  then have "held_channel q \<noteq> Some (ch_next (r_channels r))" by (auto simp: held_channel_def ctl_ok_def)
  with c(2) hc have "held_channel q = None \<or> held_channel q \<noteq> held_channel (pause_of s')"
    unfolding s'(1) by (simp add: pause_of_def) metis
  with q oth [OF c] put_frame [of s' "r\<lparr>r_channels := h\<rparr>"] s'(2) show ?thesis
    by (auto simp: channel_free_def)
qed

lemmas pause_free = control_free [OF _ _ _ disjI1 [OF refl]]
  and stop_free = control_free [OF _ _ _ disjI2 [OF disjI1 [OF refl]]]
  and resume_free = control_free [OF _ _ _ disjI2 [OF disjI2 [OF refl]]]

lemma put_same_free: "channel_free q r \<Longrightarrow> pause_of s \<in> pauses r \<Longrightarrow> channel_free q (put_service s r)"
  using put_frame [of s r] by (auto simp: channel_free_def)

lemma rollout_command_frame:
  assumes "SetRolloutTargets env reports name ws rs timeout r = Returns (err, r')"
  shows "keeps_to (pauses r) r r'"
proof (cases "ServiceMap_Get (r_services r) name")
  case None
  with assms show ?thesis by (simp add: SetRolloutTargets_def keeps_to_def)
next
  case (Some s)
  show ?thesis
  proof (cases "createLoadBalancer reports ws rs (sv_options s) (sv_targetOptions s) timeout")
    case (Inl e)
    with assms Some show ?thesis by (auto simp: SetRolloutTargets_def keeps_to_def)
  next
    case (Inr lb)
    with assms Some obtain res r1 where
      "installLoadBalancer env name TargetSlotRollout lb (sv_options s) (\<lambda>r. (Inr s, r)) r = Returns (res, r1)"
      "finish_deploy (res, r1) = (err, r')" by (auto simp: SetRolloutTargets_def)
    from rollout_keeps_to [OF this] Get_in_pauses [OF Some] show ?thesis by (simp add: insert_absorb)
  qed
qed

lemma removed_free:
  assumes ok: "rt_ok r" and s: "(n, s) \<in> set (sm_services (r_services r))"
  shows "channel_free (pause_of s) (r\<lparr>r_services := ServiceMap_Remove n (r_services r)\<rparr>)"
proof -
  have "held_channel (pause_of s) = None \<or> held_channel (pause_of s) \<noteq> held_channel p"
    if "p \<in> table_pauses (map_delete n (sm_services (r_services r)))" for p
  proof -
    from that obtain k x where "(k, x) \<in> set (sm_services (r_services r))" "n \<noteq> k" "p = pause_of x"
      by (auto simp: table_pauses_def map_delete_def)
    with rt_okD(4) [OF ok s] show ?thesis by blast
  qed
  with rt_okD(2) [OF ok s] Remove_frame(1) [where r = r and n = n] show ?thesis
    by (simp add: channel_free_def) blast
qed

lemma Remove_free:
  "channel_free q r \<Longrightarrow> channel_free q (r\<lparr>r_services := ServiceMap_Remove n (r_services r)\<rparr>)"
  using Remove_frame(1) [where r = r and n = n] by (fastforce simp: channel_free_def table_pauses_def pauses_def map_delete_def)

lemma exec_free:
  assumes ok: "rt_ok r" and "exec env cmd r = Returns (err, r')" "channel_free q r"
  shows "channel_free q r'"
proof (cases cmd)
  case (CmdDeploy reports name ws rs opts topts timeout)
  with assms(2) have "keeps_to (insert NewPauseController (pauses r)) r r'" by (simp add: deploy_keeps_to)
  then show ?thesis using assms(3) by (rule deploy_free)
next
  case (CmdRolloutDeploy reports name ws rs timeout)
  with assms(2) have "keeps_to (pauses r) r r'" by (simp add: rollout_command_frame)
  then show ?thesis by (rule keeps_to_free [OF _ assms(3)]) simp
next
  case (CmdRolloutSet name n allow)
  with assms(2) have "Router_SetRolloutSplit env name n allow r = Returns (err, r')" by simp
  then show ?thesis unfolding Router_SetRolloutSplit_def
    by (rule on_service_free [OF _ assms(3)])
       (auto simp: Service_SetRolloutSplit_def pause_of_def split: if_splits intro!: put_same_free assms(3) dest!: in_pauses)
next
  case (CmdRolloutStop name)
  with assms(2) have "Router_StopRollout env name r = Returns (err, r')" by simp
  then show ?thesis unfolding Router_StopRollout_def
    by (rule on_service_free [OF _ assms(3)])
       (auto simp: Service_StopRollout_def pause_of_def intro!: put_same_free assms(3) dest!: in_pauses)
next
  case (CmdPause name t)
  with assms(2) have "PauseService env name t r = Returns (err, r')" by simp
  then show ?thesis unfolding PauseService_def
    by (rule on_service_free [OF _ assms(3)])
       (auto simp: control_def Service_Pause_def intro!: pause_free [OF ok _ assms(3)])
next
  case (CmdStop name msg)
  with assms(2) have "StopService env name msg r = Returns (err, r')" by simp
  then show ?thesis unfolding StopService_def
    by (rule on_service_free [OF _ assms(3)])
       (auto simp: control_def Service_Stop_def intro!: stop_free [OF ok _ assms(3)])
next
  case (CmdResume name)
  with assms(2) have "ResumeService env name r = Returns (err, r')" by simp
  then show ?thesis unfolding ResumeService_def
    by (rule on_service_free [OF _ assms(3)])
       (auto simp: control_def Service_Resume_def intro!: resume_free [OF ok _ assms(3)])
next
  case (CmdRemove name)
  with assms(2) have "RemoveService env name r = Returns (err, r')" by simp
  then show ?thesis unfolding RemoveService_def
    by (rule on_service_free [OF _ assms(3)]) (auto intro: Remove_free [OF assms(3)])
qed

text \<open>Only a removal takes a name away.\<close>

lemma control_names: "control f s r = Returns (err, r') \<Longrightarrow> names r \<subseteq> names r'"
  by (auto simp: control_def put_frame(2))

lemma in_place_names:
  assumes "on_service env name f r = Returns (err, r')" "\<And>s err r1. f s r = Returns (err, r1) \<Longrightarrow> names r \<subseteq> names r1"
  shows "names r \<subseteq> names r'"
  by (rule on_service_names [OF assms(1)]) (use assms(2) in blast)+

lemma exec_names:
  assumes ok: "rt_ok r" and e: "exec env cmd r = Returns (err, r')"
  shows "names r - {n. cmd = CmdRemove n} \<subseteq> names r'"
proof (cases cmd)
  case (CmdDeploy reports name ws rs opts topts timeout)
  with e deploy_keeps_to show ?thesis by (fastforce simp: keeps_to_def)
next
  case (CmdRolloutDeploy reports name ws rs timeout)
  with e rollout_command_frame show ?thesis by (fastforce simp: keeps_to_def)
next
  case (CmdRemove name)
  with e have "RemoveService env name r = Returns (err, r')" by simp
  then have "names r - {name} \<subseteq> names r'" unfolding RemoveService_def
  proof (rule on_service_names)
    fix s err r1 assume "(name, s) \<in> set (sm_services (r_services r))"
      "bind_outcome (Service_Dispose s) (\<lambda>s'. Returns (None, r\<lparr>r_services := ServiceMap_Remove (sv_name s') (r_services r)\<rparr>))
        = Returns (err, r1)"
    with rt_okD(3) [OF ok] show "names r - {name} \<subseteq> names r1"
      by (auto simp: Remove_frame(2) Service_Dispose_def split: option.splits)
  qed auto
  with CmdRemove show ?thesis by auto
next
  case (CmdRolloutSet name n allow)
  with e have "Router_SetRolloutSplit env name n allow r = Returns (err, r')" by simp
  then have "names r \<subseteq> names r'" unfolding Router_SetRolloutSplit_def
    by (rule in_place_names) (auto simp: split_def Let_def put_frame(2))
  then show ?thesis by blast
next
  case (CmdRolloutStop name)
  with e have "Router_StopRollout env name r = Returns (err, r')" by simp
  then have "names r \<subseteq> names r'" unfolding Router_StopRollout_def
    by (rule in_place_names) (auto simp: split_def Let_def put_frame(2))
  then show ?thesis by blast
next
  case (CmdPause name t)
  with e in_place_names [OF _ control_names] show ?thesis by (fastforce simp: PauseService_def)
next
  case (CmdStop name msg)
  with e in_place_names [OF _ control_names] show ?thesis by (fastforce simp: StopService_def)
next
  case (CmdResume name)
  with e in_place_names [OF _ control_names] show ?thesis by (fastforce simp: ResumeService_def)
qed

lemma request_frame:
  assumes ok: "rt_ok r" and "Router_ServeHTTP env now rid req r = Returns (a, r')"
  shows "keeps_to (pauses r) r r'"
proof (cases "\<exists>np s. ServiceForRequest (r_services r) req = Some np \<and> ServiceMap_Get (r_services r) (fst np) = Some s")
  case True
  then obtain n p s where f: "ServiceForRequest (r_services r) req = Some (n, p)"
    and s: "ServiceMap_Get (r_services r) n = Some s" by auto
  from serviceRequest_kept [OF rt_okD(1) [OF ok rt_ok_Get [OF ok s]]] obtain a' s' st' where
    k: "serviceRequestWithTarget now rid (routed_request s p req) (s, r_requests r) = Returns (a', s', st')"
      "sv_pauseController s' = sv_pauseController s" by metis
  from k(2) Get_in_pauses [OF s] have "pause_of s' \<in> pauses r" by (simp add: pause_of_def)
  then have "keeps_to (pauses r) r (put_service s' (r\<lparr>r_requests := st'\<rparr>))"
    by (intro keeps_to_put) (simp_all add: keeps_to_def)
  with assms(2) f s k(1) show ?thesis
    by (auto simp: Router_ServeHTTP_def Let_def keeps_to_def split: if_splits)
next
  case False
  with assms(2) have "r' = r" by (auto simp: Router_ServeHTTP_def split: option.splits)
  then show ?thesis by (simp add: keeps_to_def)
qed

subsection \<open>What overlapping commands keep\<close>

text \<open>A balancer that waits: it was created for some options, and has had some reports.\<close>

definition awaited :: "ServiceOptions \<Rightarrow> TargetOptions \<Rightarrow> LoadBalancer \<Rightarrow> bool" where
  "awaited options topts lb \<longleftrightarrow>
     (\<exists>reports ws rs lb0. newBalancer ws rs options topts = Inr lb0 \<and> lb = foldl health_report lb0 reports)"

fun pending_ok :: "Overlap \<Rightarrow> pending \<Rightarrow> bool" where
  "pending_ok v (PendingDeploy name options topts lb) \<longleftrightarrow> (\<exists>opts. options = Normalize opts) \<and> awaited options topts lb"
| "pending_ok v (PendingRollout name k lb) \<longleftrightarrow> (\<exists>options topts. awaited options topts lb) \<and> pointed_service v name k \<noteq> None"

definition objects_ok :: "Overlap \<Rightarrow> bool" where
  "objects_ok v \<longleftrightarrow> (\<forall>n. (ov_objects v n \<noteq> None \<longleftrightarrow> n \<in> names (ov_router v)) \<and> (\<forall>k. ov_objects v n = Some k \<longrightarrow> k < ov_next v))"

definition removed_ok :: "Overlap \<Rightarrow> bool" where
  "removed_ok v \<longleftrightarrow> (\<forall>n k s. ov_removed v (n, k) = Some s \<longrightarrow>
     sv_name s = n \<and> saveable s \<and> channel_free (pause_of s) (ov_router v) \<and> k < ov_next v \<and> ov_objects v n \<noteq> Some k)"

definition removed_apart :: "Overlap \<Rightarrow> bool" where
  "removed_apart v \<longleftrightarrow> (\<forall>a b s s'. ov_removed v a = Some s \<longrightarrow> ov_removed v b = Some s' \<longrightarrow> a \<noteq> b \<longrightarrow>
     held_channel (pause_of s) = None \<or> held_channel (pause_of s) \<noteq> held_channel (pause_of s'))"

definition ov_ok :: "Overlap \<Rightarrow> bool" where
  "ov_ok v \<longleftrightarrow> rt_ok (ov_router v) \<and> objects_ok v \<and> removed_ok v \<and> removed_apart v \<and> (\<forall>p \<in> set (ov_pending v). pending_ok v p)"

lemma createLoadBalancer_halves:
  "createLoadBalancer reports ws rs options topts timeout =
     (case newBalancer ws rs options topts of
        Inl err \<Rightarrow> Inl err
      | Inr lb0 \<Rightarrow> (let lb = foldl health_report lb0 reports
           in case WaitUntilHealthy timeout (lb_healthy lb) of Inl err \<Rightarrow> Inl err | Inr _ \<Rightarrow> Inr lb))"
  by (simp add: createLoadBalancer_def newBalancer_def split: sum.splits)

lemma awaited_created:
  assumes "awaited options topts lb" "lb_healthy lb"
  obtains reports ws rs where "createLoadBalancer reports ws rs options topts timeout = Inr lb"
proof -
  from assms(1) obtain reports ws rs lb0 where "newBalancer ws rs options topts = Inr lb0" "lb = foldl health_report lb0 reports"
    by (auto simp: awaited_def)
  with assms(2) have "createLoadBalancer reports ws rs options topts timeout = Inr lb"
    by (simp add: createLoadBalancer_halves WaitUntilHealthy_def)
  then show thesis by (rule that)
qed

lemma awaited_valid: "awaited options topts lb \<Longrightarrow> lb_healthy lb \<Longrightarrow> valid_balancer lb"
  by (erule (1) awaited_created) (rule created_balancer(1))

lemma awaited_new: "newBalancer ws rs options topts = Inr lb \<Longrightarrow> awaited options topts lb"
  by (force simp: awaited_def intro: exI [of _ "[]"])

lemma awaited_report: "awaited options topts lb \<Longrightarrow> awaited options topts (health_report lb x)"
  unfolding awaited_def by (metis foldl_Cons foldl_Nil foldl_append)

lemma pending_ok_cong:
  assumes "ov_router v' = ov_router v" "ov_objects v' = ov_objects v" "ov_removed v' = ov_removed v"
  shows "pending_ok v' p = pending_ok v p"
  using assms by (cases p) (simp_all add: pointed_service_def)

text \<open>The list of waiting commands changes and nothing else.\<close>

lemma pending_change:
  assumes "ov_ok v" "\<And>p. p \<in> set ps \<Longrightarrow> pending_ok v p"
  shows "ov_ok (v\<lparr>ov_pending := ps\<rparr>)"
  using assms pending_ok_cong [of "v\<lparr>ov_pending := ps\<rparr>" v]
  by (simp add: ov_ok_def objects_ok_def removed_ok_def removed_apart_def)

lemma drop_pending_ok: "ov_ok v \<Longrightarrow> ov_ok (drop_pending i v)"
  unfolding drop_pending_def
  by (rule pending_change) (auto simp: ov_ok_def dest: in_set_takeD in_set_dropD)

lemma begin_deploy_ok: "ov_ok v \<Longrightarrow> begin_deploy name ws rs opts topts v = (err, v') \<Longrightarrow> ov_ok v'"
  by (auto simp: begin_deploy_def split: sum.splits intro!: pending_change awaited_new) (auto simp: ov_ok_def)

lemma begin_rollout_ok: "ov_ok v \<Longrightarrow> begin_rollout name ws rs v = (err, v') \<Longrightarrow> ov_ok v'"
  by (auto simp: begin_rollout_def split: sum.splits option.splits intro!: pending_change)
     (auto simp: ov_ok_def pointed_service_def dest: awaited_new)

lemma with_balancer_ok: "pending_ok v p \<Longrightarrow> pending_ok v (with_balancer (health_report (pending_balancer p) x) p)"
  by (cases p) (auto dest: awaited_report)

lemma report_ok: "ov_ok v \<Longrightarrow> ov_ok (report_health i x v)"
  unfolding report_health_def
  by (auto intro!: pending_change with_balancer_ok dest!: subsetD [OF set_update_subset_insert]) (auto simp: ov_ok_def)

text \<open>A command has changed the map; \<open>x\<close> is the service that it has taken out, if any.\<close>

definition taken_out :: "Overlap \<Rightarrow> Router \<Rightarrow> ((string \<times> nat) \<times> Service) option \<Rightarrow> bool" where
  "taken_out v r' x \<longleftrightarrow> (\<forall>n k s. x = Some ((n, k), s) \<longrightarrow> n \<notin> names r' \<and> ov_objects v n = Some k \<and> sv_name s = n \<and> saveable s
     \<and> channel_free (pause_of s) r' \<and> pause_of s \<in> pauses (ov_router v))"

lemma track_objects:
  "ov_objects (add_removed x (track r' v)) n = Some k \<longleftrightarrow> n \<in> names r' \<and>
     (ov_objects v n = Some k \<or> ov_objects v n = None \<and> k = ov_next v)"
  using Get_None_iff [of r' n] by (auto simp: track_def add_removed_def split: option.splits)

lemma track_removed:
  "ov_removed (add_removed x (track r' v)) a = Some s \<longleftrightarrow> x = Some (a, s) \<or> (\<forall>s. x \<noteq> Some (a, s)) \<and> ov_removed v a = Some s"
  by (auto simp: track_def add_removed_def split: option.splits)

lemma track_removed_ok:
  assumes ok: "ov_ok v" and free: "\<And>q. channel_free q (ov_router v) \<Longrightarrow> channel_free q r'" and x: "taken_out v r' x"
  shows "removed_ok (add_removed x (track r' v))" "removed_apart (add_removed x (track r' v))"
proof -
  from ok have o: "objects_ok v" and rm: "removed_ok v" and ap: "removed_apart v" by (simp_all add: ov_ok_def)
  have f: "ov_router (add_removed x (track r' v)) = r'" "ov_next (add_removed x (track r' v)) = Suc (ov_next v)"
    by (simp_all add: track_def add_removed_def)
  from o have lt: "ov_objects v n = Some k \<Longrightarrow> k < Suc (ov_next v)" for n k by (simp add: objects_ok_def less_SucI)
  show "removed_ok (add_removed x (track r' v))"
    unfolding removed_ok_def track_objects track_removed f
    using rm free x lt by (auto simp: removed_ok_def taken_out_def intro: less_SucI)
  have "held_channel (pause_of s) = None \<or> held_channel (pause_of s) \<noteq> held_channel (pause_of s')"
    if "ov_removed v a = Some s" "x = Some (b, s')" for a b s s'
  proof -
    from that rm x have "channel_free (pause_of s) (ov_router v)" "pause_of s' \<in> pauses (ov_router v)"
      by (cases a; cases b; simp add: removed_ok_def taken_out_def)+
    then show ?thesis by (auto simp: channel_free_def)
  qed
  with ap show "removed_apart (add_removed x (track r' v))"
    unfolding removed_apart_def track_removed by (metis option.inject prod.inject)
qed

lemma track_ok:
  assumes ok: "ov_ok v" and r': "rt_ok r'" and nm: "names (ov_router v) - (fst \<circ> fst) ` set_option x \<subseteq> names r'"
    and free: "\<And>q. channel_free q (ov_router v) \<Longrightarrow> channel_free q r'" and x: "taken_out v r' x"
  shows "ov_ok (add_removed x (track r' v))" (is "ov_ok ?v")
proof -
  from ok have o: "objects_ok v" by (simp add: ov_ok_def)
  note rm = track_removed_ok [OF ok free x]
  have f: "ov_router ?v = r'" "ov_pending ?v = ov_pending v" "ov_next ?v = Suc (ov_next v)"
    by (simp_all add: track_def add_removed_def)
  have "objects_ok ?v"
    using o track_objects [of x r' v] by (fastforce simp: objects_ok_def f intro: less_SucI)
  moreover have "pending_ok ?v p" if p: "pending_ok v p" for p
  proof (cases p)
    case (PendingRollout name k lb)
    have "pointed_service ?v name k \<noteq> None"
    proof (cases "ov_objects v name = Some k \<and> name \<in> names r'")
      case True
      with track_objects [of x r' v name k] Get_None_iff [of r' name] show ?thesis by (simp add: pointed_service_def f)
    next
      case False
      have "\<exists>s. ov_removed ?v (name, k) = Some s"
      proof (cases "ov_objects v name = Some k")
        case True
        with o have "name \<in> names (ov_router v)" by (metis objects_ok_def option.distinct(1))
        with True False nm obtain y where "x = Some y" "fst (fst y) = name" by auto
        with True x show ?thesis by (cases y) (auto simp: track_removed taken_out_def)
      next
        case False
        with p PendingRollout show ?thesis by (auto simp: track_removed pointed_service_def)
      qed
      with rm(1) show ?thesis by (auto simp: pointed_service_def removed_ok_def)
    qed
    with p PendingRollout show ?thesis by simp
  qed (use p in simp)
  ultimately show ?thesis using ok r' rm by (simp add: ov_ok_def f)
qed

lemma track_ok_kept:
  assumes "ov_ok v" "rt_ok r'" "names (ov_router v) \<subseteq> names r'" "\<And>q. channel_free q (ov_router v) \<Longrightarrow> channel_free q r'"
  shows "ov_ok (track r' v)"
  using track_ok [OF assms(1,2), of None] assms(3,4) by (simp add: taken_out_def add_removed_def)

text \<open>Commands and requests while others wait.\<close>

lemma named_kinds_dispose [simp]: "named_kinds (lb_all (Dispose lb)) = named_kinds (lb_all lb)"
  by (simp add: Dispose_def TargetList_StopHealthChecks_def StopHealthChecks_def named_kinds_def)

lemma valid_dispose [simp]: "valid_balancer (Dispose lb) = valid_balancer lb"
  by (rule valid_balancer_kinds) simp

lemma Dispose_kept:
  "saveable s \<Longrightarrow> Service_Dispose s = Returns s' \<Longrightarrow> saveable s' \<and> sv_name s' = sv_name s \<and> pause_of s' = pause_of s"
  by (auto simp: Service_Dispose_def saveable_def pause_of_def split: option.splits)

lemma RemoveService_result:
  assumes "rt_ok r" "ServiceMap_Get (r_services r) name = Some s" "RemoveService env name r = Returns (err, r')"
  shows "r_services r' = ServiceMap_Remove name (r_services r)" "r_channels r' = r_channels r"
  using assms(2,3) rt_okD(3) [OF assms(1) rt_ok_Get [OF assms(1,2)]]
  by (auto simp: RemoveService_def on_service_def Service_Dispose_def split: option.splits dest!: snapshot_frame)

lemma removed_by_Some:
  assumes "removed_by cmd v = Some ((n, k), s')"
  obtains s where "cmd = CmdRemove n" "ServiceMap_Get (r_services (ov_router v)) n = Some s" "Service_Dispose s = Returns s'"
    and "ov_objects v n = Some k"
  using assms that by (cases cmd) (auto simp: removed_by_def split: option.splits outcome.splits)

lemma removal_takes_out:
  assumes ok: "ov_ok v" and e: "exec env cmd (ov_router v) = Returns (err, r')"
  shows "taken_out v r' (removed_by cmd v)"
proof -
  from ok have rt: "rt_ok (ov_router v)" by (simp add: ov_ok_def)
  have "name \<notin> names r' \<and> sv_name s' = name \<and> saveable s' \<and> channel_free (pause_of s') r' \<and> pause_of s' \<in> pauses (ov_router v)"
    if c: "cmd = CmdRemove name" and s: "ServiceMap_Get (r_services (ov_router v)) name = Some s" "Service_Dispose s = Returns s'"
    for name s s'
  proof -
    note g = rt_ok_Get [OF rt s(1)] and d = rt_okD [OF rt rt_ok_Get [OF rt s(1)]]
    from e c have "RemoveService env name (ov_router v) = Returns (err, r')" by simp
    from RemoveService_result [OF rt s(1) this]
    have "names r' = names ((ov_router v)\<lparr>r_services := ServiceMap_Remove name (r_services (ov_router v))\<rparr>)"
      "channel_free (pause_of s) r'"
      using removed_free [OF rt g] by (simp_all add: names_def channel_free_def pauses_def)
    with Dispose_kept [OF d(1) s(2)] d(3) in_pauses [OF g] show ?thesis by (simp add: Remove_frame(2))
  qed
  note out = this
  show ?thesis
    unfolding taken_out_def
  proof (intro allI impI)
    fix n k s assume "removed_by cmd v = Some ((n, k), s)"
    then obtain s0 where "cmd = CmdRemove n" "ServiceMap_Get (r_services (ov_router v)) n = Some s0" "Service_Dispose s0 = Returns s"
      and k: "ov_objects v n = Some k" by (rule removed_by_Some)
    from out [OF this(1-3)] k show "n \<notin> names r' \<and> ov_objects v n = Some k \<and> sv_name s = n \<and> saveable s
      \<and> channel_free (pause_of s) r' \<and> pause_of s \<in> pauses (ov_router v)" by simp
  qed
qed

lemma run_meanwhile_ok:
  assumes ok: "ov_ok v" and "admissible env cmd (ov_router v)"
  shows "\<exists>err v'. run_meanwhile env cmd v = Returns (err, v') \<and> ov_ok v'"
proof -
  from ok have rt: "rt_ok (ov_router v)" and o: "objects_ok v" by (simp_all add: ov_ok_def)
  from exec_ok [OF rt assms(2)] obtain err r' where e: "exec env cmd (ov_router v) = Returns (err, r')" and r': "rt_ok r'" by blast
  have "n \<in> (fst \<circ> fst) ` set_option (removed_by cmd v)" if n: "n \<in> names (ov_router v)" "cmd = CmdRemove n" for n
  proof -
    from n(1) Get_None_iff [of "ov_router v" n] obtain s where s: "ServiceMap_Get (r_services (ov_router v)) n = Some s" by auto
    from saveable_active [OF rt_okD(1) [OF rt rt_ok_Get [OF rt s]]] obtain lb where "sv_active s = Some lb" ..
    moreover from o n(1) obtain k where "ov_objects v n = Some k" by (auto simp: objects_ok_def)
    ultimately show ?thesis using n(2) s by (simp add: removed_by_def Service_Dispose_def)
  qed
  with exec_names [OF rt e] have "names (ov_router v) - (fst \<circ> fst) ` set_option (removed_by cmd v) \<subseteq> names r'" by blast
  from track_ok [OF ok r' this exec_free [OF rt e] removal_takes_out [OF ok e]] e show ?thesis
    by (simp add: run_meanwhile_def)
qed

lemma serve_meanwhile_ok:
  assumes ok: "ov_ok v"
  shows "\<exists>a v'. serve_meanwhile env now rid req v = Returns (a, v') \<and> ov_ok v'"
proof -
  from ok have rt: "rt_ok (ov_router v)" by (simp add: ov_ok_def)
  from ServeHTTP_ok [OF rt] obtain a r' where r': "Router_ServeHTTP env now rid req (ov_router v) = Returns (a, r')" "rt_ok r'" by blast
  note k = request_frame [OF rt r'(1)]
  have "ov_ok (track r' v)"
    by (rule track_ok_kept [OF ok r'(2)]) (use k keeps_to_free [OF k] in \<open>auto simp: keeps_to_def\<close>)
  with r'(1) show ?thesis by (simp add: serve_meanwhile_def)
qed

text \<open>The second half of a deployment is a whole deployment at that moment, with the reports that have come.\<close>

lemma deploy_second_half:
  assumes "awaited (Normalize opts) topts lb" "lb_healthy lb"
  obtains reports ws rs where "\<And>v. finish_pending env (PendingDeploy name (Normalize opts) topts lb) v =
    bind_outcome (DeployService env reports name ws rs opts topts timeout (ov_router v)) (\<lambda>(err, r'). Returns (err, track r' v))"
proof -
  from awaited_created [OF assms] obtain reports ws rs where
    c: "createLoadBalancer reports ws rs (Normalize opts) topts timeout = Inr lb" by metis
  have "bind_outcome (bind_outcome m (\<lambda>x. Returns (finish_deploy x))) (\<lambda>(err, r'). Returns (err, track r' v)) =
      bind_outcome m (\<lambda>x. case finish_deploy x of (err, r') \<Rightarrow> Returns (err, track r' v))" for m v
    by (cases m) simp_all
  with c show thesis by (intro that [of reports ws rs]) (simp add: finish_pending_def DeployService_def Let_def)
qed

text \<open>A rollout finishes with the service that it points to, in the map or not.\<close>

lemma pointed_facts:
  assumes ok: "ov_ok v" and p: "pointed_service v name k = Some s"
  shows "sv_name s = name" "saveable s" "ctl_ok (pause_of s) (r_channels (ov_router v))"
    and "ov_objects v name \<noteq> Some k \<Longrightarrow> channel_free (pause_of s) (ov_router v)"
    and "ov_objects v name = Some k \<Longrightarrow> (name, s) \<in> set (sm_services (r_services (ov_router v)))"
proof -
  from ok have rt: "rt_ok (ov_router v)" and rm: "removed_ok v" by (simp_all add: ov_ok_def)
  show m: "(name, s) \<in> set (sm_services (r_services (ov_router v)))" if "ov_objects v name = Some k"
    using p that rt_ok_Get [OF rt] by (simp add: pointed_service_def)
  show f: "channel_free (pause_of s) (ov_router v)" if "ov_objects v name \<noteq> Some k"
    using p that rm by (auto simp: pointed_service_def removed_ok_def)
  have "sv_name s = name \<and> saveable s" if "ov_objects v name \<noteq> Some k"
    using p that rm by (auto simp: pointed_service_def removed_ok_def)
  with m f rt_okD [OF rt] show "sv_name s = name" "saveable s" "ctl_ok (pause_of s) (r_channels (ov_router v))"
    unfolding channel_free_def by blast+
qed

lemma pointed_apart:
  assumes ok: "ov_ok v" and p: "pointed_service v name k = Some s"
    and x: "(n, x) \<in> set (sm_services (r_services (ov_router v)))" "ov_objects v name = Some k \<longrightarrow> n \<noteq> name"
  shows "held_channel (pause_of x) = None \<or> held_channel (pause_of x) \<noteq> held_channel (pause_of s)"
proof (cases "ov_objects v name = Some k")
  case True
  with rt_okD(4) [OF _ x(1) pointed_facts(5) [OF ok p True]] ok x(2) show ?thesis by (simp add: ov_ok_def)
next
  case False
  from pointed_facts(4) [OF ok p False] in_pauses [OF x(1)] show ?thesis by (auto simp: channel_free_def)
qed

lemma Set_pauses:
  assumes "wf_map (sm_services (r_services r))"
  shows "pauses (r\<lparr>r_services := ServiceMap_Set s (r_services r)\<rparr>) \<subseteq>
    insert (pause_of s) (table_pauses (map_delete (sv_name s) (sm_services (r_services r))))"
proof -
  let ?t = "map_put (sv_name s) s (sm_services (r_services r))"
  have "pause_of x \<in> insert (pause_of s) (table_pauses (map_delete (sv_name s) (sm_services (r_services r))))"
    if "(n, x) \<in> set ?t" for n x
    using that unfolding set_map_put_iff [OF assms]
    by (cases "n = sv_name s") (force simp: table_pauses_def map_delete_def)+
  then have "table_pauses ?t \<subseteq> insert (pause_of s) (table_pauses (map_delete (sv_name s) (sm_services (r_services r))))"
    unfolding table_pauses_def [of ?t] by (intro image_subsetI) (metis imageE prod.collapse)
  with update_frame(1) [of "(r_services r)\<lparr>sm_services := ?t\<rparr>"] show ?thesis
    by (simp add: pauses_def ServiceMap_Set_def)
qed

lemma free_by:
  assumes "ctl_ok q (r_channels r)" "pauses r \<subseteq> insert p P" "held_channel q = None \<or> held_channel q \<noteq> held_channel p"
    and "\<And>p'. p' \<in> P \<Longrightarrow> held_channel q = None \<or> held_channel q \<noteq> held_channel p'"
  shows "channel_free q r"
  unfolding channel_free_def using assms by (metis insert_iff subsetD)

text \<open>The router once a service is back, and the channels that it leaves free.\<close>

lemma put_back_free:
  assumes ok: "ov_ok v" and p: "pointed_service v name k = Some s"
    and r': "r_channels r' = r_channels (ov_router v)"
      "pauses r' \<subseteq> insert (pause_of s) (table_pauses (map_delete name (sm_services (r_services (ov_router v)))))"
  shows "ov_removed v a = Some u \<Longrightarrow> a \<noteq> (name, k) \<Longrightarrow> channel_free (pause_of u) r'"
    and "ov_objects v name \<noteq> Some k \<Longrightarrow> (name, u) \<in> set (sm_services (r_services (ov_router v))) \<Longrightarrow> channel_free (pause_of u) r'"
proof -
  let ?r = "ov_router v"
  from ok have rt: "rt_ok ?r" and rm: "removed_ok v" and ap: "removed_apart v" by (simp_all add: ov_ok_def)
  have sub: "table_pauses (map_delete name (sm_services (r_services ?r))) \<subseteq> pauses ?r"
    by (auto simp: table_pauses_def pauses_def map_delete_def)
  show "channel_free (pause_of u) r'" if a: "ov_removed v a = Some u" "a \<noteq> (name, k)"
  proof -
    from a(1) rm have f: "channel_free (pause_of u) ?r" by (cases a) (simp add: removed_ok_def)
    have "held_channel (pause_of u) = None \<or> held_channel (pause_of u) \<noteq> held_channel (pause_of s)"
    proof (cases "ov_objects v name = Some k")
      case True
      from in_pauses [OF pointed_facts(5) [OF ok p True]] f show ?thesis by (auto simp: channel_free_def)
    next
      case False
      with p have "ov_removed v (name, k) = Some s" by (simp add: pointed_service_def)
      with a ap show ?thesis unfolding removed_apart_def by blast
    qed
    with f sub show ?thesis by (intro free_by [OF _ r'(2)]) (auto simp: channel_free_def r'(1))
  qed
  show "channel_free (pause_of u) r'" if u: "ov_objects v name \<noteq> Some k" "(name, u) \<in> set (sm_services (r_services ?r))"
  proof -
    have "held_channel (pause_of u) = None \<or> held_channel (pause_of u) \<noteq> held_channel q"
      if "q \<in> table_pauses (map_delete name (sm_services (r_services ?r)))" for q
      using that rt_okD(4) [OF rt u(2)] by (force simp: table_pauses_def map_delete_def)
    with pointed_apart [OF ok p u(2)] u(1) rt_okD(2) [OF rt u(2)] show ?thesis
      by (intro free_by [OF _ r'(2)]) (simp_all add: r'(1))
  qed
qed

lemma put_back_removed:
  "ov_removed (put_back name k r' v) a = Some u \<longleftrightarrow> a \<noteq> (name, k) \<and>
     (if fst a = name \<and> ov_objects v name = Some (snd a) then ServiceMap_Get (r_services (ov_router v)) name = Some u
      else ov_removed v a = Some u)"
  by (cases a) (auto simp: put_back_def split: option.splits)

lemma put_back_fields [simp]:
  "ov_router (put_back name k r' v) = r'" "ov_next (put_back name k r' v) = ov_next v"
  "ov_objects (put_back name k r' v) = (ov_objects v)(name \<mapsto> k)" "ov_pending (put_back name k r' v) = ov_pending v"
  by (simp_all add: put_back_def)

lemma put_back_entry:
  assumes ok: "ov_ok v" and p: "pointed_service v name k = Some s"
    and r': "r_channels r' = r_channels (ov_router v)"
      "pauses r' \<subseteq> insert (pause_of s) (table_pauses (map_delete name (sm_services (r_services (ov_router v)))))"
    and a: "ov_removed (put_back name k r' v) (n, j) = Some u"
  shows "sv_name u = n \<and> saveable u \<and> channel_free (pause_of u) r' \<and> j < ov_next v \<and> ((ov_objects v)(name \<mapsto> k)) n \<noteq> Some j"
proof -
  let ?r = "ov_router v"
  from ok have rt: "rt_ok ?r" and o: "objects_ok v" and rm: "removed_ok v" by (simp_all add: ov_ok_def)
  note free = put_back_free [OF ok p r']
  show ?thesis
  proof (cases "n = name \<and> ov_objects v name = Some j")
    case True
    with a have g: "ServiceMap_Get (r_services ?r) name = Some u" and "j \<noteq> k" by (simp_all add: put_back_removed)
    note m = rt_ok_Get [OF rt g]
    from True \<open>j \<noteq> k\<close> free(2) [OF _ m] rt_okD(1,3) [OF rt m] o show ?thesis by (auto simp: objects_ok_def)
  next
    case False
    with a have "ov_removed v (n, j) = Some u" "(n, j) \<noteq> (name, k)" by (auto simp: put_back_removed)
    with free(1) rm show ?thesis by (auto simp: removed_ok_def)
  qed
qed

lemma put_back_apart:
  assumes ok: "ov_ok v"
  shows "removed_apart (put_back name k r' v)"
  unfolding removed_apart_def
proof (intro allI impI)
  fix a b w w' assume w: "ov_removed (put_back name k r' v) a = Some w" "ov_removed (put_back name k r' v) b = Some w'" "a \<noteq> b"
  from ok have rm: "removed_ok v" and ap: "removed_apart v" by (simp_all add: ov_ok_def)
  have old: "ov_removed v c = Some u \<Longrightarrow> channel_free (pause_of u) (ov_router v)" for c u
    using rm by (cases c) (simp add: removed_ok_def)
  have src: "ov_removed v c = Some u \<or> pause_of u \<in> pauses (ov_router v)"
    if "ov_removed (put_back name k r' v) c = Some u" for c u
    using that by (auto simp: put_back_removed dest: Get_in_pauses split: if_splits)
  from w have "ov_removed v a = Some w \<or> ov_removed v b = Some w'"
    by (cases a; cases b) (auto simp: put_back_removed split: if_splits)
  with src [OF w(1)] src [OF w(2)] old w(3) ap
  show "held_channel (pause_of w) = None \<or> held_channel (pause_of w) \<noteq> held_channel (pause_of w')"
    unfolding removed_apart_def channel_free_def by metis
qed

lemma put_back_ok:
  assumes ok: "ov_ok v" and p: "pointed_service v name k = Some s" and rt': "rt_ok r'"
    and nm: "names r' = insert name (names (ov_router v))" and k: "k < ov_next v"
    and r': "r_channels r' = r_channels (ov_router v)"
      "pauses r' \<subseteq> insert (pause_of s) (table_pauses (map_delete name (sm_services (r_services (ov_router v)))))"
  shows "ov_ok (put_back name k r' v)" (is "ov_ok ?v")
proof -
  have rm: "removed_ok ?v"
    unfolding removed_ok_def using put_back_entry [OF ok p r'] by simp
  from ok have o: "objects_ok v" by (simp add: ov_ok_def)
  then have "objects_ok ?v" using nm k by (auto simp: objects_ok_def)
  moreover have "pending_ok ?v q" if q: "pending_ok v q" for q
  proof (cases q)
    case (PendingRollout n j lb)
    have "pointed_service ?v n j \<noteq> None"
    proof (cases "ov_objects ?v n = Some j")
      case True
      with \<open>objects_ok ?v\<close> have "n \<in> names r'" unfolding objects_ok_def put_back_fields by (metis option.distinct(1))
      with True Get_None_iff [of r' n] show ?thesis unfolding pointed_service_def put_back_fields by simp
    next
      case False
      then have "(n, j) \<noteq> (name, k)" by auto
      moreover from False q PendingRollout obtain u where "if n = name \<and> ov_objects v name = Some j
          then ServiceMap_Get (r_services (ov_router v)) name = Some u else ov_removed v (n, j) = Some u"
        by (auto simp: pointed_service_def split: if_splits)
      ultimately have "ov_removed ?v (n, j) = Some u" by (simp add: put_back_removed)
      with False show ?thesis unfolding pointed_service_def by simp
    qed
    with q PendingRollout show ?thesis by simp
  qed (use q in simp)
  ultimately show ?thesis using ok rt' rm put_back_apart [OF ok] by (simp add: ov_ok_def)
qed

lemma overlap_saved_ok: "ov_ok v \<Longrightarrow> ov_ok (v\<lparr>ov_router := (ov_router v)\<lparr>r_saved := x\<rparr>\<rparr>)"
proof -
  let ?v = "v\<lparr>ov_router := (ov_router v)\<lparr>r_saved := x\<rparr>\<rparr>"
  have "pending_ok ?v p = pending_ok v p" for p by (cases p) (simp_all add: pointed_service_def)
  then show "ov_ok v \<Longrightarrow> ov_ok ?v"
    by (simp add: ov_ok_def objects_ok_def removed_ok_def removed_apart_def channel_free_def)
qed

lemma finish_rollout_ok:
  assumes ok: "ov_ok v" and p: "pointed_service v name k = Some s" and lb: "valid_balancer lb"
  shows "\<exists>err v'. finish_rollout env name k lb s v = Returns (err, v') \<and> ov_ok v'"
proof (cases "CheckAvailability (r_services (ov_router v)) name (sv_options s)")
  case free: None
  let ?r = "ov_router v" and ?s = "s\<lparr>sv_rollout := Some lb\<rparr>"
  from ok have rt: "rt_ok ?r" and o: "objects_ok v" "removed_ok v" by (simp_all add: ov_ok_def)
  note f = pointed_facts [OF ok p]
  have ps: "pause_of ?s = pause_of s" by (simp add: pause_of_def)
  have rt': "rt_ok (?r\<lparr>r_services := ServiceMap_Set ?s (r_services ?r)\<rparr>)"
  proof (rule Set_rt_ok_apart [OF rt])
    fix n x assume "(n, x) \<in> set (sm_services (r_services ?r))" "n \<noteq> sv_name ?s"
    with pointed_apart [OF ok p] f(1) ps
    show "held_channel (pause_of x) = None \<or> held_channel (pause_of ?s) \<noteq> held_channel (pause_of x)" by fastforce
  qed (use f ps free lb in \<open>simp_all add: saveable_def\<close>)
  have u: "UpdateLoadBalancer lb TargetSlotRollout s = (sv_rollout s, ?s)" by (simp add: UpdateLoadBalancer_def)
  let ?get = "\<lambda>r' :: Router. (Inr s :: Service result, r')"
  from install_returns [where env = env and getService = ?get, OF free refl u rt'] obtain x where
    i: "installLoadBalancer env name TargetSlotRollout lb (sv_options s) ?get ?r =
      Returns (Inr (sv_rollout s), ?r\<lparr>r_services := ServiceMap_Set ?s (r_services ?r), r_saved := x\<rparr>)" by blast
  let ?r' = "retire (sv_rollout s) (?r\<lparr>r_services := ServiceMap_Set ?s (r_services ?r), r_saved := x\<rparr>)"
  have "k < ov_next v" using p o by (auto simp: pointed_service_def objects_ok_def removed_ok_def split: if_splits)
  moreover have "wf_map (sm_services (r_services ?r))" using rt by (simp add: rt_ok_def sm_ok_def)
  from Set_pauses [OF this, of ?s] have "pauses ?r' \<subseteq>
      insert (pause_of s) (table_pauses (map_delete name (sm_services (r_services ?r))))" using f(1) ps by (simp add: pauses_def)
  moreover have "names ?r' = insert name (names ?r)" using Set_frame(2) [where r = ?r and s = ?s] f(1) by (simp add: names_def)
  ultimately have "ov_ok (put_back name k ?r' v)" using rt' by (intro put_back_ok [OF ok p]) simp_all
  with i show ?thesis by (simp add: finish_rollout_def finish_deploy_def)
next
  case (Some c)
  let ?get = "\<lambda>r' :: Router. (Inr s :: Service result, r')"
  from ok Some install_refused [where env = env and getService = ?get and name = name and options = "sv_options s" and r = "ov_router v"]
  obtain err' x where "installLoadBalancer env name TargetSlotRollout lb (sv_options s) ?get (ov_router v) =
    Returns (Inl err', (ov_router v)\<lparr>r_saved := x\<rparr>)" by (metis ov_ok_def option.distinct(1))
  with overlap_saved_ok [OF ok] show ?thesis by (simp add: finish_rollout_def finish_deploy_def)
qed

lemma finish_pending_ok:
  assumes ok: "ov_ok v" and p: "pending_ok v p" and h: "lb_healthy (pending_balancer p)" and c: "can_finish env p v"
  shows "\<exists>err v'. finish_pending env p v = Returns (err, v') \<and> ov_ok v'"
proof (cases p)
  case (PendingDeploy name options topts lb)
  with p h obtain opts where o: "options = Normalize opts" "awaited (Normalize opts) topts lb" "lb_healthy lb" by auto
  from deploy_second_half [OF o(2,3)] obtain reports ws rs where d: "\<And>v. finish_pending env p v =
    bind_outcome (DeployService env reports name ws rs opts topts 0 (ov_router v)) (\<lambda>(err, r'). Returns (err, track r' v))"
    unfolding PendingDeploy o(1) by metis
  from ok have rt: "rt_ok (ov_router v)" by (simp add: ov_ok_def)
  from c PendingDeploy o have "ServiceMap_Get (r_services (ov_router v)) name = None \<or> options_load env (Normalize opts)" by simp
  from DeployService_ok [OF rt this] obtain err r' where
    r': "DeployService env reports name ws rs opts topts 0 (ov_router v) = Returns (err, r')" "rt_ok r'" by blast
  note k = deploy_keeps_to [OF r'(1)]
  have "ov_ok (track r' v)"
    by (rule track_ok_kept [OF ok r'(2)]) (use k deploy_free [OF k] in \<open>auto simp: keeps_to_def\<close>)
  with d r'(1) show ?thesis by simp
next
  case (PendingRollout name k lb)
  with p h obtain s where "pointed_service v name k = Some s" "valid_balancer lb" by (auto dest: awaited_valid)
  with finish_rollout_ok [OF ok this] PendingRollout show ?thesis by (simp add: finish_pending_def)
qed

lemma end_wait_ok:
  assumes ok: "ov_ok v" and i: "i < length (ov_pending v)" and c: "can_finish env (ov_pending v ! i) v"
  shows "\<exists>err v'. end_wait env i timeout v = Returns (err, v') \<and> ov_ok v'"
proof (cases "lb_healthy (pending_balancer (ov_pending v ! i))")
  case True
  from ok i have "pending_ok v (ov_pending v ! i)" by (simp add: ov_ok_def)
  moreover have "pending_ok (drop_pending i v) p = pending_ok v p" for p
    by (rule pending_ok_cong) (simp_all add: drop_pending_def)
  ultimately have "pending_ok (drop_pending i v) (ov_pending v ! i)" by simp
  moreover from c have "can_finish env (ov_pending v ! i) (drop_pending i v)"
    by (cases "ov_pending v ! i") (simp_all add: drop_pending_def)
  ultimately show ?thesis using finish_pending_ok [OF drop_pending_ok [OF ok] _ True] True
    by (simp add: end_wait_def WaitUntilHealthy_def)
qed (use drop_pending_ok [OF ok] in \<open>simp add: end_wait_def WaitUntilHealthy_def\<close>)

lemma overlap_step_ok: "overlap_step v v' \<Longrightarrow> ov_ok v \<Longrightarrow> ov_ok v'"
proof (induction rule: overlap_step.induct)
  case (ov_end_wait i v env timeout err v')
  with end_wait_ok [of v i env timeout] show ?case by auto
next
  case (ov_command env cmd v err v')
  with run_meanwhile_ok [of v env cmd] show ?case by auto
next
  case (ov_request env now rid req v a v')
  with serve_meanwhile_ok [of v env now rid req] show ?case by auto
qed (auto intro: begin_deploy_ok begin_rollout_ok report_ok)

lemma overlap_start_ok: "overlap_start v \<Longrightarrow> ov_ok v"
proof -
  have "names (NewRouter saved) = {}" for saved by (simp add: names_def NewRouter_def NewServiceMap_def keys_def)
  then show "overlap_start v \<Longrightarrow> ov_ok v"
    by (auto simp: overlap_start_def ov_ok_def new_overlap_def new_rt_ok objects_ok_def removed_ok_def removed_apart_def)
qed

interpretation overlapping: kept_invariant overlap_start overlap_step ov_ok
  by unfold_locales (auto intro: overlap_start_ok overlap_step_ok)


subsection \<open>Deployments take effect at once\<close>

text \<open>As long as no rollout waits, each step is one of the router of \<open>Routers\<close>, or leaves it alone.\<close>

primrec is_deploy :: "pending \<Rightarrow> bool" where
  "is_deploy (PendingDeploy name options topts lb) = True"
| "is_deploy (PendingRollout name k lb) = False"

definition deploy_step :: "Overlap \<Rightarrow> Overlap \<Rightarrow> bool" where
  "deploy_step v v' \<longleftrightarrow> overlap_step v v' \<and> list_all is_deploy (ov_pending v')"

lemma end_wait_simulated:
  assumes ok: "ov_ok v" and i: "i < length (ov_pending v)" "is_deploy (ov_pending v ! i)" "can_finish env (ov_pending v ! i) v"
    and e: "end_wait env i timeout v = Returns (err, v')"
  shows "ov_router v' = ov_router v \<or> router_step (ov_router v) (ov_router v')"
proof (cases "lb_healthy (pending_balancer (ov_pending v ! i))")
  case True
  from i(2) obtain name options topts lb where p: "ov_pending v ! i = PendingDeploy name options topts lb"
    by (cases "ov_pending v ! i") auto
  from ok i(1) have "pending_ok v (ov_pending v ! i)" by (simp add: ov_ok_def)
  with p True obtain opts where o: "options = Normalize opts" "awaited (Normalize opts) topts lb" "lb_healthy lb" by auto
  from deploy_second_half [OF o(2,3)] obtain reports ws rs where "\<And>u. finish_pending env (ov_pending v ! i) u =
    bind_outcome (DeployService env reports name ws rs opts topts 0 (ov_router u)) (\<lambda>(err, r'). Returns (err, track r' u))"
    unfolding p o(1) by metis
  with e True have "exec env (CmdDeploy reports name ws rs opts topts 0) (ov_router v) = Returns (err, ov_router v')"
    by (auto simp: end_wait_def WaitUntilHealthy_def drop_pending_def track_def)
  moreover from i(3) p o(1) have "admissible env (CmdDeploy reports name ws rs opts topts 0) (ov_router v)" by simp
  ultimately show ?thesis by (blast intro: router_step.router_command)
qed (use e in \<open>simp add: end_wait_def WaitUntilHealthy_def drop_pending_def, auto\<close>)

lemma overlap_simulated:
  assumes "overlap_step v v'" "ov_ok v" "list_all is_deploy (ov_pending v)"
  shows "ov_router v' = ov_router v \<or> router_step (ov_router v) (ov_router v')"
  using assms
proof (induction rule: overlap_step.induct)
  case (ov_end_wait i v env timeout err v')
  then show ?case by (intro end_wait_simulated [of v i env timeout err]) (simp_all add: list_all_length)
next
  case (ov_command env cmd v err v')
  from ov_command.hyps(2) have "exec env cmd (ov_router v) = Returns (err, ov_router v')"
    by (auto simp: run_meanwhile_def add_removed_def track_def)
  with ov_command.hyps(1) show ?case by (blast intro: router_step.router_command)
next
  case (ov_request env now rid req v a v')
  then have "Router_ServeHTTP env now rid req (ov_router v) = Returns (a, ov_router v')"
    by (auto simp: serve_meanwhile_def track_def)
  then show ?case by (blast intro: router_step.router_request)
qed (auto simp: begin_deploy_def begin_rollout_def report_health_def split: sum.splits option.splits)

definition linear :: "Overlap \<Rightarrow> bool" where
  "linear v \<longleftrightarrow> ov_ok v \<and> list_all is_deploy (ov_pending v) \<and> reach router_start router_step (ov_router v)"

interpretation deploying: kept_invariant overlap_start deploy_step linear
proof unfold_locales
  show "linear v" if "overlap_start v" for v
    using that overlap_start_ok [OF that]
    by (auto simp: linear_def overlap_start_def new_overlap_def router_start_def intro!: reach.reach_start)
  show "linear v'" if "linear v" "deploy_step v v'" for v v'
    using that overlap_step_ok [of v v'] overlap_simulated [of v v']
    by (auto simp: linear_def deploy_step_def intro: reach.reach_step)
qed


subsection \<open>A rollout that outlives its service\<close>

definition overlap_after :: "('a \<times> Overlap) outcome \<Rightarrow> Overlap" where
  "overlap_after x = (case x of Returns (_, v) \<Rightarrow> v | Panics _ \<Rightarrow> new_overlap None)"

definition ov_first :: command where
  "ov_first = CmdDeploy [(0, True), (1, True)] ''web'' [''web-1'', ''web-2''] [] ex_web_options example_options 30"

definition ov_replace :: command where
  "ov_replace = CmdDeploy [(0, True), (1, True)] ''web'' [''web-4'', ''web-5''] [] ex_web_options example_options 30"

definition ov_waiting :: Overlap where
  "ov_waiting = report_health 0 (0, True) (snd (begin_rollout ''web'' [''web-3''] []
     (overlap_after (run_meanwhile example_environment ov_first (new_overlap None)))))"

definition ov_without :: Overlap where
  "ov_without = overlap_after (run_meanwhile example_environment (CmdRemove ''web'') ov_waiting)"

definition ov_replaced :: Overlap where
  "ov_replaced = overlap_after (run_meanwhile example_environment ov_replace ov_without)"

definition active_targets :: "Overlap \<Rightarrow> string \<Rightarrow> (string \<times> bool) list option" where
  "active_targets v name = Option.bind (ServiceMap_Get (r_services (ov_router v)) name)
     (\<lambda>s. map_option (\<lambda>lb. map (\<lambda>t. (t_address t, t_healthcheck t)) (lb_all lb)) (sv_active s))"


subsection \<open>Examples\<close>

lemma command_reached:
  assumes "reach overlap_start overlap_step v" "admissible env cmd (ov_router v)"
  shows "reach overlap_start overlap_step (overlap_after (run_meanwhile env cmd v))"
proof -
  from run_meanwhile_ok [OF overlapping.reach_inv [OF assms(1)] assms(2)] obtain err v' where
    r: "run_meanwhile env cmd v = Returns (err, v')" by blast
  with reach.reach_step [OF assms(1) ov_command [OF assms(2) r]] show ?thesis by (simp add: overlap_after_def)
qed

lemma ov_waiting_reached: "reach overlap_start overlap_step ov_waiting"
proof -
  have "reach overlap_start overlap_step (new_overlap None)"
    by (rule reach.reach_start) (auto simp: overlap_start_def)
  then have "reach overlap_start overlap_step (overlap_after (run_meanwhile example_environment ov_first (new_overlap None)))"
    by (rule command_reached) code_simp
  from reach.reach_step [OF this ov_begin_rollout [OF surjective_pairing]]
  have "reach overlap_start overlap_step (snd (begin_rollout ''web'' [''web-3''] []
    (overlap_after (run_meanwhile example_environment ov_first (new_overlap None)))))" .
  then show ?thesis unfolding ov_waiting_def by (rule reach.reach_step) (rule ov_report)
qed

lemma ov_replaced_reached: "reach overlap_start overlap_step ov_replaced"
proof -
  have "reach overlap_start overlap_step ov_without"
    unfolding ov_without_def by (rule command_reached [OF ov_waiting_reached]) simp
  then show ?thesis unfolding ov_replaced_def by (rule command_reached) code_simp
qed


text \<open>Two deployments of one service: the one that began first waits longer, and is installed last.\<close>

definition ov_begun :: Overlap where
  "ov_begun = snd (begin_deploy ''web'' [''web-1''] [] ex_web_options example_options (new_overlap None))"

definition ov_second :: Overlap where
  "ov_second = report_health 0 (0, True) (overlap_after (run_meanwhile example_environment ov_replace ov_begun))"

lemma deploy_reached:
  "reach overlap_start deploy_step v \<Longrightarrow> overlap_step v v' \<Longrightarrow> list_all is_deploy (ov_pending v') \<Longrightarrow>
   reach overlap_start deploy_step v'"
  by (blast intro: reach.reach_step deploy_step_def [THEN iffD2])

lemma ov_second_reached: "reach overlap_start deploy_step ov_second"
proof -
  let ?v = "overlap_after (run_meanwhile example_environment ov_replace ov_begun)"
  have p: "admissible example_environment ov_replace (ov_router ov_begun)"
    "returns (run_meanwhile example_environment ov_replace ov_begun)" by code_simp+
  have "reach overlap_start deploy_step (new_overlap None)"
    by (rule reach.reach_start) (auto simp: overlap_start_def)
  moreover have "overlap_step (new_overlap None) ov_begun"
    unfolding ov_begun_def by (rule ov_begin_deploy [OF surjective_pairing])
  ultimately have "reach overlap_start deploy_step ov_begun" by (rule deploy_reached) code_simp
  moreover have "overlap_step ov_begun ?v"
    using p(2) ov_command [OF p(1)] by (auto simp: returns_iff overlap_after_def)
  ultimately have "reach overlap_start deploy_step ?v" by (rule deploy_reached) code_simp
  moreover have "overlap_step ?v ov_second" unfolding ov_second_def by (rule ov_report)
  ultimately show ?thesis by (rule deploy_reached) code_simp
qed


end
