(* ===== verification/Proxying.thy ===== *)
theory Proxying
  imports HttpChain
begin

section \<open>The proxied exchange\<close>

text \<open>
  Models the proxying half of \<open>internal/server/target.go\<close>: the handler that \<open>NewTarget\<close> composes (request
  buffer, response buffer, reverse proxy), the rewriting of the request, the mapping of errors to
  responses, \<open>targetResponseWriter\<close> and \<open>SendRequest\<close>, with the part of \<open>httputil.ReverseProxy\<close> that they
  use. What the target answers is an argument: a function of the request and the body it gets.
\<close>

subsection \<open>The outgoing request\<close>

record OutRequest =
  out_Method :: string
  out_URLHost :: string
  out_Path :: string
  out_RawQuery :: string
  out_Host :: string
  out_Header :: Header

text \<open>Headers of a connection, which \<open>httputil.ReverseProxy\<close> does not pass on, and the tokens of a header.\<close>

definition is_space_byte :: "byte \<Rightarrow> bool" where
  "is_space_byte c \<longleftrightarrow> c \<in> {CHR '' '', CHR 0x09, CHR 0x0A, CHR 0x0D}"

definition TrimString :: "string \<Rightarrow> string" where
  "TrimString s = rev (dropWhile is_space_byte (rev (dropWhile is_space_byte s)))"

definition header_tokens :: "string list \<Rightarrow> string list" where
  "header_tokens vs = filter (\<lambda>s. s \<noteq> []) (concat (map (\<lambda>v. map TrimString (SplitByte (CHR '','') v)) vs))"

definition containsToken :: "string list \<Rightarrow> string \<Rightarrow> bool" where
  "containsToken vs token \<longleftrightarrow> list_ex (\<lambda>s. ToLower s = ToLower token) (header_tokens vs)"

definition hopHeaders :: "string list" where
  "hopHeaders = [''Connection'', ''Proxy-Connection'', ''Keep-Alive'', ''Proxy-Authenticate'', ''Proxy-Authorization'',
     ''Te'', ''Trailer'', ''Transfer-Encoding'', ''Upgrade'']"

definition removeHopByHopHeaders :: "Header \<Rightarrow> Header" where
  "removeHopByHopHeaders h =
     (\<lambda>k. if k \<in> set (map CanonicalHeaderKey (header_tokens (h ''Connection''))) \<or> k \<in> set hopHeaders then [] else h k)"

definition upgradeType :: "Header \<Rightarrow> string" where
  "upgradeType h = (if containsToken (h ''Connection'') ''Upgrade'' then Header_Get h ''Upgrade'' else [])"

definition is_print :: "string \<Rightarrow> bool" where
  "is_print s = list_all (\<lambda>c. let n = of_char c :: nat in 32 \<le> n \<and> n \<le> 126) s"

text \<open>The copy of the request that \<open>Rewrite\<close> is given: without the headers of the connection, except a
  protocol upgrade, and without the client's forwarding headers.\<close>

definition strip_forwarding :: "Header \<Rightarrow> Header" where
  "strip_forwarding h = h(''Forwarded'' := [], ''X-Forwarded-For'' := [], ''X-Forwarded-Host'' := [],
     ''X-Forwarded-Proto'' := [])"

definition outgoing :: "Request \<Rightarrow> OutRequest" where
  "outgoing r =
     (let h = rq_Header r; reqUpType = upgradeType h;
          h1 = removeHopByHopHeaders h;
          h2 = (if containsToken (h ''Te'') ''trailers'' then Header_Set h1 ''Te'' ''trailers'' else h1);
          h3 = (if reqUpType \<noteq> [] then Header_Set (Header_Set h2 ''Connection'' ''Upgrade'') ''Upgrade'' reqUpType else h2)
      in \<lparr>out_Method = rq_Method r, out_URLHost = [], out_Path = rq_Path r, out_RawQuery = rq_RawQuery r,
          out_Host = rq_Host r, out_Header = strip_forwarding h3\<rparr>)"

text \<open>\<open>SetXForwarded\<close> sets the forwarding headers from the connection.\<close>

definition SetXForwarded :: "Request \<Rightarrow> Header \<Rightarrow> Header" where
  "SetXForwarded r h =
     (let h1 = (case SplitHostPort (rq_RemoteAddr r) of
            Some (clientIP, _) \<Rightarrow>
              (let prior = h ''X-Forwarded-For''
               in Header_Set h ''X-Forwarded-For''
                    (if length prior > 0 then Join prior '', '' @ '', '' @ clientIP else clientIP))
          | None \<Rightarrow> Header_Del h ''X-Forwarded-For'');
          h2 = Header_Set h1 ''X-Forwarded-Host'' (rq_Host r)
      in Header_Set h2 ''X-Forwarded-Proto'' (if rq_TLS r then ''https'' else ''http''))"

definition forwardHeaders :: "TargetOptions \<Rightarrow> Request \<Rightarrow> Header \<Rightarrow> Header" where
  "forwardHeaders opts r out =
     (let out1 = (if to_ForwardHeaders opts
                  then out(''X-Forwarded-For'' := rq_Header r ''X-Forwarded-For'') else out);
          out2 = SetXForwarded r out1
      in if to_ForwardHeaders opts then
           (let out3 = (if Header_Get (rq_Header r) ''X-Forwarded-Proto'' \<noteq> []
                        then Header_Set out2 ''X-Forwarded-Proto'' (Header_Get (rq_Header r) ''X-Forwarded-Proto'')
                        else out2)
            in if Header_Get (rq_Header r) ''X-Forwarded-Host'' \<noteq> []
               then Header_Set out3 ''X-Forwarded-Host'' (Header_Get (rq_Header r) ''X-Forwarded-Host'')
               else out3)
         else out2)"

text \<open>\<open>SetURL\<close> joins the target's empty path with the request's path (\<open>singleJoiningSlash\<close>).\<close>

definition joined_path :: "string \<Rightarrow> string" where
  "joined_path p = (if HasPrefix p ''/'' then p else ''/'' @ p)"

definition rewrite :: "Target \<Rightarrow> Request \<Rightarrow> OutRequest \<Rightarrow> OutRequest" where
  "rewrite t r out =
     (let hdr = forwardHeaders (t_options t) r (out_Header out);
          path = joined_path (out_Path out);
          path' = (case rq_MatchedPrefix r of None \<Rightarrow> path | Some p \<Rightarrow> TrimPrefix path p)
      in out\<lparr>out_URLHost := t_address t, out_Path := path', out_RawQuery := rq_RawQuery r,
          out_Host := rq_Host r, out_Header := hdr\<rparr>)"

text \<open>The request as it is sent: \<open>ReverseProxy\<close> adds an empty \<open>User-Agent\<close> when there is none.\<close>

definition sent_request :: "Target \<Rightarrow> Request \<Rightarrow> OutRequest" where
  "sent_request t r =
     (let out = rewrite t r (outgoing r)
      in if out_Header out ''User-Agent'' = [] then out\<lparr>out_Header := Header_Set (out_Header out) ''User-Agent'' []\<rparr> else out)"

text \<open>The errors a proxied request ends with, as \<open>errors.As\<close> and \<open>errors.Is\<close> see them: a body over
  the limit, a \<open>net.Error\<close> with its \<open>Timeout()\<close>, a cancelled context, a drain, anything else.\<close>

record ProxyError =
  pe_maxBytes :: bool
  pe_netErrorTimeout :: "bool option"
  pe_contextCanceled :: bool
  pe_draining :: bool

definition isGatewayTimeout :: "ProxyError \<Rightarrow> bool" where
  "isGatewayTimeout err = (case pe_netErrorTimeout err of Some b \<Rightarrow> b | None \<Rightarrow> False)"

text \<open>The status, and whether it is an error response (\<open>SetErrorResponse\<close>) or a bare header.\<close>

definition StatusClientClosedRequest :: int where
  "StatusClientClosedRequest = 499"

definition handleProxyError :: "ProxyError \<Rightarrow> int \<times> bool" where
  "handleProxyError err =
     (if pe_maxBytes err then (413, True)
      else if isGatewayTimeout err then (504, True)
      else if pe_contextCanceled err then (StatusClientClosedRequest, False)
      else if pe_draining err then (504, True)
      else (502, True))"

lemma outgoing_stripped:
  "out_Header (outgoing r) ''X-Forwarded-For'' = []" "out_Header (outgoing r) ''Forwarded'' = []"
proof -
  have "\<exists>h. out_Header (outgoing r) = strip_forwarding h" by (simp add: outgoing_def Let_def) blast
  then show "out_Header (outgoing r) ''X-Forwarded-For'' = []" "out_Header (outgoing r) ''Forwarded'' = []"
    by (auto simp: strip_forwarding_def)
qed

lemma sent_request_fields:
  "out_URLHost (sent_request t r) = t_address t" "out_Host (sent_request t r) = rq_Host r"
  "out_RawQuery (sent_request t r) = rq_RawQuery r"
  "k \<noteq> ''User-Agent'' \<Longrightarrow>
     out_Header (sent_request t r) k = forwardHeaders (t_options t) r (out_Header (outgoing r)) k"
  by (simp_all add: sent_request_def rewrite_def Let_def Header_Set_def)

lemma forwardHeaders_cases:
  assumes "SplitHostPort (rq_RemoteAddr r) = Some (ip, port)" "h ''X-Forwarded-For'' = []"
  shows "forwardHeaders opts r h ''X-Forwarded-For'' =
           [if to_ForwardHeaders opts \<and> rq_Header r ''X-Forwarded-For'' \<noteq> []
            then Join (rq_Header r ''X-Forwarded-For'') '', '' @ '', '' @ ip else ip]"
    "forwardHeaders opts r h ''X-Forwarded-Proto'' =
       [if to_ForwardHeaders opts \<and> Header_Get (rq_Header r) ''X-Forwarded-Proto'' \<noteq> []
        then Header_Get (rq_Header r) ''X-Forwarded-Proto'' else if rq_TLS r then ''https'' else ''http'']"
    "forwardHeaders opts r h ''X-Forwarded-Host'' =
       [if to_ForwardHeaders opts \<and> Header_Get (rq_Header r) ''X-Forwarded-Host'' \<noteq> []
        then Header_Get (rq_Header r) ''X-Forwarded-Host'' else rq_Host r]"
    "k \<notin> {''X-Forwarded-For'', ''X-Forwarded-Proto'', ''X-Forwarded-Host''} \<Longrightarrow> forwardHeaders opts r h k = h k"
  using assms by (auto simp: forwardHeaders_def SetXForwarded_def Header_Set_def Let_def)


subsection \<open>Response writers of a target\<close>

text \<open>\<open>targetResponseWriter\<close>; \<open>tw_hijacked\<close> is the flag of the in-flight request it points to.\<close>

record 'w targetResponseWriter =
  tw_inner :: 'w
  tw_hijacked :: bool

definition newTargetResponseWriter :: "'w \<Rightarrow> inflightRequest option \<Rightarrow> 'w targetResponseWriter" where
  "newTargetResponseWriter w i = \<lparr>tw_inner = w, tw_hijacked = (case i of None \<Rightarrow> False | Some r \<Rightarrow> if_hijacked r)\<rparr>"

definition tw_Hijack :: "'w writer_ops \<Rightarrow> 'w targetResponseWriter \<Rightarrow> 'w targetResponseWriter" where
  "tw_Hijack ops r = r\<lparr>tw_hijacked := True, tw_inner := wo_Hijack ops (tw_inner r)\<rparr>"

definition tw_Flush :: "'w writer_ops \<Rightarrow> 'w targetResponseWriter \<Rightarrow> 'w targetResponseWriter" where
  "tw_Flush ops r = r\<lparr>tw_inner := wo_Flush ops (tw_inner r)\<rparr>"

definition tw_ops :: "'w writer_ops \<Rightarrow> 'w targetResponseWriter writer_ops" where
  "tw_ops ops = \<lparr>wo_Header = (\<lambda>r. wo_Header ops (tw_inner r)),
     wo_SetHeader = (\<lambda>h r. r\<lparr>tw_inner := wo_SetHeader ops h (tw_inner r)\<rparr>),
     wo_WriteHeader = (\<lambda>code r. r\<lparr>tw_inner := wo_WriteHeader ops code (tw_inner r)\<rparr>),
     wo_Write = (\<lambda>p r. r\<lparr>tw_inner := wo_Write ops p (tw_inner r)\<rparr>), wo_Hijack = tw_Hijack ops, wo_Flush = tw_Flush ops\<rparr>"

lemma tw_ops_header [simp]: "wo_Header (tw_ops ops) r = wo_Header ops (tw_inner r)"
  "tw_inner (newTargetResponseWriter w i) = w"
  by (simp_all add: tw_ops_def newTargetResponseWriter_def)

lemma target_writer:
  assumes "response_writer ops wok statuses sent implicit"
  shows "response_writer (tw_ops ops) (wok \<circ> tw_inner) (statuses \<circ> tw_inner) (sent \<circ> tw_inner) implicit"
proof -
  from assms show ?thesis by (simp add: response_writer_def tw_ops_def)
qed

interpretation plain_target: response_writer "tw_ops rw_ops" "(\<lambda>_. True) \<circ> tw_inner" "rw_status \<circ> tw_inner" "rw_body \<circ> tw_inner" "[]"
  by (rule target_writer) (rule plain_writer.response_writer_axioms)

interpretation affinity_target: response_writer "tw_ops (lb_ops now)" "lw_ok \<circ> tw_inner"
  "(rw_status \<circ> lw_inner) \<circ> tw_inner" "(rw_body \<circ> lw_inner) \<circ> tw_inner" "[200]" for now
  by (rule target_writer) (rule affinity_writer.response_writer_axioms)

subsection \<open>The reverse proxy\<close>

text \<open>How the exchange with the target ends: no response, an upgraded connection, or a response with its
  headers, its status and the pieces of its body, which may break off.\<close>

datatype UpstreamReply =
    UpstreamFails ProxyError
  | UpstreamSwitches
  | UpstreamReplies "(string \<times> string) list" int "byte list list" bool

text \<open>A target sees the request and what there is of its body, with the error that ended it.\<close>

type_synonym upstream = "OutRequest \<Rightarrow> byte list \<Rightarrow> go_error option \<Rightarrow> UpstreamReply"

definition no_error :: ProxyError where
  "no_error = \<lparr>pe_maxBytes = False, pe_netErrorTimeout = None, pe_contextCanceled = False, pe_draining = False\<rparr>"

definition RoundTrip :: "upstream \<Rightarrow> Target \<Rightarrow> Request \<Rightarrow> byte list \<Rightarrow> go_error option \<Rightarrow> UpstreamReply" where
  "RoundTrip up t req body err =
     (if \<not> is_print (upgradeType (rq_Header req)) then UpstreamFails no_error else up (sent_request t req) body err)"

definition end_to_end_headers :: "(string \<times> string) list \<Rightarrow> (string \<times> string) list" where
  "end_to_end_headers hs =
     filter (\<lambda>(k, v). k \<notin> set (map CanonicalHeaderKey (header_tokens (map snd (filter (\<lambda>(k, v). k = ''Connection'') hs))))
       \<and> k \<notin> set hopHeaders) hs"

text \<open>What the reverse proxy does to its writer, and the error response it sets.\<close>

fun proxy_events :: "UpstreamReply \<Rightarrow> ResponseEvent list" where
  "proxy_events (UpstreamFails err) = (let (code, page) = handleProxyError err in if page then [] else [SendHeader code])"
| "proxy_events UpstreamSwitches = [TakeConnection]"
| "proxy_events (UpstreamReplies hs code pieces whole) =
     map (\<lambda>(k, v). AddHeader k v) (end_to_end_headers hs) @ SendHeader code # map SendBody (filter (\<lambda>c. c \<noteq> []) pieces)
       @ (if whole then [] else [AbortResponse])"

fun proxy_error :: "UpstreamReply \<Rightarrow> errorResponse \<Rightarrow> errorResponse" where
  "proxy_error (UpstreamFails err) er =
     (let (code, page) = handleProxyError err
      in if page then er\<lparr>er_StatusCode := code, er_TemplateArguments := None\<rparr> else er)"
| "proxy_error _ er = er"

text \<open>The events on an unbuffered writer.\<close>

definition direct_event :: "'w writer_ops \<Rightarrow> ResponseEvent \<Rightarrow> 'w \<Rightarrow> 'w outcome" where
  "direct_event ops e w =
     (case e of
        AddHeader k v \<Rightarrow> Returns (wo_SetHeader ops (Header_Add (wo_Header ops w) k v) w)
      | SendHeader code \<Rightarrow> Returns (wo_WriteHeader ops code w)
      | SendBody data \<Rightarrow> Returns (wo_Write ops data w)
      | TakeConnection \<Rightarrow> Returns (wo_Hijack ops w)
      | AbortResponse \<Rightarrow> Panics ErrAbortHandler)"

fun run_direct :: "'w writer_ops \<Rightarrow> ResponseEvent list \<Rightarrow> 'w \<Rightarrow> 'w outcome" where
  "run_direct ops [] w = Returns w"
| "run_direct ops (e # es) w = bind_outcome (direct_event ops e w) (run_direct ops es)"

subsection \<open>The handler of a target\<close>

text \<open>The reverse proxy, in the response buffer if the target has one.\<close>

definition respond_with ::
  "'w writer_ops \<Rightarrow> bool \<Rightarrow> TargetOptions \<Rightarrow> UpstreamReply \<Rightarrow> errorResponse \<times> 'w \<Rightarrow> (errorResponse \<times> 'w) outcome" where
  "respond_with ops spill opts reply = (\<lambda>(er, w).
     bind_outcome
       (if to_BufferResponses opts
        then bind_outcome (ResponseBuffer_ServeHTTP ops spill (to_MaxMemoryBufferSize opts) (to_MaxResponseBodySize opts)
               (proxy_events reply) w) (\<lambda>(w', b). Returns w')
        else run_direct ops (proxy_events reply) w)
       (\<lambda>w'. Returns (proxy_error reply er, w')))"

text \<open>\<open>proxyHandler\<close>: the request buffer around it.\<close>

definition proxyHandler ::
  "'w writer_ops \<Rightarrow> bool \<Rightarrow> upstream \<Rightarrow> Target \<Rightarrow> Request \<Rightarrow> byte list list \<Rightarrow> go_error option \<Rightarrow>
     errorResponse \<times> 'w \<Rightarrow> (errorResponse \<times> 'w) outcome" where
  "proxyHandler ops spill up t req pieces readErr = (\<lambda>(er, w).
     let opts = t_options t
     in if to_BufferRequests opts
        then bind_outcome (RequestBuffer_ServeHTTP ops spill pieces readErr (to_MaxRequestBodySize opts) (to_MaxMemoryBufferSize opts) w)
          (\<lambda>rb. case rb of
             RejectRequest w' \<Rightarrow> Returns (er, w')
           | PassBody b \<Rightarrow> respond_with ops spill opts (RoundTrip up t req (fst (Buffer_Send b)) None) (er, w))
        else respond_with ops spill opts (RoundTrip up t req (concat pieces) readErr) (er, w))"

definition getInflightRequest :: "nat \<Rightarrow> Target \<times> ReqStore \<Rightarrow> inflightRequest option" where
  "getInflightRequest rid = (\<lambda>(t, st). if rid \<in> t_inflight t then st rid else None)"

text \<open>\<open>SendRequest\<close> for a request that \<open>StartRequest\<close> registered under \<open>rid\<close>. The deferred
  \<open>endInflightRequest\<close> also runs when the handler panics.\<close>

definition SendRequest ::
  "'w writer_ops \<Rightarrow> bool \<Rightarrow> upstream \<Rightarrow> nat \<Rightarrow> Request \<Rightarrow> byte list list \<Rightarrow> go_error option \<Rightarrow> Target \<times> ReqStore \<Rightarrow>
     errorResponse \<times> 'w \<Rightarrow> (errorResponse \<times> 'w) outcome \<times> Target \<times> ReqStore" where
  "SendRequest ops spill up rid req pieces readErr = (\<lambda>(t, st) (er, w).
     let tw = newTargetResponseWriter w (getInflightRequest rid (t, st));
         res = proxyHandler (tw_ops ops) spill up t req pieces readErr (er, tw);
         st' = (case res of Returns (_, tw') \<Rightarrow> if tw_hijacked tw' then Target_Hijack rid st else st | Panics _ \<Rightarrow> st)
     in (bind_outcome res (\<lambda>(er', tw'). Returns (er', tw_inner tw')), endInflightRequest rid (t, st')))"

text \<open>The continuation that \<open>LoadBalancer.StartRequest\<close> returns: it wraps the writer when the response has to
  carry the affinity cookie.\<close>

definition send_balanced ::
  "instant \<Rightarrow> bool \<Rightarrow> upstream \<Rightarrow> nat \<Rightarrow> byte list list \<Rightarrow> go_error option \<Rightarrow> Target \<times> ReqStore \<Rightarrow> duration option \<Rightarrow> Request \<Rightarrow>
     errorResponse \<times> ResponseWriter \<Rightarrow> (errorResponse \<times> ResponseWriter) outcome \<times> Target \<times> ReqStore" where
  "send_balanced now spill up rid pieces readErr ts affinity req = (\<lambda>(er, w).
     case affinity of
       None \<Rightarrow> SendRequest rw_ops spill up rid req pieces readErr ts (er, w)
     | Some timeout \<Rightarrow>
         (let (res, ts') = SendRequest (lb_ops now) spill up rid req pieces readErr ts (er, newLoadBalancerReponseWriter w timeout)
          in (bind_outcome res (\<lambda>(er', lw). Returns (er', lw_inner lw)), ts')))"

subsection \<open>Buffering is transparent\<close>

fun reply_headers :: "UpstreamReply \<Rightarrow> (string \<times> string) list" where
  "reply_headers (UpstreamReplies hs _ _ _) = end_to_end_headers hs"
| "reply_headers _ = []"

fun reply_body :: "UpstreamReply \<Rightarrow> byte list" where
  "reply_body (UpstreamReplies _ _ pieces _) = concat pieces"
| "reply_body _ = []"

definition fits_in :: "int \<Rightarrow> byte list \<Rightarrow> bool" where
  "fits_in limit body \<longleftrightarrow> limit \<le> 0 \<or> int (length body) \<le> limit"

text \<open>A reply that the response buffer keeps back: no event stream, and not too long.\<close>

definition bufferable :: "int \<Rightarrow> UpstreamReply \<Rightarrow> bool" where
  "bufferable limit reply \<longleftrightarrow> list_all (\<lambda>(k, v). quiet (AddHeader k v)) (reply_headers reply) \<and> fits_in limit (reply_body reply)"

definition add_header :: "'w writer_ops \<Rightarrow> string \<times> string \<Rightarrow> 'w \<Rightarrow> 'w" where
  "add_header ops = (\<lambda>(k, v) w. wo_SetHeader ops (Header_Add (wo_Header ops w) k v) w)"

lemma nonempty_pieces:
  "concat (filter (\<lambda>c. c \<noteq> []) ps) = concat ps" "filter (\<lambda>c. c \<noteq> []) ps = [] \<longleftrightarrow> concat ps = []"
  by (induction ps) auto

lemma run_handler_headers:
  "run_handler ops spill (map (\<lambda>(k, v). AddHeader k v) hs @ es) w =
     run_handler ops spill es (w\<lparr>bw_inner := fold (add_header ops) hs (bw_inner w)\<rparr>)"
  by (induction hs arbitrary: w) (auto simp: response_event_def add_header_def split: prod.splits)

lemma run_direct_headers:
  "run_direct ops (map (\<lambda>(k, v). AddHeader k v) hs @ es) w = run_direct ops es (fold (add_header ops) hs w)"
  by (induction hs arbitrary: w) (auto simp: direct_event_def add_header_def split: prod.splits)

lemma run_handler_bodies:
  assumes "buf_ok (bw_buffer w)" "\<not> bf_overflowed (bw_buffer w)" "\<not> bw_bypass w"
    "bf_maxBytes (bw_buffer w) \<le> 0 \<or> int (length (contents (bw_buffer w) @ concat cs)) \<le> bf_maxBytes (bw_buffer w)"
  shows "\<exists>b. run_handler ops True (map SendBody cs @ es) w = run_handler ops True es (w\<lparr>bw_buffer := b\<rparr>)
    \<and> contents b = contents (bw_buffer w) @ concat cs \<and> \<not> bf_overflowed b"
  using assms
proof (induction cs arbitrary: w)
  case Nil
  then show ?case by (intro exI [of _ "bw_buffer w"]) simp
next
  case (Cons c cs)
  then obtain b where b: "Buffer_Write True c (bw_buffer w) = Returns (Inr (int (length c)), b)" "buf_ok b"
    "contents b = contents (bw_buffer w) @ c" "bf_maxBytes b = bf_maxBytes (bw_buffer w)" "\<not> bf_overflowed b"
    using Buffer_Write_accepts [of "bw_buffer w" c] by auto
  have "response_event ops True (SendBody c) w = Returns (Inr (int (length c)), w\<lparr>bw_buffer := b\<rparr>)"
    using b(1) Cons.prems by (simp add: response_event_def bw_Write_def)
  with b Cons.IH [of "w\<lparr>bw_buffer := b\<rparr>"] Cons.prems show ?case by simp
qed

context response_writer
begin

lemma add_headers_ok:
  "wok w \<Longrightarrow> \<not> ShouldSwitchToUnbuffered (wo_Header ops w) \<Longrightarrow> list_all (\<lambda>(k, v). quiet (AddHeader k v)) hs \<Longrightarrow>
     wok (fold (add_header ops) hs w) \<and> \<not> ShouldSwitchToUnbuffered (wo_Header ops (fold (add_header ops) hs w))"
proof (induction hs arbitrary: w)
  case (Cons kv hs)
  obtain k v where kv: "kv = (k, v)" by fastforce
  with Cons.prems have "wok (add_header ops kv w)" "\<not> ShouldSwitchToUnbuffered (wo_Header ops (add_header ops kv w))"
    by (auto simp: add_header_def header_law ShouldSwitchToUnbuffered_def split: if_splits)
  with Cons show ?case by simp
qed simp

lemma run_direct_bodies:
  "wok w \<Longrightarrow> [] \<notin> set cs \<Longrightarrow>
     run_direct ops (map SendBody cs @ es) w = run_direct ops es (if cs = [] then w else wo_Write ops (concat cs) w)"
proof (induction cs arbitrary: w)
  case (Cons c cs)
  have "run_direct ops (map SendBody (c # cs) @ es) w = run_direct ops (map SendBody cs @ es) (wo_Write ops c w)"
    by (simp add: direct_event_def)
  with Cons show ?case by (simp add: body_law append_law)
qed simp

text \<open>A reply through the response buffer ends as it would without it.\<close>

lemma buffered_as_direct:
  assumes "0 \<le> maxMem" "wok w" "\<not> ShouldSwitchToUnbuffered (wo_Header ops w)" "bufferable maxBytes reply"
  shows "bind_outcome (ResponseBuffer_ServeHTTP ops True maxMem maxBytes (proxy_events reply) w) (\<lambda>(w', b). Returns w')
    = run_direct ops (proxy_events reply) w"
proof (cases reply)
  case (UpstreamReplies hs code pieces whole)
  let ?cs = "filter (\<lambda>c. c \<noteq> []) pieces" and ?w = "fold (add_header ops) (end_to_end_headers hs) w"
  let ?tail = "if whole then [] else [AbortResponse]"
  let ?bw = "\<lparr>bw_inner = ?w, bw_statusCode = code, bw_buffer = NewBufferedWriteCloser maxBytes maxMem,
     bw_hijacked = False, bw_headerWritten = True, bw_bypass = False\<rparr>"
  note cc = nonempty_pieces(1) [of pieces]
  have w: "wok ?w" "\<not> ShouldSwitchToUnbuffered (wo_Header ops ?w)"
    using add_headers_ok assms(2-4) UpstreamReplies by (auto simp: bufferable_def)
  have "bf_maxBytes (bw_buffer ?bw) \<le> 0 \<or> int (length (contents (bw_buffer ?bw) @ concat ?cs)) \<le> bf_maxBytes (bw_buffer ?bw)"
    using assms(4) UpstreamReplies by (simp add: bufferable_def fits_in_def new_buf_ok cc)
  then obtain b where b: "run_handler ops True (map SendBody ?cs @ ?tail) ?bw = run_handler ops True ?tail (?bw\<lparr>bw_buffer := b\<rparr>)"
    "contents b = concat pieces" "\<not> bf_overflowed b"
    using run_handler_bodies [of ?bw ?cs ops ?tail] assms(1) by (auto simp: new_buf_ok cc)
  have "run_direct ops (proxy_events reply) w =
      run_direct ops ?tail (if ?cs = [] then wo_WriteHeader ops code ?w else wo_Write ops (concat pieces) (wo_WriteHeader ops code ?w))"
    using UpstreamReplies w run_direct_bodies [of "wo_WriteHeader ops code ?w" ?cs ?tail]
    by (simp add: run_direct_headers direct_event_def status_law cc)
  with nonempty_pieces(2) [of pieces] show ?thesis
    using UpstreamReplies w b
    by (auto simp: ResponseBuffer_ServeHTTP_def run_handler_headers response_event_def direct_event_def bw_WriteHeader_def
        bw_Send_def send_buffer_def Buffer_Send_def Let_def)
qed (use assms(1-3) in \<open>auto simp: ResponseBuffer_ServeHTTP_def response_event_def direct_event_def bw_WriteHeader_def
    bw_Send_def bw_Hijack_def send_buffer_def Buffer_Send_def new_buf_ok Let_def split: prod.splits\<close>)

text \<open>A request whose body and reply are within the limits, and one whose body is not.\<close>

lemma proxyHandler_fits:
  assumes "0 \<le> to_MaxMemoryBufferSize (t_options t)" "wok w" "\<not> ShouldSwitchToUnbuffered (wo_Header ops w)"
    "fits_in (to_MaxRequestBodySize (t_options t)) (concat pieces)"
    "bufferable (to_MaxResponseBodySize (t_options t)) (RoundTrip up t req (concat pieces) None)"
  shows "proxyHandler ops True up t req pieces None (er, w) =
    bind_outcome (run_direct ops (proxy_events (RoundTrip up t req (concat pieces) None)) w)
      (\<lambda>w'. Returns (proxy_error (RoundTrip up t req (concat pieces) None) er, w'))"
proof -
  have r: "respond_with ops True (t_options t) (RoundTrip up t req (concat pieces) None) (er, w) =
    bind_outcome (run_direct ops (proxy_events (RoundTrip up t req (concat pieces) None)) w)
      (\<lambda>w'. Returns (proxy_error (RoundTrip up t req (concat pieces) None) er, w'))"
    using buffered_as_direct [OF assms(1-3,5)] by (simp add: respond_with_def)
  from request_buffer_passes [OF assms(1), of "to_MaxRequestBodySize (t_options t)" pieces ops w] assms(4) obtain b where
    "RequestBuffer_ServeHTTP ops True pieces None (to_MaxRequestBodySize (t_options t)) (to_MaxMemoryBufferSize (t_options t)) w =
       Returns (PassBody b)" "contents b = concat pieces" by (auto simp: fits_in_def)
  with r show ?thesis by (simp add: proxyHandler_def Buffer_Send_def Let_def)
qed

lemma proxyHandler_too_large:
  assumes "0 \<le> to_MaxMemoryBufferSize (t_options t)" "to_BufferRequests (t_options t)"
    "\<not> fits_in (to_MaxRequestBodySize (t_options t)) (concat pieces)"
  shows "proxyHandler ops True up t req pieces e (er, w) = Returns (er, http_Error ops ''Request too large'' 413 w)"
  using assms request_buffer_rejects [of "to_MaxMemoryBufferSize (t_options t)" "to_MaxRequestBodySize (t_options t)" pieces ops e w]
  by (simp add: proxyHandler_def fits_in_def)

end

definition unbuffered :: "Target \<Rightarrow> Target" where
  "unbuffered t = t\<lparr>t_options := (t_options t)\<lparr>to_BufferRequests := False, to_BufferResponses := False\<rparr>\<rparr>"

lemma unbuffered_RoundTrip [simp]: "RoundTrip up (unbuffered t) = RoundTrip up t"
  by (simp add: fun_eq_iff RoundTrip_def sent_request_def rewrite_def forwardHeaders_def unbuffered_def Let_def)

text \<open>However the exchange ends, the request is no longer in flight, its context is cancelled, and
  nothing else about the target changes.\<close>

lemma SendRequest_settles:
  assumes "SendRequest ops spill up rid req pieces e (t, st) x = (res, t', st')" "rid \<in> t_inflight t" "st rid \<noteq> None"
  shows "t' = t\<lparr>t_inflight := t_inflight t - {rid}\<rparr> \<and> request_done st' rid \<and> (\<forall>k. k \<noteq> rid \<longrightarrow> st' k = st k)"
  using assms
  by (cases x) (auto simp: SendRequest_def Let_def endInflightRequest_def Target_Hijack_def request_done_def cancel_def
      split: outcome.splits prod.splits option.splits if_splits)


subsection \<open>A proxied request in the chain\<close>

text \<open>What a reply means for the client: the status lines and the body that the reverse proxy itself sends.\<close>

fun reply_status :: "UpstreamReply \<Rightarrow> int list" where
  "reply_status (UpstreamFails err) = (let (code, page) = handleProxyError err in if page then [] else [code])"
| "reply_status UpstreamSwitches = []"
| "reply_status (UpstreamReplies _ code _ _) = [code]"

fun breaks_off :: "UpstreamReply \<Rightarrow> bool" where
  "breaks_off (UpstreamReplies _ _ _ whole) = (\<not> whole)"
| "breaks_off _ = False"

definition sets_page :: "UpstreamReply \<Rightarrow> int option" where
  "sets_page reply = (case reply of UpstreamFails err \<Rightarrow> (let (code, page) = handleProxyError err in if page then Some code else None)
     | _ \<Rightarrow> None)"

context response_writer
begin

lemma direct_reply:
  assumes "wok w" "\<not> breaks_off reply" "\<And>w. wok w \<Longrightarrow> statuses (wo_Hijack ops w) = statuses w \<and> sent (wo_Hijack ops w) = sent w"
  shows "\<exists>w'. run_direct ops (proxy_events reply) w = Returns w' \<and> statuses w' = statuses w @ reply_status reply
    \<and> sent w' = sent w @ reply_body reply \<and> (sets_page reply \<noteq> None \<longrightarrow> w' = w)"
proof (cases reply)
  case (UpstreamReplies hs code pieces whole)
  let ?cs = "filter (\<lambda>c. c \<noteq> []) pieces" and ?w = "fold (add_header ops) (end_to_end_headers hs) w"
  note cc = nonempty_pieces(1) [of pieces] and ce = nonempty_pieces(2) [of pieces]
  have "wok (fold (add_header ops) kvs w) \<and> statuses (fold (add_header ops) kvs w) = statuses w
      \<and> sent (fold (add_header ops) kvs w) = sent w" if "wok w" for kvs w
    using that by (induction kvs arbitrary: w) (auto simp: add_header_def header_law)
  with assms UpstreamReplies run_direct_bodies [of "wo_WriteHeader ops code ?w" ?cs "[]"] show ?thesis
    by (simp add: run_direct_headers direct_event_def status_law body_law sets_page_def cc ce)
qed (use assms in \<open>auto simp: direct_event_def status_law sets_page_def split: prod.splits\<close>)

end

definition initial_error :: errorResponse where
  "initial_error = \<lparr>er_StatusCode = 0, er_TemplateArguments = None\<rparr>"

lemma proxy_error_cases:
  "proxy_error reply er = (case sets_page reply of None \<Rightarrow> er | Some code \<Rightarrow> er\<lparr>er_StatusCode := code, er_TemplateArguments := None\<rparr>)"
  by (cases reply) (auto simp: sets_page_def split: prod.splits)

lemma sets_page_nonzero: "sets_page reply = Some code \<Longrightarrow> code \<in> {413, 502, 504}"
  by (auto simp: sets_page_def handleProxyError_def split: UpstreamReply.splits if_splits)

lemma send_balanced_reply:
  assumes "0 \<le> to_MaxMemoryBufferSize (t_options t)" "fits_in (to_MaxRequestBodySize (t_options t)) (concat pieces)"
    "reply = RoundTrip up t req (concat pieces) None" "bufferable (to_MaxResponseBodySize (t_options t)) reply" "\<not> breaks_off reply"
    "\<not> ShouldSwitchToUnbuffered (rw_Header w)" "rw_status w = []"
  shows "\<exists>w' ts. send_balanced now True up rid pieces None (t, st) affinity req (er, w) = (Returns (proxy_error reply er, w'), ts)
    \<and> rw_status w' = reply_status reply \<and> rw_body w' = rw_body w @ reply_body reply \<and> (sets_page reply \<noteq> None \<longrightarrow> w' = w)"
proof (cases affinity)
  case None
  let ?tw = "newTargetResponseWriter w (getInflightRequest rid (t, st))"
  obtain tw' where "run_direct (tw_ops rw_ops) (proxy_events reply) ?tw = Returns tw'"
    "rw_status (tw_inner tw') = reply_status reply" "rw_body (tw_inner tw') = rw_body w @ reply_body reply"
    "sets_page reply \<noteq> None \<longrightarrow> tw' = ?tw"
    using plain_target.direct_reply [of ?tw reply] assms(5,7) by (auto simp: tw_ops_def tw_Hijack_def rw_ops_def)
  moreover have "proxyHandler (tw_ops rw_ops) True up t req pieces None (er, ?tw) =
      bind_outcome (run_direct (tw_ops rw_ops) (proxy_events reply) ?tw) (\<lambda>w'. Returns (proxy_error reply er, w'))"
    using assms(1-4,6) by (simp add: plain_target.proxyHandler_fits)
  ultimately show ?thesis
    using None by (auto simp: send_balanced_def SendRequest_def Let_def)
next
  case (Some d)
  let ?lw = "newLoadBalancerReponseWriter w d"
  let ?tw = "newTargetResponseWriter ?lw (getInflightRequest rid (t, st))"
  have lw: "lw_ok ?lw" "lw_inner ?lw = w" using assms(7) by (simp_all add: lw_ok_def newLoadBalancerReponseWriter_def)
  obtain tw' where "run_direct (tw_ops (lb_ops now)) (proxy_events reply) ?tw = Returns tw'"
    "rw_status (lw_inner (tw_inner tw')) = reply_status reply" "rw_body (lw_inner (tw_inner tw')) = rw_body w @ reply_body reply"
    "sets_page reply \<noteq> None \<longrightarrow> tw' = ?tw"
    using affinity_target.direct_reply [of ?tw reply now] assms(5,7) lw by (auto simp: tw_ops_def tw_Hijack_def lb_ops_def)
  moreover have "proxyHandler (tw_ops (lb_ops now)) True up t req pieces None (er, ?tw) =
      bind_outcome (run_direct (tw_ops (lb_ops now)) (proxy_events reply) ?tw) (\<lambda>w'. Returns (proxy_error reply er, w'))"
    using assms(1-4,6) lw by (simp add: affinity_target.proxyHandler_fits)
  ultimately show ?thesis
    using Some lw by (auto simp: send_balanced_def SendRequest_def Let_def)
qed

lemma chain_inner:
  "f (initial_error, w) = g (initial_error, w) \<Longrightarrow>
     ErrorPage_ServeHTTP h (service_chain ce r name f) (None, w) = ErrorPage_ServeHTTP h (service_chain ce r name g) (None, w)"
  by (simp add: ErrorPage_ServeHTTP_def service_chain_def initial_error_def split: option.split)

lemma chain_passes:
  assumes "inner (initial_error, w) = (initial_error, w')"
  shows "snd (ErrorPage_ServeHTTP h (service_chain ce r name inner) (None, w)) = w'"
  using assms by (simp add: ErrorPage_ServeHTTP_def service_chain_def initial_error_def split: option.split)

text \<open>The targets of the chain are reached through the proxy; an aborted exchange leaves no response.\<close>

definition proxy_backend ::
  "instant \<Rightarrow> upstream \<Rightarrow> nat \<Rightarrow> byte list list \<Rightarrow> ReqStore \<Rightarrow> Target \<Rightarrow> duration option \<Rightarrow> Request \<Rightarrow> handler" where
  "proxy_backend now up rid pieces st t affinity req = (\<lambda>x.
     case fst (send_balanced now True up rid pieces None (t, st) affinity req x) of Returns y \<Rightarrow> y | Panics _ \<Rightarrow> x)"

lemma backend_reply:
  assumes "0 \<le> to_MaxMemoryBufferSize (t_options t)" "fits_in (to_MaxRequestBodySize (t_options t)) (concat pieces)"
    "reply = RoundTrip up t req (concat pieces) None" "bufferable (to_MaxResponseBodySize (t_options t)) reply" "\<not> breaks_off reply"
  shows "\<exists>w'. proxy_backend now up rid pieces st t affinity req (initial_error, empty_response) = (proxy_error reply initial_error, w')
    \<and> rw_status w' = reply_status reply \<and> rw_body w' = reply_body reply \<and> (sets_page reply \<noteq> None \<longrightarrow> w' = empty_response)"
  using send_balanced_reply [OF assms, of empty_response now rid st affinity initial_error]
  by (auto simp: proxy_backend_def empty_response_def ShouldSwitchToUnbuffered_def Header_Get_def)

lemma backend_too_large:
  assumes "0 \<le> to_MaxMemoryBufferSize (t_options t)" "to_BufferRequests (t_options t)"
    "\<not> fits_in (to_MaxRequestBodySize (t_options t)) (concat pieces)"
  shows "\<exists>w'. proxy_backend now up rid pieces st t affinity req (initial_error, empty_response) = (initial_error, w')
    \<and> rw_status w' = [413] \<and> rw_body w' = ''Request too large'' @ [CHR 0x0A]"
proof (cases affinity)
  case None
  let ?tw = "newTargetResponseWriter empty_response (getInflightRequest rid (t, st))"
  have "proxyHandler (tw_ops rw_ops) True up t req pieces None (initial_error, ?tw) =
      Returns (initial_error, http_Error (tw_ops rw_ops) ''Request too large'' 413 ?tw)"
    by (rule plain_target.proxyHandler_too_large [OF assms])
  with None plain_target.http_Error_sent [of ?tw "''Request too large''" 413] show ?thesis
    by (simp add: proxy_backend_def send_balanced_def SendRequest_def empty_response_def Let_def)
next
  case (Some d)
  let ?tw = "newTargetResponseWriter (newLoadBalancerReponseWriter empty_response d) (getInflightRequest rid (t, st))"
  have "proxyHandler (tw_ops (lb_ops now)) True up t req pieces None (initial_error, ?tw) =
      Returns (initial_error, http_Error (tw_ops (lb_ops now)) ''Request too large'' 413 ?tw)"
    by (rule affinity_target.proxyHandler_too_large [OF assms])
  with Some affinity_target.http_Error_sent [of ?tw now "''Request too large''" 413] show ?thesis
    by (simp add: proxy_backend_def send_balanced_def SendRequest_def empty_response_def newLoadBalancerReponseWriter_def
        lw_ok_def Let_def)
qed

lemma buildHandler_proxied:
  assumes "Router_ServeHTTP (ce_env ce) now rid (with_headers ce req) r =
      Returns (Served name req1 (Answer (Balanced slot (StartProxy i req2 affinity))), r')"
    "balancer_target r' name slot i = Some t"
  shows "\<exists>w e. buildHandler ce lm now rid req r = Returns (Responded w e, r') \<and> le_service e = name \<and> le_target e = t_address t
    \<and> w = snd (ErrorPage_ServeHTTP \<lparr>ep_template = ce_pages ce, ep_root = True\<rparr>
        (service_chain ce r' name (ce_backend ce t affinity req2)) (None, empty_response))"
  using assms by (simp add: buildHandler_def Let_def)

lemma chain_page:
  assumes "inner (initial_error, empty_response) = SetErrorResponse code None (initial_error, empty_response)"
    "ServiceMap_Get (r_services r) name = Some s" "code \<noteq> 0"
    "w = snd (ErrorPage_ServeHTTP \<lparr>ep_template = ce_pages ce, ep_root = True\<rparr> (service_chain ce r name inner) (None, empty_response))"
  shows "set (rw_status w) = {code} \<and> rw_body w = error_body (ce_pages ce) (custom_pages ce s) code None"
proof -
  let ?h = "\<lparr>ep_template = ce_pages ce, ep_root = True\<rparr>"
  from chain_error [OF assms(2,3), of ce None] obtain er w' where
    "ErrorPage_ServeHTTP ?h (service_chain ce r name (SetErrorResponse code None)) (None, empty_response) = (er, w')"
    "set (rw_status w') = {code}" "rw_body w' = error_body (ce_pages ce) (custom_pages ce s) code None" by blast
  with chain_inner [of inner empty_response "SetErrorResponse code None", OF assms(1)] assms(4) show ?thesis by simp
qed


subsection \<open>Examples\<close>

definition ex_upstream :: upstream where
  "ex_upstream out body err = UpstreamReplies [(''Content-Type'', ''text/plain'')] 200 [''got '', body] True"

definition ex_buffering :: Target where
  "ex_buffering = example_target\<lparr>t_inflight := {1}, t_options := example_options\<lparr>to_BufferRequests := True,
     to_BufferResponses := True, to_MaxMemoryBufferSize := 4, to_MaxRequestBodySize := 10, to_MaxResponseBodySize := 12\<rparr>\<rparr>"

definition ex_proxied :: ChainEnv where
  "ex_proxied = ex_chain\<lparr>ce_backend := proxy_backend 0 (\<lambda>_ _ _. UpstreamFails (no_error\<lparr>pe_netErrorTimeout := Some True\<rparr>)) 1 [''hello''] Map.empty\<rparr>"

fun is_proxied :: "(RouterAnswer \<times> Router) outcome \<Rightarrow> bool" where
  "is_proxied (Returns (Served name req1 (Answer (Balanced slot (StartProxy i req2 affinity))), r')) =
     (case balancer_target r' name slot i of
        None \<Rightarrow> False
      | Some t \<Rightarrow> ServiceMap_Get (r_services r') name \<noteq> None \<and> name = ''web'' \<and> t_options t = example_options
          \<and> is_print (upgradeType (rq_Header req2)))"
| "is_proxied _ = False"




end
