(* ===== verification/Streaming.thy ===== *)
theory Streaming
  imports Proxying
begin

section \<open>Streams\<close>

text \<open>
  Models the \<open>Flush\<close> methods of the response writers (\<open>target.go\<close>, \<open>load_balancer.go\<close>, \<open>response_buffer_middleware.go\<close>
  in \<open>internal/server\<close>) at work: a response whose pieces the reverse proxy flushes one by one, as it does for event
  streams and for responses of unknown length, passes through the writers. How much of the body the client has at a moment is
  \<open>rw_flushed\<close> of the server's writer.
\<close>

subsection \<open>Flushing a response as it is made\<close>

datatype StreamEvent = Event ResponseEvent | FlushResponse

definition stream_direct :: "'w writer_ops \<Rightarrow> StreamEvent \<Rightarrow> 'w \<Rightarrow> 'w outcome" where
  "stream_direct ops e w = (case e of Event x \<Rightarrow> direct_event ops x w | FlushResponse \<Rightarrow> Returns (wo_Flush ops w))"

definition stream_buffered ::
  "'w writer_ops \<Rightarrow> bool \<Rightarrow> StreamEvent \<Rightarrow> 'w bufferedResponseWriter \<Rightarrow> 'w bufferedResponseWriter outcome" where
  "stream_buffered ops spill e w =
     (case e of
        Event x \<Rightarrow> bind_outcome (response_event ops spill x w) (\<lambda>(res, w').
          case res of Inl _ \<Rightarrow> Panics ErrAbortHandler | Inr _ \<Rightarrow> Returns w')
      | FlushResponse \<Rightarrow> Returns (bw_Flush ops w))"

fun run_events :: "('e \<Rightarrow> 'w \<Rightarrow> 'w outcome) \<Rightarrow> 'e list \<Rightarrow> 'w \<Rightarrow> 'w outcome" where
  "run_events f [] w = Returns w"
| "run_events f (e # es) w = bind_outcome (f e w) (run_events f es)"

text \<open>The events of a streamed response: its headers, its status, and its pieces, each flushed.\<close>

definition stream_piece :: "byte list \<Rightarrow> StreamEvent list" where
  "stream_piece p = [Event (SendBody p), FlushResponse]"

definition stream_events :: "(string \<times> string) list \<Rightarrow> int \<Rightarrow> byte list list \<Rightarrow> StreamEvent list" where
  "stream_events hs code pieces =
     map (\<lambda>(k, v). Event (AddHeader k v)) hs @ Event (SendHeader code) # concat (map stream_piece pieces)"

definition new_buffered :: "TargetOptions \<Rightarrow> 'w \<Rightarrow> 'w bufferedResponseWriter" where
  "new_buffered opts w = \<lparr>bw_inner = w, bw_statusCode = 200,
     bw_buffer = NewBufferedWriteCloser (to_MaxResponseBodySize opts) (to_MaxMemoryBufferSize opts),
     bw_hijacked = False, bw_headerWritten = False, bw_bypass = False\<rparr>"

text \<open>What has gone through to the writer below while the response is being made, buffered or not.\<close>

definition streamed_so_far ::
  "'w writer_ops \<Rightarrow> bool \<Rightarrow> TargetOptions \<Rightarrow> StreamEvent list \<Rightarrow> 'w \<Rightarrow> 'w outcome" where
  "streamed_so_far ops spill opts es w =
     (if to_BufferResponses opts
      then bind_outcome (run_events (stream_buffered ops spill) es (new_buffered opts w)) (\<lambda>bw. Returns (bw_inner bw))
      else run_events (stream_direct ops) es w)"

lemma run_events_append: "run_events f (es @ es') w = bind_outcome (run_events f es w) (run_events f es')"
proof (induction es arbitrary: w)
  case (Cons e es)
  then show ?case by (cases "f e w") simp_all
qed simp

text \<open>What holds after each piece holds after all of them.\<close>

lemma pieces_run:
  assumes step: "\<And>body w p. Q body w \<Longrightarrow> \<exists>w'. run_events f (stream_piece p) w = Returns w' \<and> Q (body @ p) w'"
    and start: "Q [] w"
  shows "\<exists>w'. run_events f (concat (map stream_piece ps)) w = Returns w' \<and> Q (concat ps) w'"
proof -
  have "\<exists>w'. run_events f (concat (map stream_piece ps)) w = Returns w' \<and> Q (body @ concat ps) w'" if "Q body w" for body w
    using that
  proof (induction ps arbitrary: body w)
    case (Cons p ps)
    from step [OF Cons.prems, of p] obtain w1 where w1: "run_events f (stream_piece p) w = Returns w1" "Q (body @ p) w1" by blast
    from Cons.IH [OF w1(2)] w1(1) show ?case by (simp add: run_events_append)
  qed simp
  from this [OF start] show ?thesis by simp
qed

lemma direct_headers:
  "run_events (stream_direct ops) (map (\<lambda>(k, v). Event (AddHeader k v)) hs @ es) w =
     run_events (stream_direct ops) es (fold (add_header ops) hs w)"
  by (induction hs arbitrary: w) (auto simp: stream_direct_def direct_event_def add_header_def split: prod.splits)

lemma buffered_headers:
  "run_events (stream_buffered ops spill) (map (\<lambda>(k, v). Event (AddHeader k v)) hs @ es) bw =
     run_events (stream_buffered ops spill) es (bw\<lparr>bw_inner := fold (add_header ops) hs (bw_inner bw)\<rparr>)"
  by (induction hs arbitrary: bw) (auto simp: stream_buffered_def response_event_def add_header_def split: prod.splits)

subsection \<open>Writers that flush\<close>

locale flushing_writer = response_writer ops wok statuses sent implicit
  for ops :: "'w writer_ops" and wok :: "'w \<Rightarrow> bool" and statuses :: "'w \<Rightarrow> int list" and sent :: "'w \<Rightarrow> byte list" and implicit :: "int list" +
  fixes flushed :: "'w \<Rightarrow> nat"
  assumes flush_law: "wok w \<Longrightarrow> statuses w \<noteq> [] \<Longrightarrow> wok (wo_Flush ops w) \<and> sent (wo_Flush ops w) = sent w
      \<and> flushed (wo_Flush ops w) = length (sent w) \<and> statuses (wo_Flush ops w) = statuses w"
    and flushed_law: "wok w \<Longrightarrow> flushed (wo_SetHeader ops h w) = flushed w \<and> flushed (wo_WriteHeader ops code w) = flushed w
      \<and> flushed (wo_Write ops p w) = flushed w"
begin

text \<open>A writer that has the given status and body, all of it flushed.\<close>

definition streaming :: "int list \<Rightarrow> byte list \<Rightarrow> 'w \<Rightarrow> bool" where
  "streaming st body w \<longleftrightarrow> wok w \<and> statuses w = st \<and> sent w = body \<and> flushed w = length body"

definition untouched :: "'w \<Rightarrow> bool" where
  "untouched w \<longleftrightarrow> wok w \<and> statuses w = [] \<and> sent w = [] \<and> flushed w = 0"

lemma headers_untouched: "untouched w \<Longrightarrow> untouched (fold (add_header ops) hs w)"
  by (induction hs arbitrary: w) (simp_all add: untouched_def add_header_def header_law flushed_law split: prod.splits)

lemma header_streams: "untouched w \<Longrightarrow> streaming [code] [] (wo_WriteHeader ops code w)"
  by (simp add: untouched_def streaming_def status_law flushed_law)

lemma piece_streams:
  "streaming [code] body w \<Longrightarrow> streaming [code] (body @ p) (wo_Flush ops (wo_Write ops p w))"
  using body_law [of w p] flush_law [of "wo_Write ops p w"] by (simp add: streaming_def)

lemma direct_stream:
  assumes "untouched w"
  shows "\<exists>w'. run_events (stream_direct ops) (stream_events hs code ps) w = Returns w' \<and> streaming [code] (concat ps) w'"
proof -
  have "\<exists>w'. run_events (stream_direct ops) (stream_piece p) w = Returns w' \<and> streaming [code] (body @ p) w'"
    if "streaming [code] body w" for body w p
    using piece_streams [OF that, of p] by (simp add: stream_direct_def direct_event_def stream_piece_def)
  from pieces_run [of "streaming [code]", OF this header_streams [OF headers_untouched [OF assms, of hs]], of ps] show ?thesis
    by (simp add: stream_events_def direct_headers) (simp add: stream_direct_def direct_event_def)
qed

text \<open>Once the header of an event stream is written, the buffered writer lets everything through.\<close>

lemma buffered_stream:
  assumes "untouched w" "0 \<le> to_MaxMemoryBufferSize opts"
    and es: "ShouldSwitchToUnbuffered (wo_Header ops (fold (add_header ops) hs w))"
  shows "\<exists>bw. run_events (stream_buffered ops spill) (stream_events hs code ps) (new_buffered opts w) = Returns bw
    \<and> streaming [code] (concat ps) (bw_inner bw)"
proof -
  let ?Q = "\<lambda>body bw. bw_bypass bw \<and> streaming [code] body (bw_inner bw)"
  let ?w1 = "fold (add_header ops) hs w"
  have step: "\<exists>bw'. run_events (stream_buffered ops spill) (stream_piece p) bw = Returns bw' \<and> ?Q (body @ p) bw'"
    if "?Q body bw" for body bw p
    using that piece_streams [of code body "bw_inner bw" p]
    by (simp add: stream_buffered_def response_event_def bw_Write_def bw_Flush_def stream_piece_def)
  have empty: "contents (NewBufferedWriteCloser m k) = []" "\<not> bf_overflowed (NewBufferedWriteCloser m k)" for m k
    by (simp_all add: NewBufferedWriteCloser_def contents_def)
  then have "?Q [] (bw_WriteHeader ops code (new_buffered opts ?w1))"
    using header_streams [OF headers_untouched [OF assms(1), of hs], of code] es
    by (simp add: bw_WriteHeader_def SwitchToUnbuffered_def bw_Send_def send_buffer_def Buffer_Send_def new_buffered_def Let_def split_def)
  from pieces_run [of ?Q, OF step this, of ps] show ?thesis
    by (simp add: stream_events_def buffered_headers) (auto simp: stream_buffered_def response_event_def new_buffered_def)
qed

text \<open>Any other response stays in the buffer while it is made, flushed or not.\<close>

lemma held_back_stream:
  assumes "untouched w" "0 \<le> to_MaxMemoryBufferSize opts" "\<not> ShouldSwitchToUnbuffered (wo_Header ops w)"
    and hs: "list_all (\<lambda>(k, v). quiet (AddHeader k v)) hs"
  shows "\<exists>bw. run_events (stream_buffered ops True) (stream_events hs code ps) (new_buffered opts w) = Returns bw
    \<and> statuses (bw_inner bw) = [] \<and> sent (bw_inner bw) = []"
proof -
  let ?w1 = "fold (add_header ops) hs w"
  let ?Q = "held_back ?w1 (to_MaxResponseBodySize opts)"
  have step: "\<exists>bw'. run_events (stream_buffered ops True) (stream_piece p) bw = Returns bw' \<and> ?Q (body @ p) bw'"
    if "?Q body bw" for body bw p
  proof -
    from held_back_write [OF that, of p] obtain n bw' where "bw_Write ops True p bw = Returns (Inr n, bw')" "?Q (body @ p) bw'" by blast
    moreover from this(2) have "\<not> bw_bypass bw'" by (simp add: held_back_def)
    ultimately show ?thesis by (simp add: stream_buffered_def response_event_def bw_Flush_def stream_piece_def)
  qed
  from add_headers_ok [OF _ assms(3) hs] assms(1) have h: "wok ?w1" "\<not> ShouldSwitchToUnbuffered (wo_Header ops ?w1)"
    by (simp_all add: untouched_def)
  then have "?Q [] (bw_WriteHeader ops code (new_buffered opts ?w1))"
    using new_buf_ok(1) [OF assms(2)]
    by (simp add: bw_WriteHeader_def held_back_def new_buffered_def Let_def) (simp add: NewBufferedWriteCloser_def contents_def, linarith)
  from pieces_run [of ?Q, OF step this, of ps] obtain bw where
    "run_events (stream_buffered ops True) (concat (map stream_piece ps)) (bw_WriteHeader ops code (new_buffered opts ?w1)) = Returns bw"
    "?Q (concat ps) bw" by auto
  with headers_untouched [OF assms(1), of hs] show ?thesis
    by (simp add: stream_events_def buffered_headers)
       (simp add: stream_buffered_def response_event_def new_buffered_def held_back_def untouched_def)
qed

lemma event_stream_so_far:
  assumes "untouched w" "0 \<le> to_MaxMemoryBufferSize opts"
    "ShouldSwitchToUnbuffered (wo_Header ops (fold (add_header ops) hs w))"
  shows "\<exists>w'. streamed_so_far ops spill opts (stream_events hs code ps) w = Returns w' \<and> streaming [code] (concat ps) w'"
  using direct_stream [OF assms(1), of hs code ps] buffered_stream [OF assms, of spill code ps]
  by (auto simp: streamed_so_far_def)

end

subsection \<open>The writers of the proxy\<close>

lemma target_flushing:
  assumes "flushing_writer ops wok statuses sent implicit flushed"
  shows "flushing_writer (tw_ops ops) (wok \<circ> tw_inner) (statuses \<circ> tw_inner) (sent \<circ> tw_inner) implicit (flushed \<circ> tw_inner)"
proof -
  from assms have "response_writer ops wok statuses sent implicit" by (simp add: flushing_writer_def)
  from target_writer [OF this] assms show ?thesis
    by (simp add: flushing_writer_def flushing_writer_axioms_def tw_ops_def tw_Flush_def)
qed

interpretation plain_flush: flushing_writer rw_ops "\<lambda>_. True" rw_status rw_body "[]" rw_flushed
  by unfold_locales (simp_all add: rw_ops_def rw_Flush_def)

interpretation affinity_flush: flushing_writer "lb_ops now" lw_ok "rw_status \<circ> lw_inner" "rw_body \<circ> lw_inner" "[200]" "rw_flushed \<circ> lw_inner"
  by unfold_locales (auto simp: lb_ops_def lbFlush_def rw_Flush_def lw_ok_def lbWriteHeader_def lbWrite_def setWriterAffinityCookie_def Let_def)

interpretation plain_target_flush: flushing_writer "tw_ops rw_ops" "(\<lambda>_. True) \<circ> tw_inner" "rw_status \<circ> tw_inner" "rw_body \<circ> tw_inner" "[]"
  "rw_flushed \<circ> tw_inner"
  by (rule target_flushing) (rule plain_flush.flushing_writer_axioms)

interpretation affinity_target_flush: flushing_writer "tw_ops (lb_ops now)" "lw_ok \<circ> tw_inner" "(rw_status \<circ> lw_inner) \<circ> tw_inner"
  "(rw_body \<circ> lw_inner) \<circ> tw_inner" "[200]" "(rw_flushed \<circ> lw_inner) \<circ> tw_inner" for now
  by (rule target_flushing) (rule affinity_flush.flushing_writer_axioms)

subsection \<open>Streams through the proxy\<close>

text \<open>The writer of the server, before anything is written.\<close>

definition fresh_response :: "ResponseWriter \<Rightarrow> bool" where
  "fresh_response w \<longleftrightarrow> rw_status w = [] \<and> rw_body w = [] \<and> rw_flushed w = 0"

definition client_has :: "int \<Rightarrow> byte list \<Rightarrow> ResponseWriter \<Rightarrow> bool" where
  "client_has code body w \<longleftrightarrow> rw_status w = [code] \<and> rw_body w = body \<and> rw_flushed w = length body"

definition event_stream :: "(string \<times> string) list \<Rightarrow> ResponseWriter \<Rightarrow> bool" where
  "event_stream hs w \<longleftrightarrow> ShouldSwitchToUnbuffered (fold (\<lambda>(k, v) h. Header_Add h k v) hs (rw_Header w))"

lemma stack_headers:
  "wo_Header (tw_ops rw_ops) (fold (add_header (tw_ops rw_ops)) hs tw) = fold (\<lambda>(k, v) h. Header_Add h k v) hs (rw_Header (tw_inner tw))"
  "wo_Header (tw_ops (lb_ops now)) (fold (add_header (tw_ops (lb_ops now))) hs tw') =
     fold (\<lambda>(k, v) h. Header_Add h k v) hs (rw_Header (lw_inner (tw_inner tw')))"
  by (induction hs arbitrary: tw tw') (auto simp: add_header_def tw_ops_def rw_ops_def lb_ops_def)

text \<open>C31: an event stream reaches the client piece by piece, also through a target that buffers its responses and through
  the writer that adds the affinity cookie: after any number of its pieces the client has the status and
  every byte of them. Any other response of a buffering target stays in the buffer until it is complete.\<close>

theorem event_stream_unbuffered:
  assumes "fresh_response w" and "0 \<le> to_MaxMemoryBufferSize opts"
  shows "(event_stream hs w \<longrightarrow>
      (\<exists>tw. streamed_so_far (tw_ops rw_ops) spill opts (stream_events hs code (take n ps)) (newTargetResponseWriter w i) = Returns tw
         \<and> client_has code (concat (take n ps)) (tw_inner tw))
    \<and> (\<exists>tw. streamed_so_far (tw_ops (lb_ops now)) spill opts (stream_events hs code (take n ps))
           (newTargetResponseWriter (newLoadBalancerReponseWriter w timeout) i) = Returns tw
         \<and> client_has code (concat (take n ps)) (lw_inner (tw_inner tw))))
    \<and> (to_BufferResponses opts \<and> \<not> ShouldSwitchToUnbuffered (rw_Header w) \<and> list_all (\<lambda>(k, v). quiet (AddHeader k v)) hs \<longrightarrow>
      (\<exists>tw. streamed_so_far (tw_ops rw_ops) True opts (stream_events hs code (take n ps)) (newTargetResponseWriter w i) = Returns tw
         \<and> rw_status (tw_inner tw) = [] \<and> rw_body (tw_inner tw) = []))"
proof (intro conjI impI)
  let ?plain = "newTargetResponseWriter w i" and ?lb = "newTargetResponseWriter (newLoadBalancerReponseWriter w timeout) i"
  have p: "plain_target_flush.untouched ?plain"
    using assms(1) by (simp add: plain_target_flush.untouched_def fresh_response_def)
  have l: "affinity_target_flush.untouched ?lb"
    using assms(1) by (simp add: affinity_target_flush.untouched_def fresh_response_def newLoadBalancerReponseWriter_def lw_ok_def)
  {
    assume es: "event_stream hs w"
    then have "ShouldSwitchToUnbuffered (wo_Header (tw_ops rw_ops) (fold (add_header (tw_ops rw_ops)) hs ?plain))"
      by (simp only: stack_headers) (simp add: event_stream_def)
    from plain_target_flush.event_stream_so_far [OF p assms(2) this, of spill code "take n ps"]
    show "\<exists>tw. streamed_so_far (tw_ops rw_ops) spill opts (stream_events hs code (take n ps)) ?plain = Returns tw
        \<and> client_has code (concat (take n ps)) (tw_inner tw)"
      by (auto simp: plain_target_flush.streaming_def client_has_def)
    from es have "ShouldSwitchToUnbuffered (wo_Header (tw_ops (lb_ops now)) (fold (add_header (tw_ops (lb_ops now))) hs ?lb))"
      by (simp only: stack_headers) (simp add: event_stream_def newLoadBalancerReponseWriter_def)
    from affinity_target_flush.event_stream_so_far [OF l assms(2) this, of spill code "take n ps"]
    show "\<exists>tw. streamed_so_far (tw_ops (lb_ops now)) spill opts (stream_events hs code (take n ps)) ?lb = Returns tw
        \<and> client_has code (concat (take n ps)) (lw_inner (tw_inner tw))"
      by (auto simp: affinity_target_flush.streaming_def client_has_def)
  }
  assume b: "to_BufferResponses opts \<and> \<not> ShouldSwitchToUnbuffered (rw_Header w) \<and> list_all (\<lambda>(k, v). quiet (AddHeader k v)) hs"
  then have "\<not> ShouldSwitchToUnbuffered (wo_Header (tw_ops rw_ops) ?plain)" by simp
  from plain_target_flush.held_back_stream [OF p assms(2) this, of hs code "take n ps"] b
  show "\<exists>tw. streamed_so_far (tw_ops rw_ops) True opts (stream_events hs code (take n ps)) ?plain = Returns tw
      \<and> rw_status (tw_inner tw) = [] \<and> rw_body (tw_inner tw) = []"
    by (auto simp: streamed_so_far_def)
qed

definition ex_sse :: "(string \<times> string) list" where
  "ex_sse = [(''Content-Type'', ''text/event-stream; charset=utf-8'')]"

definition ex_buffered :: TargetOptions where
  "ex_buffered = example_options\<lparr>to_BufferResponses := True, to_MaxMemoryBufferSize := 100\<rparr>"

theorem event_stream_unbuffered_witness:
  "\<exists>tw. streamed_so_far (tw_ops rw_ops) True ex_buffered (stream_events ex_sse 200 (take 1 [''data: 1'', ''data: 2'']))
      (newTargetResponseWriter empty_response None) = Returns tw \<and> client_has 200 ''data: 1'' (tw_inner tw)"
proof -
  have "fresh_response empty_response" "0 \<le> to_MaxMemoryBufferSize ex_buffered"
    by (simp_all add: fresh_response_def empty_response_def ex_buffered_def)
  moreover have "event_stream ex_sse empty_response" by code_simp
  ultimately show ?thesis
    using event_stream_unbuffered [of empty_response ex_buffered ex_sse True 200 1 "[''data: 1'', ''data: 2'']" None] by simp
qed

end
