(* ===== verification/Concurrency.thy ===== *)
theory Concurrency
  imports Services
begin

section \<open>Goroutines and wait groups\<close>

text \<open>
  Models \<open>PerformConcurrently\<close> of \<open>internal/server/util.go\<close> and the wait group of \<open>LoadBalancer.DrainAll\<close>: each
  function runs in a goroutine of its own, as a sequence of steps on a shared state, and the call returns when
  the counter of the wait group is zero. For functions whose steps commute, every interleaving ends, and in the
  state that the functions would leave one after the other; the drains of the targets of a balancer are such functions.
\<close>

subsection \<open>The wait group\<close>

datatype 's goroutine = Running "('s \<Rightarrow> 's) list" | Ended

record 's WaitGroup =
  wg_state :: 's
  wg_routines :: "'s goroutine list"
  wg_count :: nat

definition PerformConcurrently :: "('s \<Rightarrow> 's) list list \<Rightarrow> 's \<Rightarrow> 's WaitGroup" where
  "PerformConcurrently fns s = \<lparr>wg_state = s, wg_routines = map Running fns, wg_count = length fns\<rparr>"

inductive perform_step :: "'s WaitGroup \<Rightarrow> 's WaitGroup \<Rightarrow> bool" where
  work: "i < length (wg_routines w) \<Longrightarrow> wg_routines w ! i = Running (f # fs) \<Longrightarrow>
    perform_step w (w\<lparr>wg_state := f (wg_state w), wg_routines := (wg_routines w)[i := Running fs]\<rparr>)"
| wg_done: "i < length (wg_routines w) \<Longrightarrow> wg_routines w ! i = Running [] \<Longrightarrow>
    perform_step w (w\<lparr>wg_routines := (wg_routines w)[i := Ended], wg_count := wg_count w - 1\<rparr>)"

text \<open>\<open>Wait\<close> returns.\<close>

definition wait_returns :: "'s WaitGroup \<Rightarrow> bool" where
  "wait_returns w \<longleftrightarrow> wg_count w = 0"

fun left_to_do :: "'s goroutine \<Rightarrow> ('s \<Rightarrow> 's) list" where
  "left_to_do (Running fs) = fs"
| "left_to_do Ended = []"

definition run_all :: "('s \<Rightarrow> 's) list \<Rightarrow> 's \<Rightarrow> 's" where
  "run_all fs s = foldl (\<lambda>s f. f s) s fs"

definition in_sequence :: "('s \<Rightarrow> 's) list list \<Rightarrow> 's \<Rightarrow> 's" where
  "in_sequence fns s = foldl (\<lambda>s fs. run_all fs s) s fns"

lemma run_all_simps [simp]: "run_all [] s = s" "run_all (f # fs) s = run_all fs (f s)" "run_all (fs @ gs) s = run_all gs (run_all fs s)"
  by (simp_all add: run_all_def)

lemma run_all_concat: "run_all (concat fns) s = in_sequence fns s"
  by (induction fns arbitrary: s) (simp_all add: in_sequence_def)

lemma run_all_commute: "\<forall>g \<in> set gs. f \<circ> g = g \<circ> f \<Longrightarrow> run_all gs (f s) = f (run_all gs s)"
  by (induction gs arbitrary: s) (simp_all add: fun_eq_iff, metis)

subsection \<open>Functions that do not interfere\<close>

locale independent_tasks =
  fixes fns :: "('s \<Rightarrow> 's) list list"
  assumes commute: "i < length fns \<Longrightarrow> j < length fns \<Longrightarrow> i \<noteq> j \<Longrightarrow> f \<in> set (fns ! i) \<Longrightarrow> g \<in> set (fns ! j) \<Longrightarrow> f \<circ> g = g \<circ> f"
begin

definition started :: "'s \<Rightarrow> 's WaitGroup \<Rightarrow> bool" where
  "started s w \<longleftrightarrow> w = PerformConcurrently fns s"

definition performing :: "'s \<Rightarrow> 's WaitGroup \<Rightarrow> bool" where
  "performing s w \<longleftrightarrow> length (wg_routines w) = length fns
     \<and> (\<forall>i < length fns. set (left_to_do (wg_routines w ! i)) \<subseteq> set (fns ! i))
     \<and> wg_count w = length (filter (\<lambda>r. r \<noteq> Ended) (wg_routines w))
     \<and> run_all (concat (map left_to_do (wg_routines w))) (wg_state w) = in_sequence fns s"

lemma started_performing: "started s w \<Longrightarrow> performing s w"
  by (simp add: started_def performing_def PerformConcurrently_def comp_def run_all_concat filter_map)

lemma others_commute:
  assumes "performing s w" "i < length fns" "f \<in> set (fns ! i)" "g \<in> set (concat (map left_to_do (take i (wg_routines w))))"
  shows "f \<circ> g = g \<circ> f"
proof -
  from assms(4) obtain r where r: "r \<in> set (take i (wg_routines w))" "g \<in> set (left_to_do r)" by auto
  from r(1) obtain j where "j < i" "r = wg_routines w ! j" by (auto simp: in_set_conv_nth)
  with r(2) have "j < i" "g \<in> set (left_to_do (wg_routines w ! j))" by simp_all
  moreover from this(1) assms(2) have j: "j < length fns" "i \<noteq> j" by simp_all
  ultimately have "g \<in> set (fns ! j)" using assms(1) unfolding performing_def by blast
  with commute [OF assms(2) j] assms(3) show ?thesis by blast
qed

lemma step_performing:
  assumes "perform_step w w'" "performing s w"
  shows "performing s w'"
  using assms(1)
proof cases
  case (work i f fs)
  let ?pre = "concat (map left_to_do (take i (wg_routines w)))" and ?post = "concat (map left_to_do (drop (Suc i) (wg_routines w)))"
  have i: "i < length fns" using work(2) assms(2) by (simp add: performing_def)
  have left: "set (f # fs) \<subseteq> set (fns ! i)" using assms(2) i work(3) by (force simp: performing_def)
  have "concat (map left_to_do (wg_routines w)) = ?pre @ (f # fs) @ ?post"
    by (subst id_take_nth_drop [OF work(2)]) (simp add: work(3))
  moreover have "concat (map left_to_do ((wg_routines w)[i := Running fs])) = ?pre @ fs @ ?post"
    using work(2) by (simp add: upd_conv_take_nth_drop)
  moreover have "run_all ?pre (f (wg_state w)) = f (run_all ?pre (wg_state w))"
    using others_commute [OF assms(2) i] left by (intro run_all_commute) auto
  moreover have "filter (\<lambda>r. r \<noteq> Ended) ((wg_routines w)[i := Running fs]) = (filter (\<lambda>r. r \<noteq> Ended) (wg_routines w))[length (filter (\<lambda>r. r \<noteq> Ended) (take i (wg_routines w))) := Running fs]"
    using work(2,3) by (subst (2) id_take_nth_drop [OF work(2)]) (simp add: upd_conv_take_nth_drop)
  ultimately show ?thesis using work assms(2) left by (auto simp: performing_def nth_list_update)
next
  case (wg_done i)
  have "concat (map left_to_do ((wg_routines w)[i := Ended])) = concat (map left_to_do (wg_routines w))"
    using wg_done(2,3) by (subst (2) id_take_nth_drop [OF wg_done(2)]) (simp add: upd_conv_take_nth_drop)
  moreover have "length (filter (\<lambda>r. r \<noteq> Ended) ((wg_routines w)[i := Ended])) = length (filter (\<lambda>r. r \<noteq> Ended) (wg_routines w)) - 1"
    using wg_done(2,3) by (subst (2) id_take_nth_drop [OF wg_done(2)]) (simp add: upd_conv_take_nth_drop)
  ultimately show ?thesis using wg_done assms(2) by (auto simp: performing_def nth_list_update)
qed

lemma stuck_only_when_done:
  assumes "performing s w" "\<not> wait_returns w"
  shows "\<exists>w'. perform_step w w'"
proof -
  from assms have "filter (\<lambda>r. r \<noteq> Ended) (wg_routines w) \<noteq> []" by (auto simp: performing_def wait_returns_def)
  then obtain i where i: "i < length (wg_routines w)" "wg_routines w ! i \<noteq> Ended"
    by (auto simp: filter_empty_conv in_set_conv_nth)
  show ?thesis
  proof (cases "wg_routines w ! i")
    case (Running fs)
    with i(1) show ?thesis by (cases fs) (auto intro: perform_step.intros)
  qed (use i in simp)
qed

lemma returned_result:
  assumes "performing s w" "wait_returns w"
  shows "wg_state w = in_sequence fns s"
proof -
  from assms have "filter (\<lambda>r. r \<noteq> Ended) (wg_routines w) = []" by (simp add: performing_def wait_returns_def)
  then have "concat (map left_to_do (wg_routines w)) = []" by (auto simp: filter_empty_conv)
  moreover from assms(1) have "run_all (concat (map left_to_do (wg_routines w))) (wg_state w) = in_sequence fns s"
    by (simp add: performing_def)
  ultimately show ?thesis by (simp only: run_all_simps)
qed

text \<open>Every step makes the work left smaller, so that a run has at most as many steps as there is work.\<close>

definition work_left :: "'s WaitGroup \<Rightarrow> nat" where
  "work_left w = sum_list (map (\<lambda>r. case r of Running fs \<Rightarrow> Suc (length fs) | Ended \<Rightarrow> 0) (wg_routines w))"

lemma step_works: "perform_step w w' \<Longrightarrow> work_left w' < work_left w"
proof (induction rule: perform_step.induct)
  case (work i w f fs)
  then show ?case unfolding work_left_def
    by (subst (2) id_take_nth_drop [OF work(1)]) (simp add: upd_conv_take_nth_drop)
next
  case (wg_done i w)
  then show ?case unfolding work_left_def
    by (subst (2) id_take_nth_drop [OF wg_done(1)]) (simp add: upd_conv_take_nth_drop)
qed

lemma runs_to_the_end:
  "performing s w \<Longrightarrow> \<exists>w'. perform_step\<^sup>*\<^sup>* w w' \<and> wait_returns w'"
proof (induction "work_left w" arbitrary: w rule: less_induct)
  case less
  show ?case
  proof (cases "wait_returns w")
    case False
    from stuck_only_when_done [OF less.prems False] obtain w1 where w1: "perform_step w w1" ..
    from less.hyps [OF step_works [OF w1] step_performing [OF w1 less.prems]] w1 show ?thesis
      by (meson converse_rtranclp_into_rtranclp)
  qed auto
qed

lemma perform_reached: "perform_step\<^sup>*\<^sup>* w w' \<Longrightarrow> performing s w \<Longrightarrow> performing s w'"
  by (induction rule: rtranclp_induct) (auto intro: step_performing)

lemma as_in_sequence:
  assumes "perform_step\<^sup>*\<^sup>* (PerformConcurrently fns s) w"
  shows "(wait_returns w \<longrightarrow> wg_state w = in_sequence fns s) \<and> (\<exists>w'. perform_step\<^sup>*\<^sup>* w w' \<and> wait_returns w')"
proof -
  have "performing s (PerformConcurrently fns s)" by (rule started_performing) (simp add: started_def)
  from perform_reached [OF assms this] show ?thesis using returned_result runs_to_the_end by blast
qed

end

subsection \<open>Draining the targets of a balancer\<close>

text \<open>A drain of one target: hijacked requests are cancelled at once, the others at the deadline.\<close>

definition drain_task :: "Target \<Rightarrow> (ReqStore \<Rightarrow> ReqStore) list" where
  "drain_task t =
     (if t_state t = TargetStateDraining then []
      else [cancel_requests if_hijacked (pendingRequestsToCancel t), cancel_requests (\<lambda>_. True) (pendingRequestsToCancel t)])"

definition DrainAll_tasks :: "LoadBalancer \<Rightarrow> (ReqStore \<Rightarrow> ReqStore) list list" where
  "DrainAll_tasks lb = map drain_task (lb_all lb)"

lemma cancel_idem: "cancel c (cancel c i) = cancel c i" "if_hijacked (cancel c i) = if_hijacked i"
  by (simp_all add: cancel_def split: option.split)

lemma cancel_requests_commute:
  assumes "\<And>i. p (cancel (Some ErrorDraining) i) = p i" "\<And>i. q (cancel (Some ErrorDraining) i) = q i"
  shows "cancel_requests p A \<circ> cancel_requests q B = cancel_requests q B \<circ> cancel_requests p A"
proof (intro ext)
  fix st :: ReqStore and r
  show "(cancel_requests p A \<circ> cancel_requests q B) st r = (cancel_requests q B \<circ> cancel_requests p A) st r"
    by (cases "st r") (simp_all add: cancel_requests_def assms cancel_idem)
qed

lemma drain_tasks_commute:
  assumes "f \<in> set (drain_task t)" "g \<in> set (drain_task u)"
  shows "f \<circ> g = g \<circ> f"
  using assms by (auto simp: drain_task_def cancel_idem intro!: cancel_requests_commute split: if_splits)

interpretation draining: independent_tasks "DrainAll_tasks lb" for lb
  by unfold_locales (auto simp: DrainAll_tasks_def intro: drain_tasks_commute)

lemma drain_task_run: "run_all (drain_task t) st = Target_Drain t st"
  by (simp add: drain_task_def Target_Drain_def)

lemma DrainAll_in_sequence: "in_sequence (DrainAll_tasks lb) st = DrainAll lb st"
  by (simp add: in_sequence_def DrainAll_tasks_def DrainAll_def foldl_map drain_task_run)

text \<open>\<open>Service.Drain\<close> drains the active and the rollout balancer concurrently, each its targets.\<close>

definition Service_Drain_tasks :: "Service \<Rightarrow> (ReqStore \<Rightarrow> ReqStore) list list" where
  "Service_Drain_tasks s =
     (case sv_active s of None \<Rightarrow> [] | Some lb \<Rightarrow> DrainAll_tasks lb) @
     (case sv_rollout s of None \<Rightarrow> [] | Some lb \<Rightarrow> DrainAll_tasks lb)"

lemma service_task: "f \<in> set (Service_Drain_tasks s ! i) \<Longrightarrow> i < length (Service_Drain_tasks s) \<Longrightarrow> \<exists>t. f \<in> set (drain_task t)"
proof -
  assume f: "f \<in> set (Service_Drain_tasks s ! i)" "i < length (Service_Drain_tasks s)"
  then have "Service_Drain_tasks s ! i \<in> set (Service_Drain_tasks s)" by simp
  then obtain t where "Service_Drain_tasks s ! i = drain_task t"
    by (auto simp: Service_Drain_tasks_def DrainAll_tasks_def split: option.splits)
  with f show ?thesis by auto
qed

interpretation service_draining: independent_tasks "Service_Drain_tasks s" for s
  by unfold_locales (meson service_task drain_tasks_commute)

lemma Service_Drain_in_sequence:
  "Service_Drain s st = Returns st' \<Longrightarrow> in_sequence (Service_Drain_tasks s) st = st'"
  by (auto simp: Service_Drain_def Service_Drain_tasks_def in_sequence_def DrainAll_in_sequence [unfolded in_sequence_def] Let_def
      split: option.splits)

text \<open>C33: the drains of a service's targets may run in any interleaving: every run of the goroutines that \<open>Drain\<close>
  starts can go on to its end, and whenever the wait group lets \<open>Drain\<close> return, the requests are as the drains of the targets
  one after the other leave them, which is what the commands of the router assume.\<close>

theorem drains_in_any_order:
  assumes "Service_Drain s st = Returns st'" and "perform_step\<^sup>*\<^sup>* (PerformConcurrently (Service_Drain_tasks s) st) w"
  shows "(wait_returns w \<longrightarrow> wg_state w = st') \<and> (\<exists>w'. perform_step\<^sup>*\<^sup>* w w' \<and> wait_returns w' \<and> wg_state w' = st')"
proof -
  note r = service_draining.as_in_sequence and seq = Service_Drain_in_sequence [OF assms(1)]
  from r [OF assms(2)] obtain w' where "perform_step\<^sup>*\<^sup>* w w'" "wait_returns w'" by blast
  moreover from this(1) assms(2) have "perform_step\<^sup>*\<^sup>* (PerformConcurrently (Service_Drain_tasks s) st) w'" by simp
  ultimately show ?thesis using r [OF assms(2)] r seq by blast
qed


subsection \<open>The buffer pool\<close>

text \<open>\<open>internal/server/proxy_buffer_pool.go\<close>: the buffers that the reverse proxy copies with. Which buffer the pool
  gives out, or that it makes a new one, is up to the runtime, which may also drop buffers. Users give back what they got, with other
  content.\<close>

record BufferPool =
  bp_bufferSize :: nat
  bp_pool :: "string list"

definition NewBufferPool :: "nat \<Rightarrow> BufferPool" where
  "NewBufferPool bufferSize = \<lparr>bp_bufferSize = bufferSize, bp_pool = []\<rparr>"

definition BufferPool_Get :: "nat option \<Rightarrow> BufferPool \<Rightarrow> string \<times> BufferPool" where
  "BufferPool_Get pick b =
     (case pick of
        Some i \<Rightarrow> if i < length (bp_pool b) then (bp_pool b ! i, b\<lparr>bp_pool := take i (bp_pool b) @ drop (Suc i) (bp_pool b)\<rparr>)
                  else (replicate (bp_bufferSize b) (CHR 0x00), b)
      | None \<Rightarrow> (replicate (bp_bufferSize b) (CHR 0x00), b))"

definition BufferPool_Put :: "string \<Rightarrow> BufferPool \<Rightarrow> BufferPool" where
  "BufferPool_Put content b = b\<lparr>bp_pool := content # bp_pool b\<rparr>"

text \<open>The pool and the buffers that are in use.\<close>

inductive pool_step :: "BufferPool \<times> string list \<Rightarrow> BufferPool \<times> string list \<Rightarrow> bool" where
  pool_get: "BufferPool_Get pick b = (buf, b') \<Longrightarrow> pool_step (b, used) (b', buf # used)"
| pool_put: "i < length used \<Longrightarrow> length content = length (used ! i) \<Longrightarrow>
    pool_step (b, used) (BufferPool_Put content b, take i used @ drop (Suc i) used)"
| pool_drop: "set kept \<subseteq> set (bp_pool b) \<Longrightarrow> pool_step (b, used) (b\<lparr>bp_pool := kept\<rparr>, used)"

definition pool_ok :: "nat \<Rightarrow> BufferPool \<times> string list \<Rightarrow> bool" where
  "pool_ok n st \<longleftrightarrow> bp_bufferSize (fst st) = n \<and> list_all (\<lambda>buf. length buf = n) (bp_pool (fst st))
     \<and> list_all (\<lambda>buf. length buf = n) (snd st)"

lemma list_all_without: "list_all P xs \<Longrightarrow> list_all P (take i xs @ drop (Suc i) xs)"
  by (auto simp: list_all_iff dest: in_set_takeD in_set_dropD)

lemma list_all_nth: "list_all (\<lambda>buf. length buf = n) xs \<Longrightarrow> i < length xs \<Longrightarrow> length (xs ! i) = n"
  by (simp add: list_all_length)

lemma pool_step_ok: "pool_step st st' \<Longrightarrow> pool_ok n st \<Longrightarrow> pool_ok n st'"
proof (induction rule: pool_step.induct)
  case (pool_get pick b buf b' used)
  then show ?case
    by (auto simp: pool_ok_def BufferPool_Get_def simp del: list_all_append split: option.splits if_splits
        intro: list_all_without simp: list_all_nth)
next
  case (pool_put i used content b)
  then have "length content = n" by (simp add: pool_ok_def list_all_length)
  with pool_put list_all_without [of _ used i] show ?case by (simp add: pool_ok_def BufferPool_Put_def del: list_all_append)
next
  case (pool_drop kept b used)
  then show ?case by (auto simp: pool_ok_def list_all_iff)
qed

text \<open>Every buffer that the pool gives out has the size that it was made for.\<close>

interpretation pooling: kept_invariant "\<lambda>st. st = (NewBufferPool n, [])" pool_step "pool_ok n" for n
  by unfold_locales (simp add: pool_ok_def NewBufferPool_def, erule (1) pool_step_ok [rotated])

theorem drains_in_any_order_witness:
  "\<exists>w. perform_step\<^sup>*\<^sup>* (PerformConcurrently (Service_Drain_tasks example_service) [7 \<mapsto> \<lparr>if_cancelled = None, if_hijacked = False\<rparr>]) w
    \<and> wait_returns w \<and> wg_state w = DrainAll ex_lb [7 \<mapsto> \<lparr>if_cancelled = None, if_hijacked = False\<rparr>]"
proof -
  have "Service_Drain example_service [7 \<mapsto> \<lparr>if_cancelled = None, if_hijacked = False\<rparr>] =
      Returns (DrainAll ex_lb [7 \<mapsto> \<lparr>if_cancelled = None, if_hijacked = False\<rparr>])"
    by (simp add: Service_Drain_def example_service_def)
  from drains_in_any_order [OF this rtranclp.rtrancl_refl] show ?thesis by blast
qed

end
