(* ===== verification/Processes.thy ===== *)
theory Processes
  imports Servers StateFiles Concurrency
begin

section \<open>The process\<close>

text \<open>
  Models \<open>run\<close> of \<open>internal/cmd/run.go\<close>, which restores the router, creates and starts the server and stops it on a
  signal, the listener for commands of \<open>internal/server/commands.go\<close>, and the concurrent stop of
  \<open>internal/server/server.go\<close>.
\<close>

subsection \<open>The listener for commands\<close>

text \<open>\<open>net/rpc\<close> has one table of services for the process. The first handler that starts registers itself there, later
  ones do not.\<close>

record RpcServer =
  rp_once :: bool
  rp_services :: "string \<rightharpoonup> nat"

definition RegisterName :: "string \<Rightarrow> nat \<Rightarrow> RpcServer \<Rightarrow> bool \<times> RpcServer" where
  "RegisterName name h rp =
     (case rp_services rp name of
        Some _ \<Rightarrow> (False, rp)
      | None \<Rightarrow> (True, rp\<lparr>rp_services := (rp_services rp)(name \<mapsto> h)\<rparr>))"

definition registered_Do :: "nat \<Rightarrow> RpcServer \<Rightarrow> bool \<times> RpcServer" where
  "registered_Do h rp = (if rp_once rp then (True, rp) else RegisterName ''kamal-proxy'' h (rp\<lparr>rp_once := True\<rparr>))"

datatype handler_start = HandlerListens | RegistrationFailed | ListenFailed

definition CommandHandler_Start :: "bool \<Rightarrow> nat \<Rightarrow> RpcServer \<Rightarrow> handler_start \<times> RpcServer" where
  "CommandHandler_Start listens h rp =
     (let (ok, rp') = registered_Do h rp
      in (if \<not> ok then RegistrationFailed else if \<not> listens then ListenFailed else HandlerListens, rp'))"

text \<open>The accepting goroutine: it serves each connection, goes on after an error, and ends when the listener is
  closed.\<close>

datatype accept_result = AcceptedConn nat | ListenerClosed | AcceptError

fun accept_loop :: "accept_result list \<Rightarrow> nat list \<times> bool" where
  "accept_loop [] = ([], True)"
| "accept_loop (AcceptedConn c # rs) = (let (cs, running) = accept_loop rs in (c # cs, running))"
| "accept_loop (AcceptError # rs) = accept_loop rs"
| "accept_loop (ListenerClosed # rs) = ([], False)"

lemma accept_loop_until_closed:
  "accept_loop rs = (List.map_filter (\<lambda>r. case r of AcceptedConn c \<Rightarrow> Some c | _ \<Rightarrow> None) (takeWhile (\<lambda>r. r \<noteq> ListenerClosed) rs),
     ListenerClosed \<notin> set rs)"
  by (induction rs rule: accept_loop.induct) (simp_all add: List.map_filter_def)

text \<open>Whichever handlers start in a process, in whatever order, calls go to the one that started first.\<close>

definition start_handlers :: "(bool \<times> nat) list \<Rightarrow> RpcServer \<Rightarrow> RpcServer" where
  "start_handlers hs rp = foldl (\<lambda>rp (listens, h). snd (CommandHandler_Start listens h rp)) rp hs"

lemma first_handler_serves:
  assumes "rp_once rp = False" "rp_services rp ''kamal-proxy'' = None"
  shows "rp_services (start_handlers ((listens, h) # hs) rp) ''kamal-proxy'' = Some h
    \<and> fst (CommandHandler_Start listens' h' (start_handlers ((listens, h) # hs) rp)) = (if listens' then HandlerListens else ListenFailed)"
proof -
  have "rp_once (start_handlers hs rp) \<and> rp_services (start_handlers hs rp) = rp_services rp" if "rp_once rp" for hs rp
    using that by (induction hs arbitrary: rp) (auto simp: start_handlers_def CommandHandler_Start_def registered_Do_def)
  moreover have "rp_once (snd (CommandHandler_Start listens h rp))"
    "rp_services (snd (CommandHandler_Start listens h rp)) ''kamal-proxy'' = Some h"
    using assms by (simp_all add: CommandHandler_Start_def registered_Do_def RegisterName_def)
  ultimately show ?thesis by (simp add: start_handlers_def CommandHandler_Start_def registered_Do_def)
qed

subsection \<open>Stopping\<close>

text \<open>The five functions that \<open>Stop\<close> runs concurrently touch different listeners.\<close>

definition Server_Stop_tasks :: "bool \<Rightarrow> (Server \<Rightarrow> Server) list list" where
  "Server_Stop_tasks finished =
     [[\<lambda>s. s\<lparr>sr_commands := Some False\<rparr>], [\<lambda>s. s\<lparr>sr_http := False\<rparr>], [\<lambda>s. s\<lparr>sr_https := False\<rparr>],
      [\<lambda>s. s\<lparr>sr_metrics := False\<rparr>],
      [\<lambda>s. case UDPServer_Stop finished (sr_udpServer s) of Returns (_, u) \<Rightarrow> s\<lparr>sr_udpServer := u\<rparr> | Panics _ \<Rightarrow> s]]"

interpretation stopping: independent_tasks "Server_Stop_tasks finished" for finished
  by unfold_locales
    (auto simp: Server_Stop_tasks_def nth_Cons' fun_eq_iff split: if_splits outcome.splits)

lemma Server_Stop_in_sequence:
  "Server_Stop finished s = Returns s' \<Longrightarrow> in_sequence (Server_Stop_tasks finished) s = s'"
  by (auto simp: Server_Stop_def stopUDPServer_def Server_Stop_tasks_def in_sequence_def UDPServer_Stop_def split: if_splits)

text \<open>Stopping in any interleaving ends as \<open>Server_Stop\<close> says.\<close>

lemma stop_in_any_order:
  assumes "Server_Stop finished s = Returns s'" "perform_step\<^sup>*\<^sup>* (PerformConcurrently (Server_Stop_tasks finished) s) w"
  shows "(wait_returns w \<longrightarrow> wg_state w = s') \<and> (\<exists>w'. perform_step\<^sup>*\<^sup>* w w' \<and> wait_returns w')"
  using stopping.as_in_sequence [OF assms(2)] Server_Stop_in_sequence [OF assms(1)] by simp

subsection \<open>Running\<close>

text \<open>\<open>run\<close> up to the wait for a signal; the error of the restoration is dropped. It goes on with
  \<open>Server_Stop\<close> only when the start succeeded.\<close>

record Disk =
  dk_state :: "marshalledService list option"
  dk_sessions :: FileSessionStore
  dk_session_files :: "string list"

definition run_start ::
  "Environment \<Rightarrow> OsEnv \<Rightarrow> ListenEnv \<Rightarrow> instant \<Rightarrow> (nat \<Rightarrow> UDPTarget) \<Rightarrow> (nat \<Rightarrow> UDPServiceDeployment) \<Rightarrow> Config \<Rightarrow> Disk \<Rightarrow>
     (start_error option \<times> Server) outcome" where
  "run_start env os lv now targets memory config disk =
     bind_outcome (RestoreLastSavedState env (NewRouter (dk_state disk))) (\<lambda>(_, router).
       Returns (Server_Start lv
         (NewServer os (dk_session_files disk) now (dk_sessions disk) targets memory config router)))"

definition free_addresses :: "ListenEnv \<Rightarrow> bool" where
  "free_addresses lv \<longleftrightarrow> lv_metrics lv \<and> lv_http lv \<and> lv_https lv \<and> lv_udp lv \<and> lv_commands lv"

lemma Server_Start_router: "sr_router (snd (Server_Start lv s)) = sr_router s"
  by (simp add: Server_Start_def startMetricsServer_def startHTTPServers_def startUDPServer_def startCommandHandler_def
      split: prod.split option.split)

lemma Server_Start_new:
  assumes "free_addresses lv"
  shows "\<exists>s'. Server_Start lv (NewServer os files now fs targets memory config router) = (None, s') \<and> sr_router s' = router
    \<and> sr_http s' \<and> sr_https s' \<and> sr_commands s' = Some True \<and> uo_open (sr_udpServer s') \<and> sr_metrics s' = (cf_MetricsPort config \<noteq> 0)"
  using assms
  by (simp add: free_addresses_def Server_Start_def NewServer_def NewUDPServer_def startMetricsServer_def startHTTPServers_def
      startUDPServer_def startCommandHandler_def UDPServer_Start_def)

text \<open>A process takes over from one that ended at any moment, be it by a crash: with a state file that loads and free addresses
  it serves the same services with the same routing, and on a signal, in whatever order its parts stop,
  closes every listener.\<close>

theorem process_takes_over:
  assumes "reach saved_start saved_step r" and "loadable env (r_saved r)" and "free_addresses lv" and "dk_state disk = r_saved r"
  shows "\<exists>s. run_start env os lv now targets memory config disk = Returns (None, s)
    \<and> sr_http s \<and> sr_https s \<and> sr_commands s = Some True \<and> uo_open (sr_udpServer s)
    \<and> content (sm_services (r_services (sr_router s))) = content (sm_services (r_services r))
    \<and> serviceFor (sm_requests (r_services (sr_router s))) host path = serviceFor (sm_requests (r_services r)) host path
    \<and> (\<exists>s'. Server_Stop finished s = Returns s' \<and> \<not> sr_http s' \<and> \<not> sr_https s' \<and> \<not> uo_open (sr_udpServer s'))"
proof -
  obtain r2 where r2: "RestoreLastSavedState env (NewRouter (r_saved r)) = Returns (None, r2)"
    "content (sm_services (r_services r2)) = content (sm_services (r_services r))"
    "serviceFor (sm_requests (r_services r2)) host path = serviceFor (sm_requests (r_services r)) host path"
    using file_as_it_is [OF assms(1,2), of host path] by blast
  let ?new = "NewServer os (dk_session_files disk) now (dk_sessions disk) targets memory config r2"
  obtain s where s: "Server_Start lv ?new = (None, s)" "sr_router s = r2" "sr_http s" "sr_https s" "sr_commands s = Some True"
    "uo_open (sr_udpServer s)" using Server_Start_new [OF assms(3)] by blast
  from server_lifecycle(2) [OF refl s(1), of finished] r2 s assms(4) show ?thesis by (auto simp: run_start_def)
qed

end
