(* ===== verification/Cleanups.thy ===== *)
theory Cleanups
  imports Sessions Ports
begin

section \<open>Cleaning up in the background\<close>

text \<open>
  Models \<open>startCleanup\<close> and \<open>Stop\<close> of the session manager and of the port allocator (\<open>internal/server/session_manager.go\<close>
  and \<open>port_allocator.go\<close>): a goroutine that cleans up on every tick until the shutdown channel is closed. The session
  manager's \<open>Stop\<close> waits for its goroutine before it writes the sessions, the port allocator's does not.
\<close>

subsection \<open>The session manager\<close>

datatype cleaner = Selecting | Cleaning | CleanerGone

datatype stopper = NotStopping | AwaitingCleaner | StopReturned

record Cleanup =
  cu_manager :: SessionManager
  cu_tick :: bool
  cu_cleaner :: cleaner
  cu_stopper :: stopper

definition startCleanup :: "SessionManager \<Rightarrow> Cleanup" where
  "startCleanup sm = \<lparr>cu_manager = sm, cu_tick = False, cu_cleaner = Selecting, cu_stopper = NotStopping\<rparr>"

fun from_outside :: "SessionEvent \<Rightarrow> bool" where
  "from_outside (CleanupAt order now) = False"
| "from_outside _ = True"

text \<open>The ticker's channel holds one tick. The select statement may take a tick although the shutdown channel is closed.\<close>

inductive cleaner_step :: "Cleanup \<Rightarrow> Cleanup \<Rightarrow> bool" where
  takes_tick: "cu_cleaner c = Selecting \<Longrightarrow> cu_tick c \<Longrightarrow> cleaner_step c (c\<lparr>cu_cleaner := Cleaning, cu_tick := False\<rparr>)"
| cleans: "cu_cleaner c = Cleaning \<Longrightarrow>
    cleaner_step c (c\<lparr>cu_cleaner := Selecting, cu_manager := cleanupExpiredSessions order now (cu_manager c)\<rparr>)"
| sees_shutdown: "cu_cleaner c = Selecting \<Longrightarrow> sn_shutdown (cu_manager c) \<Longrightarrow> cleaner_step c (c\<lparr>cu_cleaner := CleanerGone, cu_tick := False\<rparr>)"

inductive stopper_step :: "Cleanup \<Rightarrow> Cleanup \<Rightarrow> bool" where
  stop_closes: "cu_stopper c = NotStopping \<Longrightarrow>
    stopper_step c (c\<lparr>cu_stopper := AwaitingCleaner, cu_manager := (cu_manager c)\<lparr>sn_shutdown := True\<rparr>\<rparr>)"
| stop_persists: "cu_stopper c = AwaitingCleaner \<Longrightarrow> cu_cleaner c = CleanerGone \<Longrightarrow>
    stopper_step c (c\<lparr>cu_stopper := StopReturned,
      cu_manager := (if persists (cu_manager c) then persistAllSessions order (cu_manager c) else cu_manager c)\<rparr>)"

inductive cleanup_step :: "Cleanup \<Rightarrow> Cleanup \<Rightarrow> bool" where
  ticks: "cu_cleaner c \<noteq> CleanerGone \<Longrightarrow> cleanup_step c (c\<lparr>cu_tick := True\<rparr>)"
| outside: "from_outside e \<Longrightarrow> cleanup_step c (c\<lparr>cu_manager := session_event e (cu_manager c)\<rparr>)"
| cleaner: "cleaner_step c c' \<Longrightarrow> cleanup_step c c'"
| stopper: "stopper_step c c' \<Longrightarrow> cleanup_step c c'"

definition cleanup_start :: "Cleanup \<Rightarrow> bool" where
  "cleanup_start c \<longleftrightarrow> (\<exists>sm. \<not> sn_shutdown sm \<and> c = startCleanup sm)"

definition cleanup_ok :: "Cleanup \<Rightarrow> bool" where
  "cleanup_ok c \<longleftrightarrow> (sn_shutdown (cu_manager c) \<longleftrightarrow> cu_stopper c \<noteq> NotStopping)
     \<and> (cu_cleaner c = CleanerGone \<longrightarrow> sn_shutdown (cu_manager c)) \<and> (cu_stopper c = StopReturned \<longrightarrow> cu_cleaner c = CleanerGone)"

lemma event_shutdown [simp]: "sn_shutdown (session_event e sm) = sn_shutdown sm"
  "sn_shutdown (cleanupExpiredSessions order now sm) = sn_shutdown sm" "sn_shutdown (persistAllSessions order sm) = sn_shutdown sm"
proof -
  show c: "sn_shutdown (cleanupExpiredSessions order now sm) = sn_shutdown sm" for order now
    by (simp add: cleanupExpiredSessions_def Let_def)
  show "sn_shutdown (persistAllSessions order sm) = sn_shutdown sm" by (simp add: persistAllSessions_def split: option.split)
  have "sn_shutdown (snd (route_anew now T i ft svc targets so sm')) = sn_shutdown sm'" for now T i ft svc targets so sm'
    by (simp add: route_anew_def Let_def split: option.split)
  then show "sn_shutdown (session_event e sm) = sn_shutdown sm"
    by (cases e) (simp_all add: c RoutePacket_def DrainTarget_def DrainTargetWithPolicy_def update_sessions_def run_pending_def Let_def
        split: option.split)
qed

lemma cleanup_step_ok: "cleanup_step c c' \<Longrightarrow> cleanup_ok c \<Longrightarrow> cleanup_ok c'"
  by (induction rule: cleanup_step.induct) (auto simp: cleanup_ok_def elim!: cleaner_step.cases stopper_step.cases)

lemma cleanup_start_ok: "cleanup_start c \<Longrightarrow> cleanup_ok c"
  by (auto simp: cleanup_start_def cleanup_ok_def startCleanup_def)

interpretation cleaning: kept_invariant cleanup_start cleanup_step cleanup_ok
  by unfold_locales (auto intro: cleanup_start_ok cleanup_step_ok)

text \<open>\<open>Stop\<close> of the session manager ends. Wherever the cleaner is when \<open>Stop\<close> has begun, it can end and let \<open>Stop\<close> return,
  by steps of the two alone; then no cleanup can follow, and what \<open>Stop\<close> leaves is what the one-step model leaves
  of the sessions at that moment.\<close>

lemma cleaner_ends:
  assumes "cu_stopper c = AwaitingCleaner" "sn_shutdown (cu_manager c)"
  shows "\<exists>c'. cleaner_step\<^sup>*\<^sup>* c c' \<and> cu_cleaner c' = CleanerGone \<and> cu_stopper c' = AwaitingCleaner \<and> sn_shutdown (cu_manager c')"
proof -
  have gone: "\<exists>c'. cleaner_step\<^sup>*\<^sup>* c c' \<and> cu_cleaner c' = CleanerGone \<and> cu_stopper c' = AwaitingCleaner \<and> sn_shutdown (cu_manager c')"
    if "cu_cleaner c = Selecting" "cu_stopper c = AwaitingCleaner" "sn_shutdown (cu_manager c)" for c
    using sees_shutdown [OF that(1,3)] that by (intro exI [of _ "c\<lparr>cu_cleaner := CleanerGone, cu_tick := False\<rparr>"]) auto
  show ?thesis
  proof (cases "cu_cleaner c")
    case Selecting
    from gone [OF this assms] show ?thesis .
  next
    case Cleaning
    let ?c = "c\<lparr>cu_cleaner := Selecting, cu_manager := cleanupExpiredSessions [] 0 (cu_manager c)\<rparr>"
    from gone [of ?c] assms obtain c' where "cleaner_step\<^sup>*\<^sup>* ?c c'" "cu_cleaner c' = CleanerGone" "cu_stopper c' = AwaitingCleaner"
      "sn_shutdown (cu_manager c')" by auto
    with cleans [OF Cleaning, of "[]" 0] show ?thesis by (meson converse_rtranclp_into_rtranclp)
  next
    case CleanerGone
    with assms show ?thesis by blast
  qed
qed

lemma stop_returns:
  assumes "reach cleanup_start cleanup_step c" "cu_stopper c = AwaitingCleaner"
  shows "\<exists>c1 c2. cleaner_step\<^sup>*\<^sup>* c c1 \<and> stopper_step c1 c2 \<and> cu_stopper c2 = StopReturned"
proof -
  from cleaning.reach_inv [OF assms(1)] assms(2) have "sn_shutdown (cu_manager c)" by (simp add: cleanup_ok_def)
  from cleaner_ends [OF assms(2) this] obtain c1 where "cleaner_step\<^sup>*\<^sup>* c c1" "cu_cleaner c1 = CleanerGone" "cu_stopper c1 = AwaitingCleaner"
    by blast
  with stop_persists [of c1 "[]"] show ?thesis by fastforce
qed

lemma stopped_is_final:
  assumes "reach cleanup_start cleanup_step c" "cu_stopper c = StopReturned"
  shows "\<not> cleaner_step c c'"
  using cleaning.reach_inv [OF assms(1)] assms(2) by (auto simp: cleanup_ok_def elim: cleaner_step.cases)

lemma stop_refined:
  assumes "stopper_step c c'" "cu_stopper c = AwaitingCleaner" "sn_shutdown (cu_manager c)"
  shows "\<exists>order. SessionManager_Stop order ((cu_manager c)\<lparr>sn_shutdown := False\<rparr>) = Returns (cu_manager c')"
proof -
  have e: "(cu_manager c)\<lparr>sn_shutdown := True\<rparr> = cu_manager c" using assms(3) by (cases "cu_manager c") simp
  from assms(1) show ?thesis
  proof cases
    case (stop_persists order)
    then show ?thesis by (intro exI [of _ order]) (simp add: SessionManager_Stop_def Let_def e)
  qed (use assms in simp)
qed

subsection \<open>The port allocator\<close>

text \<open>Its \<open>Stop\<close> does not wait: the goroutine may still clean up once afterwards, on tables that are empty.\<close>

lemma cleanup_after_stop:
  assumes "PortAllocator_Stop pa = Returns pa'"
  shows "cleanupExpiredAllocations order now pa' = Returns pa'"
proof -
  from assms have "pa_allocated pa' = Map.empty" by (auto simp: PortAllocator_Stop_def split: if_splits)
  then have "filter (held_by (expired now) pa') order = []" by (simp add: filter_empty_conv held_by_def)
  then show ?thesis by (simp add: cleanupExpiredAllocations_def)
qed

end
