(* ===== verification/Spec2Isabelle.thy ===== *)
theory Spec2Isabelle
  imports Tables HealthChecks Metrics Saves Overlaps Streaming Processes Cleanups
begin

text \<open>
  \<^bold>\<open>A verification library for kamal-proxy\<close>

  kamal-proxy is an HTTP proxy for deployments without downtime, with a UDP and WebRTC proxy beside it.
  Paths below are relative to \<^verbatim>\<open>src/\<close>; the server is \<^verbatim>\<open>internal/server\<close>, the command line
  \<^verbatim>\<open>internal/cmd\<close>.

  \<^bold>\<open>The parts and how they interact.\<close> A command of the command line checks its flags and makes a remote call
  (\<^verbatim>\<open>commands.go\<close>) to the running server. HTTP commands go to the router (\<^verbatim>\<open>router.go\<close>), which keeps the
  services in a map with an index from hosts and path prefixes (\<^verbatim>\<open>service_map.go\<close>) and saves them to a file
  after each command. A service (\<^verbatim>\<open>service.go\<close>) has an active and possibly a rollout load balancer
  (\<^verbatim>\<open>load_balancer.go\<close>) over targets (\<^verbatim>\<open>target.go\<close>), a pause controller and a rollout controller. A request
  passes the middlewares, is routed to a service, and is answered, held or sent to a target. UDP commands go
  to the UDP service map (\<^verbatim>\<open>udp_service_map.go\<close>), which shares a session manager, a port allocator and a
  deployment manager; a packet goes through the UDP server to a service, its session and a target.

  \<^bold>\<open>The theories, and the code they model.\<close>
  \<^item> \<^verbatim>\<open>Prelude\<close>: results of calls that may panic, strings of the Go library, Go maps as association lists,
    and the locale \<open>kept_invariant\<close>, the contract between a step relation and its invariant, which every
    state machine below interprets.
  \<^item> \<^verbatim>\<open>Strconv\<close>, \<^verbatim>\<open>Md5\<close>: numbers as text, splitting, and the digest of the session ids.
  \<^item> \<^verbatim>\<open>Options\<close> (service and target options), \<^verbatim>\<open>Targets\<close> (\<^verbatim>\<open>target.go\<close>), \<^verbatim>\<open>Draining\<close> (the
    interleaving of a drain with requests, health checks and the clock), \<^verbatim>\<open>HealthChecks\<close>
    (\<^verbatim>\<open>health_check.go\<close>, the goroutine and its closing), \<^verbatim>\<open>LoadBalancing\<close>, \<^verbatim>\<open>Pausing\<close>
    (\<^verbatim>\<open>pause_controller.go\<close>, with its waiting requests), \<^verbatim>\<open>Rollout\<close> (\<^verbatim>\<open>rollout_controller.go\<close>, with the hash
    and the floating-point split), \<^verbatim>\<open>Services\<close> (\<^verbatim>\<open>service.go\<close>, \<^verbatim>\<open>cert.go\<close>), \<^verbatim>\<open>ServiceMaps\<close>, \<^verbatim>\<open>Routers\<close>.
  \<^item> \<^verbatim>\<open>Buffers\<close> (\<^verbatim>\<open>buffer.go\<close> and the two buffering middlewares, over any response writer: the interface
    \<open>http.ResponseWriter\<close> is a record of operations and its contract the locale \<open>response_writer\<close>, interpreted for
    the plain writer, the load balancer's and the target's), \<^verbatim>\<open>Middlewares\<close> (error pages, request headers,
    logging), \<^verbatim>\<open>HttpChain\<close> (\<open>buildHandler\<close>: a request through all of them), \<^verbatim>\<open>Proxying\<close> (\<^verbatim>\<open>target.go\<close>: the
    exchange with a target, \<open>SendRequest\<close> with its rewriting, buffers and error mapping, in that chain),
    \<^verbatim>\<open>Streaming\<close> (the \<open>Flush\<close> methods; the locale \<open>flushing_writer\<close> extends \<open>response_writer\<close>), \<^verbatim>\<open>Metrics\<close>
    (\<^verbatim>\<open>internal/metrics\<close> and its callers, over any vectors that obey \<open>vector_laws\<close>).
  \<^item> \<^verbatim>\<open>Concurrency\<close> (\<^verbatim>\<open>util.go\<close>, \<^verbatim>\<open>proxy_buffer_pool.go\<close>: goroutines under a wait group, with the locale
    \<open>independent_tasks\<close>, interpreted for the drains of a balancer, of a service and for the stop of the server),
    \<^verbatim>\<open>StateFiles\<close> and \<^verbatim>\<open>Saves\<close> (\<open>saveStateSnapshot\<close> of \<^verbatim>\<open>router.go\<close>: the file after every step of the router, and
    saves that overlap), \<^verbatim>\<open>Overlaps\<close> (\<open>DeployService\<close> and \<open>SetRolloutTargets\<close>, split at the wait for health, with
    other commands and requests in between), \<^verbatim>\<open>Cleanups\<close> (the background goroutines of the session manager and the port allocator),
    \<^verbatim>\<open>Processes\<close> (\<open>run\<close>, the listener for commands, the concurrent stop).
  \<^item> \<^verbatim>\<open>Ports\<close> (\<^verbatim>\<open>port_allocator.go\<close>), \<^verbatim>\<open>UdpTargets\<close>, \<^verbatim>\<open>Sessions\<close> (\<^verbatim>\<open>session_manager.go\<close>), \<^verbatim>\<open>UdpDeployment\<close>,
    \<^verbatim>\<open>UdpServices\<close> (\<^verbatim>\<open>udp_service_map.go\<close>), \<^verbatim>\<open>UdpServers\<close> (\<^verbatim>\<open>udp_server.go\<close>).
  \<^item> \<^verbatim>\<open>Commands\<close>, \<^verbatim>\<open>Configs\<close>, \<^verbatim>\<open>Servers\<close> (\<^verbatim>\<open>server.go\<close>), \<^verbatim>\<open>Cli\<close> (the commands of \<^verbatim>\<open>internal/cmd\<close>), \<^verbatim>\<open>Tables\<close>
    (\<^verbatim>\<open>list.go\<close>, \<^verbatim>\<open>formatting.go\<close>).

  \<^bold>\<open>How the code is modelled.\<close> A struct is a record with a prefix for its fields, an operation a function
  from the state to the result and the new state, in the order and with the branches of the source. An
  error is an \<open>option\<close> or the left side of a sum; a panic is the outcome \<open>Panics\<close>, so that \<open>Returns\<close> claims
  that there is none. Objects that are shared by pointer (UDP targets, port allocations, deployments) are
  addresses into a heap with an allocation counter. Code that runs under a lock is one step; goroutines and
  the critical sections between them are step relations, and a theorem about them holds in every state
  reached by any interleaving. The loop over a Go map takes its order as an argument, and results hold for
  every order that lists the keys. What is not the program is an argument: health reports, clocks, the
  outcome of socket and file operations, name resolution, templates, a target's answers. Durations and
  instants are integers (nanoseconds); hashes work on 32-bit words. Loops that wait for an event take the
  list of what they see as an argument, so no fuel is needed: a result of \<open>None\<close> says that the list ended first.

  \<^bold>\<open>What is shown.\<close> Routing by the longest prefix, and that the index agrees with the services in every
  reachable state; deployments succeed only with healthy targets and otherwise change nothing; deployments that wait while other commands run take effect at one point, and no
  interleaving of waiting deployments and rollouts with commands panics or breaks the index; drains end by
  their deadline with every request finished or cancelled; the decision for a request on every branch; the
  whole handler answers every request and logs what it sent; the state survives a restart, which is a step of
  the router and of the whole proxy like a command or a request; the state file is well formed and describes the
  services at every moment, so that a crash loses no routing, as long as saves do not overlap; drains of several
  targets end as if run in sequence; the metrics count exactly; no interleaving
  of pause, resume and stop closes a channel twice; round robin is fair; the rollout split is exact and
  monotone; a proxied response reaches the client whole or as the right error page, buffering is
  transparent within its limits, and event streams pass through it at once; a closed health check reports at most once more. For UDP: the port tables stay consistent, packets
  stay with their session's target, the session manager inside the service map only goes through its own
  events, services do not share targets, deployments replace exactly one service,
  the parser of port ranges is exact. Theorems of kind error state precisely where the code misbehaves: a
  restored paused service, a failed redeployment, which costs every service at the next restart, saves of the
  state that overlap, a rollout that brings a removed service back, the cleanup of port pairs, a UDP target stopped during a
  health check, sessions that stay with stopped targets, WebRTC redeployments that lose their ports,
  zero-downtime deployments that have no effect, and sessions lost on a restart.

  \<^bold>\<open>Not modelled.\<close> The transport of \<open>net/http\<close>, TLS and ACME, \<open>net/rpc\<close>, cobra, \<open>html/template\<close> and
  \<open>log/slog\<close>; the Prometheus client, of which the operations used are an argument; opening sockets and files;
  JSON as text (the state file and the session files hold the decoded values); the texts a command
  prints after a UDP deployment; signals; \<^verbatim>\<open>internal/pages\<close> (embedded files), \<^verbatim>\<open>main.go\<close> and the helpers of the
  tests. Commands of the router are one step outside of \<^verbatim>\<open>Overlaps\<close>, which splits them at their waits for health, \<^verbatim>\<open>Saves\<close>, where
  their saves overlap, and \<^verbatim>\<open>Concurrency\<close>, where the drains inside a command interleave.

  \<^bold>\<open>Plan.\<close> What could follow: one step relation with the waits, the saves and the drains of commands all split; and
  the data races of services that are marshalled while they change.
\<close>

section \<open>The proxy as a whole\<close>



subsection \<open>Examples\<close>

definition ex_handler :: CommandHandler where
  "ex_handler = NewCommandHandler (NewRouter None) ex_udp_map"

lemma ex_handler_reached: "reach handler_start handler_step ex_handler"
proof (rule reach_start)
  have "map_start ex_udp_map" unfolding ex_udp_map_def map_start_def by blast
  then show "handler_start ex_handler" unfolding handler_start_def ex_handler_def router_start_def by blast
qed

definition ex_deploy_udp :: deployUDPCommand where
  "ex_deploy_udp = newDeployUDPCommand\<lparr>du_args := (du_args newDeployUDPCommand)\<lparr>ud_TargetURLs := [''10.0.0.1:5000''], ud_Port := 8080\<rparr>\<rparr>"



end
